(* ===== verification/Prelude.thy ===== *)
theory Prelude
  imports Main "HOL-Library.Word"
begin

text \<open>
  Shared vocabulary of the development: the machine types of the C++ code, the result type of a
  run that can fail, C strings, and the lemmas about them that every component uses.

  A C++ \<open>int\<close> is a 32-bit word read as two's complement (\<open>sint\<close>); a \<open>std::string\<close> and a
  protobuf \<open>bytes\<close> field are lists of bytes (\<open>char\<close>).
\<close>

named_theorems frame_simps \<open>what an operation leaves unchanged\<close>

subsection \<open>Machine types\<close>

type_synonym int32 = "32 word"
type_synonym byte = "8 word"

text \<open>Narrowing a 64-bit value to \<open>int\<close> keeps the low 32 bits.\<close>

abbreviation to_int32 :: "int \<Rightarrow> int32" where
  "to_int32 i \<equiv> word_of_int i"

lemma to_int32_sint [simp]: "to_int32 (sint (w :: int32)) = w"
  by simp

lemma sint_to_int32_range:
  assumes "- (2 ^ 31) \<le> i" and "i < 2 ^ 31"
  shows "sint (to_int32 i) = i"
  using assms by (simp add: sint_sbintrunc' signed_take_bit_int_eq_self)

text \<open>
  \<open>x + 1\<close> on a signed \<open>int\<close>: undefined at the largest value, so the caller sees no sum there.
\<close>

definition int32_succ :: "int32 \<Rightarrow> int32 option" where
  "int32_succ w = (if sint w = 2 ^ 31 - 1 then None else Some (w + 1))"

lemma sint_int32_bounds: "- (2 ^ 31) \<le> sint (w :: int32)" "sint (w :: int32) < 2 ^ 31"
  using sint_greater_eq [of w] sint_less [of w] by simp_all

lemma sint_int32_succ: "int32_succ w = Some v \<Longrightarrow> sint v = sint w + 1"
proof -
  assume a: "int32_succ w = Some v"
  then have v: "v = w + 1" and ne: "sint w \<noteq> 2 ^ 31 - 1"
    by (auto simp: int32_succ_def split: if_splits)
  have "v = to_int32 (sint w + 1)" by (simp add: v)
  moreover have "- (2 ^ 31) \<le> sint w + 1" "sint w + 1 < 2 ^ 31"
    using sint_int32_bounds [of w] ne by linarith+
  ultimately show ?thesis using sint_to_int32_range by metis
qed

subsection \<open>Runs that can fail\<close>

text \<open>
  What can happen instead of a result: an exception that nobody catches (it leaves a thread
  function or a \<open>noexcept\<close> function, so \<open>std::terminate\<close> ends the process), a \<open>FATAL\<close> log
  (easylogging aborts the process), undefined behaviour of the C++ code, or a call that has not
  returned yet after the kernel answers that were given.
\<close>

datatype fault =
    UncaughtException string
  | FatalLog string
  | UndefinedBehaviour string
  | StillWaiting

type_synonym 'a run = "fault + 'a"

definition rbind :: "'e + 'a \<Rightarrow> ('a \<Rightarrow> 'e + 'b) \<Rightarrow> 'e + 'b" where
  "rbind m f = (case m of Inl e \<Rightarrow> Inl e | Inr x \<Rightarrow> f x)"

lemma rbind_Inl [simp]: "rbind (Inl e) f = Inl e"
  by (simp add: rbind_def)

lemma rbind_Inr [simp]: "rbind (Inr x) f = f x"
  by (simp add: rbind_def)

lemma rbind_eq_Inr_iff: "rbind m f = Inr y \<longleftrightarrow> (\<exists>x. m = Inr x \<and> f x = Inr y)"
  by (cases m) auto

lemma rbind_eq_Inl_iff: "rbind m f = Inl e \<longleftrightarrow> m = Inl e \<or> (\<exists>x. m = Inr x \<and> f x = Inl e)"
  by (cases m) auto

lemma rbind_InrE [elim!]:
  assumes "rbind m f = Inr y"
  obtains x where "m = Inr x" and "f x = Inr y"
  using assms by (auto simp: rbind_eq_Inr_iff)

lemma rbind_assoc: "rbind (rbind m f) g = rbind m (\<lambda>x. rbind (f x) g)"
  by (cases m) simp_all

lemma rbind_cong [fundef_cong]:
  assumes "m = m'" and "\<And>x. m' = Inr x \<Longrightarrow> f x = f' x"
  shows "rbind m f = rbind m' f'"
  using assms by (cases m') auto

text \<open>Running an action over a list, stopping at the first failure.\<close>

fun rmap :: "('a \<Rightarrow> 'e + 'b) \<Rightarrow> 'a list \<Rightarrow> 'e + 'b list" where
  "rmap f [] = Inr []"
| "rmap f (x # xs) = rbind (f x) (\<lambda>y. rbind (rmap f xs) (\<lambda>ys. Inr (y # ys)))"

lemma rmap_Inr: "(\<And>x. x \<in> set xs \<Longrightarrow> f x = Inr (g x)) \<Longrightarrow> rmap f xs = Inr (map g xs)"
  by (induction xs) auto

lemma rmap_length: "rmap f xs = Inr ys \<Longrightarrow> length ys = length xs"
  by (induction xs arbitrary: ys) auto

subsection \<open>C strings\<close>

text \<open>
  Building a string from \<open>data()\<close> of a \<open>string_view\<close>, or binding that pointer to a statement,
  keeps the bytes before the first NUL.
\<close>

definition c_str :: "string \<Rightarrow> string" where
  "c_str s = takeWhile (\<lambda>c. c \<noteq> CHR 0x00) s"

lemma c_str_idem [simp]: "c_str (c_str s) = c_str s"
  by (simp add: c_str_def)

lemma c_str_no_nul: "CHR 0x00 \<notin> set (c_str s)"
  by (auto simp: c_str_def dest: set_takeWhileD)

lemma c_str_id: "CHR 0x00 \<notin> set s \<Longrightarrow> c_str s = s"
  by (auto simp: c_str_def)

lemma c_str_length: "length (c_str s) \<le> length s"
  by (simp add: c_str_def length_takeWhile_le)

subsection \<open>Lists and maps\<close>

lemma filter_Nil_iff: "filter P xs = [] \<longleftrightarrow> (\<forall>x\<in>set xs. \<not> P x)"
  by (rule filter_empty_conv)

lemma map_of_map_key:
  "map_of (map (\<lambda>c. (f c, g c)) cs) (f c) = Some (g c)"
  if "c \<in> set cs" "inj_on f (set cs)"
  using that by (induction cs) (auto simp: inj_on_def)

end
