(* ===== verification/Sql_Engine.thy ===== *)
theory Sql_Engine
  imports Prelude "HOL-Library.Multiset"
begin

text \<open>
  The interface to SQLite. The statements of \<open>src/db/db_access.cpp\<close> and \<open>include/db_access.h\<close> are
  values of \<open>sql_stmt\<close>; the engine that runs them (SQLite through SQLiteCpp) is not part of the
  repository and is the record \<open>sqlite\<close>, a parameter of every database access.

  The locale \<open>sqlite_laws\<close> says what the accesses rely on: the documented meaning of the statements on
  the rows of a table. Any statement may also throw, for reasons the laws leave open (a locked
  file, a full disk), and a \<open>SELECT\<close> without \<open>ORDER BY\<close> may give its rows in any order.
\<close>

subsection \<open>Statements\<close>

datatype sql_value = SqlNull | SqlInt int | SqlText string

datatype sql_type = INTEGER | TEXT_type

datatype col_constraint = PRIMARY_KEY | AUTOINCREMENT | NOT_NULL | UNIQUE

record column =
  col_name :: string
  col_type :: sql_type
  col_constraints :: "col_constraint list"

datatype table_constraint =
    FOREIGN_KEY string string string   \<comment> \<open>column, referenced table and column\<close>
  | PRIMARY_KEY_OF "string list"

datatype sql_stmt =
    SelectAll string "string list"
      \<comment> \<open>\<open>SELECT * FROM t WHERE c1 = ? AND ...\<close>; no columns: no \<open>WHERE\<close>\<close>
  | InsertInto string "string list"
      \<comment> \<open>\<open>INSERT INTO t (c1, ...) VALUES (?, ...)\<close>\<close>
  | UpdateSet string "string list" "string list"
      \<comment> \<open>\<open>UPDATE t SET c1 = ?, ... WHERE w1 = ? ...\<close>\<close>
  | CreateTable string "column list" "table_constraint list"

text \<open>A row gives each column, by name, a value. A name the row does not have reads as NULL here.\<close>

type_synonym sql_row = "(string \<times> sql_value) list"

definition cell :: "sql_row \<Rightarrow> string \<Rightarrow> sql_value" where
  "cell r n = (case map_of r n of None \<Rightarrow> SqlNull | Some v \<Rightarrow> v)"

subsection \<open>The engine\<close>

text \<open>
  \<open>sql_prepare\<close>: the message of the exception that constructing the statement throws, if it does.
  \<open>sql_step\<close>: the rows that successive calls of \<open>executeStep\<close> yield, and the exception that ends them
  instead of the end of the result, if one does. \<open>sql_exec\<close>: the exception or the number of rows
  changed, and the new database. \<open>sql_getInt\<close> and \<open>sql_getString\<close> read a column's value.
\<close>

record 'd sqlite =
  sql_prepare :: "'d \<Rightarrow> sql_stmt \<Rightarrow> string option"
  sql_step :: "'d \<Rightarrow> sql_stmt \<Rightarrow> sql_value list \<Rightarrow> sql_row list \<times> string option"
  sql_exec :: "'d \<Rightarrow> sql_stmt \<Rightarrow> sql_value list \<Rightarrow> (string + int) \<times> 'd"
  sql_tableExists :: "'d \<Rightarrow> string \<Rightarrow> string + bool"
  sql_lastInsertRowid :: "'d \<Rightarrow> int"
  sql_getInt :: "sql_value \<Rightarrow> int32"
  sql_getString :: "sql_value \<Rightarrow> string"

subsection \<open>The meaning of the statements on rows\<close>

definition row_matches :: "string list \<Rightarrow> sql_value list \<Rightarrow> sql_row \<Rightarrow> bool" where
  "row_matches cs vs r = list_all (\<lambda>(c, v). v \<noteq> SqlNull \<and> cell r c = v) (zip cs vs)"

definition is_auto :: "column \<Rightarrow> bool" where
  "is_auto c = (AUTOINCREMENT \<in> set (col_constraints c))"

definition is_required :: "column \<Rightarrow> bool" where
  "is_required c = (NOT_NULL \<in> set (col_constraints c) \<or> is_auto c)"

definition is_unique :: "column \<Rightarrow> bool" where
  "is_unique c = (UNIQUE \<in> set (col_constraints c) \<or> PRIMARY_KEY \<in> set (col_constraints c))"

fun fits :: "sql_type \<Rightarrow> sql_value \<Rightarrow> bool" where
  "fits INTEGER (SqlInt _) = True"
| "fits TEXT_type (SqlText _) = True"
| "fits _ SqlNull = True"
| "fits _ _ = False"

text \<open>The parameters bound for columns \<open>cs\<close> have those columns' types and none is an automatic key.\<close>

definition params_fit :: "column list \<Rightarrow> string list \<Rightarrow> sql_value list \<Rightarrow> bool" where
  "params_fit sc cs vs \<longleftrightarrow>
     length vs = length cs \<and>
     list_all (\<lambda>c. case map_of (zip cs vs) (col_name c) of
                     None \<Rightarrow> True | Some v \<Rightarrow> fits (col_type c) v \<and> \<not> is_auto c) sc"

text \<open>The row an \<open>INSERT\<close> adds, \<open>k\<close> being the automatic key, and when the constraints admit it.\<close>

definition new_row :: "column list \<Rightarrow> string list \<Rightarrow> sql_value list \<Rightarrow> int \<Rightarrow> sql_row" where
  "new_row sc cs vs k =
     map (\<lambda>c. (col_name c,
                case map_of (zip cs vs) (col_name c) of
                  Some v \<Rightarrow> v
                | None \<Rightarrow> if is_auto c then SqlInt k else SqlNull)) sc"

definition row_ok :: "column list \<Rightarrow> sql_row list \<Rightarrow> sql_row \<Rightarrow> bool" where
  "row_ok sc old r =
     list_all (\<lambda>c. (is_required c \<longrightarrow> cell r (col_name c) \<noteq> SqlNull) \<and>
                   (is_unique c \<longrightarrow> cell r (col_name c) = SqlNull \<or>
                      list_all (\<lambda>r'. cell r' (col_name c) \<noteq> cell r (col_name c)) old)) sc"

text \<open>An automatic key is positive and larger than every key in the table.\<close>

definition auto_keys :: "column list \<Rightarrow> sql_row list \<Rightarrow> int list" where
  "auto_keys sc rows =
     concat (map (\<lambda>c. if is_auto c
                      then concat (map (\<lambda>r. case cell r (col_name c) of SqlInt j \<Rightarrow> [j] | _ \<Rightarrow> []) rows)
                      else []) sc)"

definition fresh_key :: "column list \<Rightarrow> sql_row list \<Rightarrow> int \<Rightarrow> bool" where
  "fresh_key sc old k \<longleftrightarrow> 1 \<le> k \<and> list_all (\<lambda>j. j < k) (auto_keys sc old)"

definition set_cells :: "string list \<Rightarrow> sql_value list \<Rightarrow> sql_row \<Rightarrow> sql_row" where
  "set_cells cs vs r =
     map (\<lambda>(n, v). (n, case map_of (zip cs vs) n of Some w \<Rightarrow> w | None \<Rightarrow> v)) r"

definition update_rows ::
    "string list \<Rightarrow> string list \<Rightarrow> sql_value list \<Rightarrow> sql_row list \<Rightarrow> sql_row list" where
  "update_rows cs ws vs rows =
     map (\<lambda>r. if row_matches ws (drop (length cs) vs) r
              then set_cells cs (take (length cs) vs) r else r) rows"

subsection \<open>The laws\<close>

text \<open>
  \<open>tbl d t\<close> are the rows of table \<open>t\<close> in database \<open>d\<close>, in the order of their insertion, and \<open>sch d t\<close> its
  columns, if the table exists: observations of the database that the program does not make.
\<close>

locale sqlite_laws =
  fixes eng :: "'d sqlite"
    and tbl :: "'d \<Rightarrow> string \<Rightarrow> sql_row list"
    and sch :: "'d \<Rightarrow> string \<Rightarrow> column list option"
  assumes select_sub: "sch d t \<noteq> None \<Longrightarrow> sql_step eng d (SelectAll t cs) vs = (rs, x) \<Longrightarrow>
      mset rs \<subseteq># mset (filter (row_matches cs vs) (tbl d t))"
    and select_all: "sch d t \<noteq> None \<Longrightarrow> sql_step eng d (SelectAll t cs) vs = (rs, None) \<Longrightarrow>
      mset rs = mset (filter (row_matches cs vs) (tbl d t))"
    and insert_frame: "sch d t \<noteq> None \<Longrightarrow> sql_exec eng d (InsertInto t cs) vs = (r, d') \<Longrightarrow>
      sch d' = sch d \<and> (\<forall>u. u \<noteq> t \<longrightarrow> tbl d' u = tbl d u)"
    and insert_fails: "sch d t \<noteq> None \<Longrightarrow> sql_exec eng d (InsertInto t cs) vs = (Inl e, d') \<Longrightarrow>
      tbl d' t = tbl d t"
    and insert_row: "sch d t = Some sc \<Longrightarrow> params_fit sc cs vs \<Longrightarrow>
      sql_exec eng d (InsertInto t cs) vs = (Inr n, d') \<Longrightarrow>
      n = 1 \<and> (\<exists>k. fresh_key sc (tbl d t) k \<and> row_ok sc (tbl d t) (new_row sc cs vs k) \<and>
        tbl d' t = tbl d t @ [new_row sc cs vs k] \<and>
        (list_ex is_auto sc \<longrightarrow> sql_lastInsertRowid eng d' = k))"
    and update_frame: "sch d t \<noteq> None \<Longrightarrow> sql_exec eng d (UpdateSet t cs ws) vs = (r, d') \<Longrightarrow>
      sch d' = sch d \<and> (\<forall>u. u \<noteq> t \<longrightarrow> tbl d' u = tbl d u)"
    and update_fails: "sch d t \<noteq> None \<Longrightarrow> sql_exec eng d (UpdateSet t cs ws) vs = (Inl e, d') \<Longrightarrow>
      tbl d' t = tbl d t"
    and update_rows: "sch d t = Some sc \<Longrightarrow> params_fit sc cs (take (length cs) vs) \<Longrightarrow>
      sql_exec eng d (UpdateSet t cs ws) vs = (Inr n, d') \<Longrightarrow>
      tbl d' t = update_rows cs ws vs (tbl d t) \<and>
      n = int (length (filter (row_matches ws (drop (length cs) vs)) (tbl d t)))"
    and create_table: "sch d t = None \<Longrightarrow> sql_exec eng d (CreateTable t sc tcs) [] = (Inr n, d') \<Longrightarrow>
      sch d' = (sch d)(t \<mapsto> sc) \<and> tbl d' = (tbl d)(t := [])"
    and create_fails: "sch d t = None \<Longrightarrow> sql_exec eng d (CreateTable t sc tcs) [] = (Inl e, d') \<Longrightarrow>
      sch d' = sch d \<and> tbl d' = tbl d"
    and table_exists: "sql_tableExists eng d t = Inr b \<Longrightarrow> b = (sch d t \<noteq> None)"
    and get_int: "sql_getInt eng (SqlInt i) = to_int32 i"
    and get_string: "sql_getString eng (SqlText s) = s"
    and get_null: "sql_getInt eng SqlNull = 0" "sql_getString eng SqlNull = ''''"

subsection \<open>Tables that satisfy their constraints\<close>

definition conforms :: "column list \<Rightarrow> sql_row \<Rightarrow> bool" where
  "conforms sc r \<longleftrightarrow>
     map fst r = map col_name sc \<and>
     list_all (\<lambda>c. fits (col_type c) (cell r (col_name c)) \<and>
                   (is_required c \<longrightarrow> cell r (col_name c) \<noteq> SqlNull)) sc"

definition unique_ok :: "column list \<Rightarrow> sql_row list \<Rightarrow> bool" where
  "unique_ok sc rows \<longleftrightarrow>
     list_all (\<lambda>c. is_unique c \<longrightarrow>
       distinct (filter (\<lambda>v. v \<noteq> SqlNull) (map (\<lambda>r. cell r (col_name c)) rows))) sc"

definition table_ok :: "column list \<Rightarrow> sql_row list \<Rightarrow> bool" where
  "table_ok sc rows \<longleftrightarrow> list_all (conforms sc) rows \<and> unique_ok sc rows"

lemma table_ok_Nil [simp]: "table_ok sc []"
  by (simp add: table_ok_def unique_ok_def list_all_iff)

lemma row_matches_one [simp]:
  "row_matches [c] [v] r \<longleftrightarrow> v \<noteq> SqlNull \<and> cell r c = v"
  by (simp add: row_matches_def)

lemma row_matches_none [simp]: "row_matches [] vs r"
  by (simp add: row_matches_def)

lemma map_of_map_names:
  assumes "distinct (map col_name sc)" and "c \<in> set sc"
  shows "map_of (map (\<lambda>c. (col_name c, g c)) sc) (col_name c) = Some (g c)"
  using assms by (induction sc) (auto simp: rev_image_eqI)

lemma cell_new_row:
  assumes "distinct (map col_name sc)" and "c \<in> set sc"
  shows "cell (new_row sc cs vs k) (col_name c) =
    (case map_of (zip cs vs) (col_name c) of
       Some v \<Rightarrow> v | None \<Rightarrow> if is_auto c then SqlInt k else SqlNull)"
  unfolding cell_def new_row_def by (subst map_of_map_names [OF assms]) simp

lemma new_row_conforms:
  assumes d: "distinct (map col_name sc)" and p: "params_fit sc cs vs"
    and r: "row_ok sc old (new_row sc cs vs k)"
    and ai: "\<forall>c \<in> set sc. is_auto c \<longrightarrow> col_type c = INTEGER"
  shows "conforms sc (new_row sc cs vs k)"
proof -
  have "fits (col_type c) (cell (new_row sc cs vs k) (col_name c)) \<and>
      (is_required c \<longrightarrow> cell (new_row sc cs vs k) (col_name c) \<noteq> SqlNull)" if c: "c \<in> set sc" for c
  proof
    from p c have "case map_of (zip cs vs) (col_name c) of
        None \<Rightarrow> True | Some v \<Rightarrow> fits (col_type c) v \<and> \<not> is_auto c"
      by (auto simp: params_fit_def list_all_iff)
    then show "fits (col_type c) (cell (new_row sc cs vs k) (col_name c))"
      using ai c by (cases "col_type c") (auto simp: cell_new_row [OF d c] split: option.splits)
    show "is_required c \<longrightarrow> cell (new_row sc cs vs k) (col_name c) \<noteq> SqlNull"
      using r c by (auto simp: row_ok_def list_all_iff)
  qed
  then show ?thesis by (simp add: conforms_def list_all_iff new_row_def)
qed

lemma unique_ok_append:
  "unique_ok sc rows \<Longrightarrow> row_ok sc rows r \<Longrightarrow> unique_ok sc (rows @ [r])"
  unfolding unique_ok_def list_all_iff
proof (intro ballI impI)
  fix c
  assume u: "\<forall>c\<in>set sc. is_unique c \<longrightarrow>
      distinct (filter (\<lambda>v. v \<noteq> SqlNull) (map (\<lambda>r. cell r (col_name c)) rows))"
    and r: "row_ok sc rows r" and c: "c \<in> set sc" "is_unique c"
  then have "cell r (col_name c) = SqlNull \<or>
      cell r (col_name c) \<notin> set (map (\<lambda>r. cell r (col_name c)) rows)"
    unfolding row_ok_def list_all_iff by (metis (no_types, lifting) imageE list.set_map)
  with u c show "distinct (filter (\<lambda>v. v \<noteq> SqlNull) (map (\<lambda>r. cell r (col_name c)) (rows @ [r])))"
    by (auto simp del: set_map)
qed

lemma table_ok_insert:
  assumes "distinct (map col_name sc)" and "params_fit sc cs vs"
    and "row_ok sc rows (new_row sc cs vs k)"
    and "\<forall>c \<in> set sc. is_auto c \<longrightarrow> col_type c = INTEGER" and "table_ok sc rows"
  shows "table_ok sc (rows @ [new_row sc cs vs k])"
  using assms(5) new_row_conforms [OF assms(1,2,3,4)] unique_ok_append [OF _ assms(3)]
  by (auto simp: table_ok_def)

lemma set_cells_names [simp]: "map fst (set_cells cs vs r) = map fst r"
  by (auto simp: set_cells_def)

lemma map_of_set_cells:
  "map_of (set_cells cs vs r) n =
     map_option (\<lambda>v. case map_of (zip cs vs) n of Some w \<Rightarrow> w | None \<Rightarrow> v) (map_of r n)"
  unfolding set_cells_def by (induction r) (auto split: option.splits)

lemma cell_set_cells:
  "cell (set_cells cs vs r) n =
     (if n \<in> fst ` set r then (case map_of (zip cs vs) n of Some w \<Rightarrow> w | None \<Rightarrow> cell r n) else SqlNull)"
proof (cases "map_of r n")
  case None
  then have "n \<notin> fst ` set r" by (metis map_of_eq_None_iff)
  moreover have "cell (set_cells cs vs r) n = SqlNull"
    by (simp only: cell_def map_of_set_cells None option.simps)
  ultimately show ?thesis by argo
next
  case (Some v)
  then have "n \<in> fst ` set r" by (metis map_of_eq_None_iff option.distinct(1))
  moreover have "cell r n = v" by (simp add: cell_def Some)
  ultimately show ?thesis by (simp add: cell_def [of "set_cells cs vs r"] map_of_set_cells Some split: option.split)
qed

lemma conforms_names: "conforms sc r \<Longrightarrow> c \<in> set sc \<Longrightarrow> col_name c \<in> fst ` set r"
  by (metis conforms_def image_eqI list.set_map)

lemma set_cells_conforms:
  assumes "params_fit sc cs vs" and "conforms sc r"
    and "\<forall>c \<in> set sc. is_required c \<longrightarrow> col_name c \<notin> set cs"
  shows "conforms sc (set_cells cs vs r)"
proof -
  have "fits (col_type c) (cell (set_cells cs vs r) (col_name c)) \<and>
      (is_required c \<longrightarrow> cell (set_cells cs vs r) (col_name c) \<noteq> SqlNull)" if c: "c \<in> set sc" for c
  proof -
    have "case map_of (zip cs vs) (col_name c) of
        None \<Rightarrow> True | Some v \<Rightarrow> fits (col_type c) v \<and> \<not> is_auto c"
      using assms(1) c by (auto simp: params_fit_def list_all_iff)
    moreover have "map_of (zip cs vs) (col_name c) = Some v \<Longrightarrow> col_name c \<in> set cs" for v
      by (auto dest!: map_of_SomeD in_set_zipE)
    ultimately show ?thesis
      using assms c conforms_names [OF assms(2) c]
      by (auto simp: cell_set_cells conforms_def list_all_iff split: option.splits)
  qed
  then show ?thesis using assms(2) by (simp add: conforms_def list_all_iff)
qed

lemma table_ok_update:
  assumes fit: "params_fit sc cs (take (length cs) vs)" and ok: "table_ok sc rows"
    and req: "\<forall>c \<in> set sc. is_required c \<or> is_unique c \<longrightarrow> col_name c \<notin> set cs"
  shows "table_ok sc (update_rows cs ws vs rows)"
proof -
  let ?u = "\<lambda>r. if row_matches ws (drop (length cs) vs) r
              then set_cells cs (take (length cs) vs) r else r"
  have conf: "conforms sc (?u r)" if "r \<in> set rows" for r
    using that ok req set_cells_conforms [OF fit, of r] by (auto simp: table_ok_def list_all_iff)
  have same: "cell (?u r) (col_name c) = cell r (col_name c)"
    if "r \<in> set rows" "c \<in> set sc" "is_unique c" for r c
  proof -
    have "col_name c \<notin> set cs" using that req by blast
    then have "map_of (zip cs (take (length cs) vs)) (col_name c) = None"
      by (auto simp: map_of_eq_None_iff dest: set_zip_leftD)
    moreover have "col_name c \<in> fst ` set r"
      using that ok conforms_names by (auto simp: table_ok_def list_all_iff)
    ultimately show ?thesis by (simp add: cell_set_cells)
  qed
  have eq: "map (\<lambda>r. cell r (col_name c)) (map ?u rows) = map (\<lambda>r. cell r (col_name c)) rows"
    if "c \<in> set sc" "is_unique c" for c
    using same that by (simp del: if_split)
  have "unique_ok sc (map ?u rows)"
    unfolding unique_ok_def list_all_iff
  proof (intro ballI impI)
    fix c
    assume c: "c \<in> set sc" "is_unique c"
    with ok have "distinct (filter (\<lambda>v. v \<noteq> SqlNull) (map (\<lambda>r. cell r (col_name c)) rows))"
      by (simp add: table_ok_def unique_ok_def list_all_iff)
    then show "distinct (filter (\<lambda>v. v \<noteq> SqlNull) (map (\<lambda>r. cell r (col_name c)) (map ?u rows)))"
      by (simp only: eq [OF c])
  qed
  moreover have "list_all (conforms sc) (map ?u rows)"
    unfolding list_all_iff set_map using conf by blast
  ultimately show ?thesis by (simp add: table_ok_def update_rows_def)
qed

end
