(* ===== verification/Messages.thy ===== *)
theory Messages
  imports Prelude
begin

text \<open>
  \<open>include/message.h\<close> (the packet ids) and \<open>proto/messages.proto\<close> (the messages), with
  \<open>Server::packToPacket\<close> of \<open>src/Server/Server.h\<close>. The classes that protoc generates and the protobuf
  library are not part of the repository: packing into an \<open>Any\<close>, unpacking from it and the wire format
  of a packet are the fields of the parameters \<open>any_codec\<close> and \<open>wire_codec\<close>, with their documented laws in
  the locales of the same names followed by \<open>_laws\<close>.
\<close>

subsection \<open>Packet ids\<close>

datatype PacketType =
    ServerStatusRequest | ServerStatusResponse
  | ServerStatusUpdateRequest | ServerStatusUpdateResponse
  | LoginPreRequest | LoginPreResponse | LoginRequest | LoginResponse
  | ContactListRequest | ClientAckResponse | ContactRequest | ServerAckResponse
  | ContactMessageRequest | ContactMessageResponse
  | SendMessageRequest | SendMessageResponse
  | SetupChannelRequest | ChannelHeartRequest | ContactMessageListRequest
  | FileUploadRequest | FileUploadResponse | FileDownloadRequest | FileDownloadResponse
  | RegisterRequest | RegisterResponse | DeleteMessageRequest | DeleteMessageResponse

fun packet_type_id :: "PacketType \<Rightarrow> int32" where
  "packet_type_id ServerStatusRequest = 0"
| "packet_type_id ServerStatusResponse = 1"
| "packet_type_id ServerStatusUpdateRequest = 6"
| "packet_type_id ServerStatusUpdateResponse = 7"
| "packet_type_id LoginPreRequest = 2"
| "packet_type_id LoginPreResponse = 3"
| "packet_type_id LoginRequest = 4"
| "packet_type_id LoginResponse = 5"
| "packet_type_id ContactListRequest = 8"
| "packet_type_id ClientAckResponse = 9"
| "packet_type_id ContactRequest = 10"
| "packet_type_id ServerAckResponse = 11"
| "packet_type_id ContactMessageRequest = 12"
| "packet_type_id ContactMessageResponse = 13"
| "packet_type_id SendMessageRequest = 14"
| "packet_type_id SendMessageResponse = 15"
| "packet_type_id SetupChannelRequest = 16"
| "packet_type_id ChannelHeartRequest = 17"
| "packet_type_id ContactMessageListRequest = 18"
| "packet_type_id FileUploadRequest = 19"
| "packet_type_id FileUploadResponse = 24"
| "packet_type_id FileDownloadRequest = 20"
| "packet_type_id FileDownloadResponse = 21"
| "packet_type_id RegisterRequest = 22"
| "packet_type_id RegisterResponse = 23"
| "packet_type_id DeleteMessageRequest = 25"
| "packet_type_id DeleteMessageResponse = 26"

definition all_packet_types :: "PacketType list" where
  "all_packet_types =
    [ServerStatusRequest, ServerStatusResponse, ServerStatusUpdateRequest,
     ServerStatusUpdateResponse, LoginPreRequest, LoginPreResponse, LoginRequest, LoginResponse,
     ContactListRequest, ClientAckResponse, ContactRequest, ServerAckResponse,
     ContactMessageRequest, ContactMessageResponse, SendMessageRequest, SendMessageResponse,
     SetupChannelRequest, ChannelHeartRequest, ContactMessageListRequest, FileUploadRequest,
     FileUploadResponse, FileDownloadRequest, FileDownloadResponse, RegisterRequest,
     RegisterResponse, DeleteMessageRequest, DeleteMessageResponse]"

lemma all_packet_types_complete [simp]: "t \<in> set all_packet_types"
  by (cases t) (simp_all add: all_packet_types_def)

text \<open>
  \<open>static_cast<PacketType>(pkt_id)\<close>: a value that no enumerator has matches no \<open>case\<close> label, so the
  cast is the enumerator, or none.
\<close>

definition packet_type_of_id :: "int32 \<Rightarrow> PacketType option" where
  "packet_type_of_id i = find (\<lambda>t. packet_type_id t = i) all_packet_types"

lemma packet_type_id_inj: "packet_type_id t = packet_type_id u \<Longrightarrow> t = u"
proof -
  have "distinct (map packet_type_id all_packet_types)"
    by (simp add: all_packet_types_def)
  then have "inj_on packet_type_id (set all_packet_types)"
    by (simp add: distinct_map)
  then show "packet_type_id t = packet_type_id u \<Longrightarrow> t = u"
    by (rule inj_onD) simp_all
qed

lemma packet_type_of_id_iff: "packet_type_of_id i = Some t \<longleftrightarrow> packet_type_id t = i"
proof
  assume "packet_type_of_id i = Some t"
  then show "packet_type_id t = i"
    by (auto simp: packet_type_of_id_def find_Some_iff)
next
  assume t: "packet_type_id t = i"
  then have "packet_type_of_id i \<noteq> None"
    by (auto simp: packet_type_of_id_def find_None_iff)
  then obtain u where u: "packet_type_of_id i = Some u" by blast
  then have "packet_type_id u = i"
    by (auto simp: packet_type_of_id_def find_Some_iff)
  with t u show "packet_type_of_id i = Some t"
    using packet_type_id_inj by metis
qed

subsection \<open>Messages\<close>

text \<open>
  One record per message, its fields in the order of the file. A proto3 enum field is open: it
  holds any \<open>int32\<close>, so the enumerators are names of numbers. \<open>Contact.members\<close> and \<open>Contact.header\<close>
  are never set by the server and are left out.
\<close>

abbreviation (input) TEXT :: int32 where "TEXT \<equiv> 0"
abbreviation (input) IMAGE :: int32 where "IMAGE \<equiv> 1"
abbreviation (input) FILE :: int32 where "FILE \<equiv> 2"
abbreviation (input) FRIEND :: int32 where "FRIEND \<equiv> 0"

record File =
  file_name :: string
  file_content :: string

record RawMessage =
  raw_from :: int32
  raw_to :: int32
  raw_type :: int32
  raw_content :: string

record Message =
  msg_message :: RawMessage
  msg_id :: int32
  msg_timestamp :: int32
  msg_internalId :: int32

record Contact =
  contact_id :: int32
  contact_name :: string
  contact_online :: bool
  contact_type :: int32

record login_pre_request =
  lpq_username :: string

record login_request =
  lq_username :: string
  lq_hashPassword :: string

record register_request =
  rq_username :: string
  rq_rawPassword :: string

record setup_channel_request =
  scq_token :: string

record send_message_request =
  smq_token :: string
  smq_message :: RawMessage

record contact_message_request =
  cmq_token :: string
  cmq_id :: int32
  cmq_internalId :: int32

record file_upload_request =
  fuq_token :: string
  fuq_id :: string
  fuq_file :: File
  fuq_hash :: string

record file_download_request =
  fdq_token :: string
  fdq_id :: string

text \<open>The proto3 defaults: what a message object holds before it is unpacked.\<close>

definition default_File :: File where
  "default_File = \<lparr>file_name = '''', file_content = ''''\<rparr>"

definition default_RawMessage :: RawMessage where
  "default_RawMessage = \<lparr>raw_from = 0, raw_to = 0, raw_type = TEXT, raw_content = ''''\<rparr>"

definition default_Message :: Message where
  "default_Message =
     \<lparr>msg_message = default_RawMessage, msg_id = 0, msg_timestamp = 0, msg_internalId = 0\<rparr>"

text \<open>The messages a packet can carry, for the ones the server reads or writes.\<close>

datatype body =
    RegisterRequest_body register_request
  | LoginPreRequest_body login_pre_request
  | LoginRequest_body login_request
  | SetupChannelRequest_body setup_channel_request
  | SendMessageRequest_body send_message_request
  | FileUploadRequest_body file_upload_request
  | FileDownloadRequest_body file_download_request
  | ContactMessageRequest_body contact_message_request
  | ClientAckResponse_body
  | ServerStatusResponse_body bool bool        \<comment> \<open>online, registrable\<close>
  | ServerStatusUpdateResponse_body bool bool  \<comment> \<open>online, registrable\<close>
  | RegisterResponse_body bool                 \<comment> \<open>success\<close>
  | LoginPreResponse_body string               \<comment> \<open>challenge\<close>
  | LoginResponse_body bool int32 string       \<comment> \<open>logined, id, token\<close>
  | ServerAckResponse_body
  | ContactListRequest_body "Contact list" "int32 list"  \<comment> \<open>contacts, internalIds\<close>
  | ContactMessageListRequest_body "Message list"        \<comment> \<open>messages\<close>
  | SendMessageResponse_body Message
  | FileUploadResponse_body bool               \<comment> \<open>success\<close>
  | FileDownloadResponse_body File string      \<comment> \<open>file, hash\<close>
  | ContactMessageResponse_body Message

subsection \<open>Packing\<close>

text \<open>
  \<open>'a\<close> is the type of a \<open>google.protobuf.Any\<close>. \<open>unpack_X a\<close> is what a default message object of type
  \<open>X\<close> holds after \<open>UnpackTo(&request)\<close>: the server ignores the boolean that call returns.
\<close>

record 'a any_codec =
  PackFrom :: "body \<Rightarrow> 'a"
  unpack_Register :: "'a \<Rightarrow> register_request"
  unpack_LoginPre :: "'a \<Rightarrow> login_pre_request"
  unpack_Login :: "'a \<Rightarrow> login_request"
  unpack_SetupChannel :: "'a \<Rightarrow> setup_channel_request"
  unpack_SendMessage :: "'a \<Rightarrow> send_message_request"
  unpack_FileUpload :: "'a \<Rightarrow> file_upload_request"
  unpack_FileDownload :: "'a \<Rightarrow> file_download_request"
  unpack_ContactMessage :: "'a \<Rightarrow> contact_message_request"

record 'a Packet =
  packetId :: int32
  packet_content :: "'a option"

definition default_Packet :: "'a Packet" where
  "default_Packet = \<lparr>packetId = 0, packet_content = None\<rparr>"

definition packToPacket :: "'a any_codec \<Rightarrow> PacketType \<Rightarrow> body \<Rightarrow> 'a Packet \<Rightarrow> 'a Packet" where
  "packToPacket cd ptype content packet =
     packet\<lparr>packetId := packet_type_id ptype, packet_content := Some (PackFrom cd content)\<rparr>"

lemma packToPacket_sel [simp]:
  "packetId (packToPacket cd t m p) = packet_type_id t"
  "packet_content (packToPacket cd t m p) = Some (PackFrom cd m)"
  by (simp_all add: packToPacket_def)

text \<open>
  \<open>pkt.content()\<close> of a packet without content is the default \<open>Any\<close>, from which nothing unpacks: the
  request keeps its defaults, as it does for an \<open>Any\<close> of another type. The type URL and the bytes
  of an \<open>Any\<close> determine the message it was packed from.
\<close>

locale any_codec_laws =
  fixes cd :: "'a any_codec"
  assumes register: "unpack_Register cd (PackFrom cd (RegisterRequest_body r1)) = r1"
    and login_pre: "unpack_LoginPre cd (PackFrom cd (LoginPreRequest_body r2)) = r2"
    and login: "unpack_Login cd (PackFrom cd (LoginRequest_body r3)) = r3"
    and setup_channel: "unpack_SetupChannel cd (PackFrom cd (SetupChannelRequest_body r4)) = r4"
    and send_message: "unpack_SendMessage cd (PackFrom cd (SendMessageRequest_body r5)) = r5"
    and file_upload: "unpack_FileUpload cd (PackFrom cd (FileUploadRequest_body r6)) = r6"
    and file_download: "unpack_FileDownload cd (PackFrom cd (FileDownloadRequest_body r7)) = r7"
    and contact_message:
      "unpack_ContactMessage cd (PackFrom cd (ContactMessageRequest_body r8)) = r8"
    and pack_inj: "PackFrom cd b = PackFrom cd b' \<Longrightarrow> b = b'"
begin

lemmas unpack_pack =
  register login_pre login setup_channel send_message file_upload file_download contact_message

end

text \<open>
  A concrete instance of the laws: an \<open>Any\<close> is a string, the name of the message and its fields,
  each field escaped and closed by a mark; an integer is its 32 bits.
\<close>

definition enc_int :: "int32 \<Rightarrow> string" where
  "enc_int w = map (\<lambda>i. if bit w i then CHR ''1'' else CHR ''0'') [0..<32]"

definition dec_int :: "string \<Rightarrow> int32" where
  "dec_int s = horner_sum of_bool 2 (map (\<lambda>c. c = CHR ''1'') s)"

definition enc_field :: "string \<Rightarrow> string" where
  "enc_field s = concat (map (\<lambda>c. [CHR ''c'', c]) s) @ ''e''"

definition enc_fields :: "string list \<Rightarrow> string" where
  "enc_fields fs = concat (map enc_field fs)"

fun dec_fields :: "string \<Rightarrow> string list" where
  "dec_fields [] = []"
| "dec_fields (t # s) =
     (if t = CHR ''e'' then [] # dec_fields s
      else case s of
             [] \<Rightarrow> []
           | c # s' \<Rightarrow> (case dec_fields s' of [] \<Rightarrow> [] | f # fs \<Rightarrow> (c # f) # fs))"

lemma enc_int_length [simp]: "length (enc_int w) = 32"
  by (simp add: enc_int_def)

lemma dec_enc_int [simp]: "dec_int (enc_int w) = w"
proof -
  have b: "(\<lambda>c. c = CHR ''1'') \<circ> (\<lambda>i. if bit w i then CHR ''1'' else CHR ''0'') = bit w"
    by (rule ext) simp
  have "horner_sum of_bool 2 (map (bit w) [0..<32]) = take_bit 32 w"
    by (rule horner_sum_bit_eq_take_bit)
  also have "take_bit 32 w = w"
    using take_bit_length_eq [of w] by simp
  finally show ?thesis by (simp add: dec_int_def enc_int_def b)
qed

lemma dec_enc_fields [simp]: "dec_fields (enc_fields fs) = fs"
proof -
  have one: "dec_fields (concat (map (\<lambda>c. [CHR ''c'', c]) s) @ CHR ''e'' # r) = s # dec_fields r" for s r
    by (induction s) simp_all
  show ?thesis by (induction fs) (simp_all add: enc_fields_def enc_field_def one)
qed

lemma enc_fields_inj [simp]: "enc_fields fs = enc_fields gs \<longleftrightarrow> fs = gs"
  by (metis dec_enc_fields)

lemma enc_int_inj [simp]: "enc_int v = enc_int w \<longleftrightarrow> v = w"
  by (metis dec_enc_int)

definition enc_bool :: "bool \<Rightarrow> string" where
  "enc_bool b = (if b then ''1'' else ''0'')"

lemma enc_bool_inj [simp]: "enc_bool b = enc_bool c \<longleftrightarrow> b = c"
  by (simp add: enc_bool_def)

definition enc_contact :: "Contact \<Rightarrow> string" where
  "enc_contact c =
     enc_fields [enc_int (contact_id c), contact_name c, enc_bool (contact_online c),
       enc_int (contact_type c)]"

definition enc_message :: "Message \<Rightarrow> string" where
  "enc_message m =
     enc_fields [enc_int (raw_from (msg_message m)), enc_int (raw_to (msg_message m)),
       enc_int (raw_type (msg_message m)), raw_content (msg_message m), enc_int (msg_id m),
       enc_int (msg_timestamp m), enc_int (msg_internalId m)]"

lemma enc_contact_inj [simp]: "enc_contact c = enc_contact d \<longleftrightarrow> c = d"
  by (cases c; cases d) (auto simp: enc_contact_def)

lemma enc_message_inj [simp]: "enc_message m = enc_message n \<longleftrightarrow> m = n"
  by (cases m; cases n; cases "msg_message m"; cases "msg_message n") (auto simp: enc_message_def)

lemma map_enc_inj [simp]:
  "map enc_contact cs = map enc_contact ds \<longleftrightarrow> cs = ds"
  "map enc_message ms = map enc_message ns \<longleftrightarrow> ms = ns"
  "map enc_int is = map enc_int js \<longleftrightarrow> is = js"
  by (simp_all add: inj_map_eq_map inj_def)

definition text_pack :: "body \<Rightarrow> string" where
  "text_pack b = enc_fields (case b of
       RegisterRequest_body r \<Rightarrow> [''Register'', rq_username r, rq_rawPassword r]
     | LoginPreRequest_body r \<Rightarrow> [''LoginPre'', lpq_username r]
     | LoginRequest_body r \<Rightarrow> [''Login'', lq_username r, lq_hashPassword r]
     | SetupChannelRequest_body r \<Rightarrow> [''SetupChannel'', scq_token r]
     | SendMessageRequest_body r \<Rightarrow>
         [''SendMessage'', smq_token r, enc_int (raw_from (smq_message r)),
          enc_int (raw_to (smq_message r)), enc_int (raw_type (smq_message r)),
          raw_content (smq_message r)]
     | FileUploadRequest_body r \<Rightarrow>
         [''FileUpload'', fuq_token r, fuq_id r, file_name (fuq_file r), file_content (fuq_file r),
          fuq_hash r]
     | FileDownloadRequest_body r \<Rightarrow> [''FileDownload'', fdq_token r, fdq_id r]
     | ContactMessageRequest_body r \<Rightarrow>
         [''ContactMessage'', cmq_token r, enc_int (cmq_id r), enc_int (cmq_internalId r)]
     | ClientAckResponse_body \<Rightarrow> [''ClientAck'']
     | ServerStatusResponse_body b c \<Rightarrow> [''Status'', enc_bool b, enc_bool c]
     | ServerStatusUpdateResponse_body b c \<Rightarrow> [''StatusUpdate'', enc_bool b, enc_bool c]
     | RegisterResponse_body b \<Rightarrow> [''Registered'', enc_bool b]
     | LoginPreResponse_body c \<Rightarrow> [''Challenge'', c]
     | LoginResponse_body b i t \<Rightarrow> [''LoggedIn'', enc_bool b, enc_int i, t]
     | ServerAckResponse_body \<Rightarrow> [''ServerAck'']
     | ContactListRequest_body cs is \<Rightarrow>
         [''Contacts'', enc_fields (map enc_contact cs), enc_fields (map enc_int is)]
     | ContactMessageListRequest_body ms \<Rightarrow> [''Messages'', enc_fields (map enc_message ms)]
     | SendMessageResponse_body m \<Rightarrow> [''Sent'', enc_message m]
     | FileUploadResponse_body b \<Rightarrow> [''Uploaded'', enc_bool b]
     | FileDownloadResponse_body f h \<Rightarrow> [''Downloaded'', file_name f, file_content f, h]
     | ContactMessageResponse_body m \<Rightarrow> [''Fetched'', enc_message m])"

text \<open>The fields after the name, padded with empty ones; none when the name is another one.\<close>

definition text_fields :: "string \<Rightarrow> string \<Rightarrow> nat \<Rightarrow> string" where
  "text_fields name a i =
     (case dec_fields a of
        n # fs \<Rightarrow> if n = name \<and> i < length fs then fs ! i else []
      | [] \<Rightarrow> [])"

definition text_codec :: "string any_codec" where
  "text_codec = \<lparr>
     PackFrom = text_pack,
     unpack_Register = (\<lambda>a. let f = text_fields ''Register'' a in
       \<lparr>rq_username = f 0, rq_rawPassword = f 1\<rparr>),
     unpack_LoginPre = (\<lambda>a. \<lparr>lpq_username = text_fields ''LoginPre'' a 0\<rparr>),
     unpack_Login = (\<lambda>a. let f = text_fields ''Login'' a in
       \<lparr>lq_username = f 0, lq_hashPassword = f 1\<rparr>),
     unpack_SetupChannel = (\<lambda>a. \<lparr>scq_token = text_fields ''SetupChannel'' a 0\<rparr>),
     unpack_SendMessage = (\<lambda>a. let f = text_fields ''SendMessage'' a in
       \<lparr>smq_token = f 0,
        smq_message = \<lparr>raw_from = dec_int (f 1), raw_to = dec_int (f 2), raw_type = dec_int (f 3),
                       raw_content = f 4\<rparr>\<rparr>),
     unpack_FileUpload = (\<lambda>a. let f = text_fields ''FileUpload'' a in
       \<lparr>fuq_token = f 0, fuq_id = f 1, fuq_file = \<lparr>file_name = f 2, file_content = f 3\<rparr>,
        fuq_hash = f 4\<rparr>),
     unpack_FileDownload = (\<lambda>a. let f = text_fields ''FileDownload'' a in
       \<lparr>fdq_token = f 0, fdq_id = f 1\<rparr>),
     unpack_ContactMessage = (\<lambda>a. let f = text_fields ''ContactMessage'' a in
       \<lparr>cmq_token = f 0, cmq_id = dec_int (f 1), cmq_internalId = dec_int (f 2)\<rparr>)\<rparr>"

interpretation text_any: any_codec_laws text_codec
proof unfold_locales
  fix b b'
  assume "PackFrom text_codec b = PackFrom text_codec b'"
  then have "text_pack b = text_pack b'" by (simp add: text_codec_def)
  then show "b = b'"
    by (cases b; cases b')
      (simp_all add: text_pack_def register_request.equality login_pre_request.equality
        login_request.equality setup_channel_request.equality send_message_request.equality
        RawMessage.equality file_upload_request.equality File.equality
        file_download_request.equality contact_message_request.equality)
qed (simp_all add: text_codec_def text_pack_def text_fields_def)

subsection \<open>The wire format of a packet\<close>

text \<open>
  \<open>ByteSizeLong\<close> is the length of the serialisation, \<open>SerializeToArray\<close> writes it, \<open>ParseFromArray\<close>
  reads it back; zero bytes are the packet with every field at its default.
\<close>

record 'a wire_codec =
  SerializeToArray :: "'a Packet \<Rightarrow> string"
  ParseFromArray :: "string \<Rightarrow> 'a Packet option"

locale wire_codec_laws =
  fixes wc :: "'a wire_codec"
  assumes parse_serialize: "ParseFromArray wc (SerializeToArray wc p) = Some p"
    and parse_nil: "ParseFromArray wc [] = Some default_Packet"

text \<open>
  A concrete instance over string contents: 32 bits of the id, least significant first, then
  nothing, or a mark and the content.
\<close>

definition plain_serialize :: "string Packet \<Rightarrow> string" where
  "plain_serialize p =
     enc_int (packetId p) @
     (case packet_content p of None \<Rightarrow> [] | Some c \<Rightarrow> CHR ''+'' # c)"

definition plain_parse :: "string \<Rightarrow> string Packet option" where
  "plain_parse s =
     (if s = [] then Some default_Packet
      else if length s < 32 then None
      else Some \<lparr>packetId = dec_int (take 32 s),
                 packet_content = (case drop 32 s of [] \<Rightarrow> None | _ # c \<Rightarrow> Some c)\<rparr>)"

definition plain_wire :: "string wire_codec" where
  "plain_wire = \<lparr>SerializeToArray = plain_serialize, ParseFromArray = plain_parse\<rparr>"

lemma plain_parse_serialize: "plain_parse (plain_serialize p) = Some p"
proof -
  have "enc_int (packetId p) \<noteq> []" using enc_int_length [of "packetId p"] by fastforce
  then show ?thesis
    unfolding plain_parse_def plain_serialize_def by (cases p) (auto split: option.splits)
qed

interpretation plain_w: wire_codec_laws plain_wire
  by unfold_locales (simp_all add: plain_wire_def plain_parse_serialize, simp add: plain_parse_def)

subsection \<open>Properties\<close>

text \<open>
  Every packet id of the protocol names one packet type and back: the cast of an id yields an
  enumerator exactly when the id is that enumerator's number, and no two enumerators share one.
\<close>

theorem packet_ids_correct:
  "(packet_type_of_id i = Some t \<longleftrightarrow> packet_type_id t = i) \<and>
   packet_type_of_id (packet_type_id t) = Some t \<and> inj packet_type_id"
  by (auto simp: packet_type_of_id_iff inj_def dest: packet_type_id_inj)

end
