(* ===== verification/File_Storage.thy ===== *)
theory File_Storage
  imports Messages
begin

text \<open>
  \<open>include/file_storage.h\<close> and \<open>src/file/file_storage.cpp\<close>: a file's metadata, and the file on disk
  under \<open>files/<id>\<close>. The disk is a map from paths to nodes; what the operating system answers to each
  call is the record \<open>disk_io\<close>.
\<close>

subsection \<open>State\<close>

record FileStorage =
  fs_id :: string
  fs_name :: string
  fs_hash :: string

definition empty_FileStorage :: FileStorage where
  "empty_FileStorage = \<lparr>fs_id = '''', fs_name = '''', fs_hash = ''''\<rparr>"

definition setId :: "FileStorage \<Rightarrow> string \<Rightarrow> FileStorage" where
  "setId f i = f\<lparr>fs_id := i\<rparr>"

definition setName :: "FileStorage \<Rightarrow> string \<Rightarrow> FileStorage" where
  "setName f n = f\<lparr>fs_name := n\<rparr>"

definition setHash :: "FileStorage \<Rightarrow> string \<Rightarrow> FileStorage" where
  "setHash f h = f\<lparr>fs_hash := h\<rparr>"

datatype node = RegularFile string | Directory

type_synonym disk = "string \<rightharpoonup> node"

text \<open>
  \<open>io_exists_dir\<close>, \<open>io_exists_file\<close>: the call of \<open>exists\<close> does not throw. \<open>io_mkdir\<close>, \<open>io_open_write\<close>,
  \<open>io_open_read\<close>: the call succeeds. \<open>io_good\<close>: the stream is good after
  \<open>write\<close>. \<open>io_flushed\<close>: how many bytes are on disk once the stream is destroyed. The last two are
  independent: a failure while the destructor flushes is not seen by \<open>good()\<close>.
\<close>

record disk_io =
  io_exists_dir :: bool
  io_exists_file :: bool
  io_mkdir :: bool
  io_open_write :: bool
  io_open_read :: bool
  io_good :: bool
  io_flushed :: nat

definition healthy_io :: "disk_io \<Rightarrow> nat \<Rightarrow> bool" where
  "healthy_io io n \<longleftrightarrow>
     io_exists_dir io \<and> io_exists_file io \<and> io_mkdir io \<and> io_open_write io \<and> io_open_read io \<and> io_good io \<and> n \<le> io_flushed io"

subsection \<open>Operations\<close>

definition path_prefix :: string where
  "path_prefix = ''files''"

text \<open>\<open>p / q\<close> of \<open>std::filesystem\<close>: an absolute \<open>q\<close> replaces \<open>p\<close>.\<close>

definition path_append :: "string \<Rightarrow> string \<Rightarrow> string" where
  "path_append p q =
     (if take 1 q = ''/'' then q
      else if p = '''' \<or> last p = CHR ''/'' then p @ q
      else p @ ''/'' @ q)"

definition storage_path :: "FileStorage \<Rightarrow> string" where
  "storage_path f = path_append path_prefix (fs_id f)"

definition checkDiskExistence :: "disk_io \<Rightarrow> FileStorage \<Rightarrow> disk \<Rightarrow> (bool \<times> disk) run" where
  "checkDiskExistence io f dsk =
     rbind (if \<not> io_exists_dir io then Inl (UncaughtException ''exists'')
            else if dsk path_prefix = None
            then if io_mkdir io then Inr (dsk(path_prefix \<mapsto> Directory))
                 else Inl (UncaughtException ''create_directory'')
            else Inr dsk)
       (\<lambda>dsk'. if \<not> io_exists_file io then Inl (UncaughtException ''exists'')
          else Inr (dsk' (storage_path f) \<noteq> None, dsk'))"

definition saveToDisk :: "disk_io \<Rightarrow> FileStorage \<Rightarrow> File \<Rightarrow> disk \<Rightarrow> bool \<times> disk" where
  "saveToDisk io f fl dsk =
     (let p = storage_path f in
      if \<not> io_open_write io \<or> dsk p = Some Directory \<or> dsk path_prefix \<noteq> Some Directory
      then (False, dsk)
      else (io_good io, dsk(p \<mapsto> RegularFile (take (io_flushed io) (file_content fl)))))"

definition loadIntoProto :: "disk_io \<Rightarrow> FileStorage \<Rightarrow> File \<Rightarrow> disk \<Rightarrow> bool \<times> File" where
  "loadIntoProto io f fl dsk =
     (case dsk (storage_path f) of
        Some (RegularFile content) \<Rightarrow>
          if io_open_read io
          then (True, fl\<lparr>file_content := content, file_name := fs_name f\<rparr>)
          else (False, fl)
      | _ \<Rightarrow> (False, fl))"

subsection \<open>Lemmas\<close>

lemma FileStorage_set_sel [simp]:
  "fs_id (setId f i) = i" "fs_name (setId f i) = fs_name f" "fs_hash (setId f i) = fs_hash f"
  "fs_id (setName f n) = fs_id f" "fs_name (setName f n) = n" "fs_hash (setName f n) = fs_hash f"
  "fs_id (setHash f h) = fs_id f" "fs_name (setHash f h) = fs_name f" "fs_hash (setHash f h) = h"
  by (simp_all add: setId_def setName_def setHash_def)

lemma storage_path_set [simp]:
  "storage_path (setName f n) = storage_path f" "storage_path (setHash f h) = storage_path f"
  by (simp_all add: storage_path_def)

lemma storage_path_not_prefix: "storage_path f \<noteq> path_prefix"
proof
  assume e: "storage_path f = path_prefix"
  have "take 1 (fs_id f) = ''/'' \<Longrightarrow> fs_id f \<noteq> ''files''" by (cases "fs_id f") auto
  with e show False
    by (auto simp: storage_path_def path_append_def path_prefix_def split: if_splits)
qed

lemma checkDiskExistence_Inr:
  assumes "checkDiskExistence io f dsk = Inr (b, dsk')"
  shows "b \<longleftrightarrow> dsk (storage_path f) \<noteq> None"
    and "dsk' = (if dsk path_prefix = None then dsk(path_prefix \<mapsto> Directory) else dsk)"
  using assms storage_path_not_prefix [of f]
  by (auto simp: checkDiskExistence_def split: if_splits)

lemma saveToDisk_frame:
  "saveToDisk io f fl dsk = (b, dsk') \<Longrightarrow> p \<noteq> storage_path f \<Longrightarrow> dsk' p = dsk p"
  by (auto simp: saveToDisk_def Let_def split: if_splits)

lemma saveToDisk_True:
  "saveToDisk io f fl dsk = (True, dsk') \<Longrightarrow>
   dsk' (storage_path f) = Some (RegularFile (take (io_flushed io) (file_content fl)))"
  by (auto simp: saveToDisk_def Let_def split: if_splits)

subsection \<open>Properties\<close>

text \<open>
  A file that was saved successfully, with all its bytes flushed, is read back with exactly the
  saved content and the name of the metadata used for reading; and it then exists on disk.
\<close>

theorem save_load_roundtrip:
  assumes "saveToDisk io f fl dsk = (True, dsk')" and "length (file_content fl) \<le> io_flushed io"
    and "fs_id g = fs_id f" and "io_open_read io'"
  shows "loadIntoProto io' g fl0 dsk' =
      (True, fl0\<lparr>file_content := file_content fl, file_name := fs_name g\<rparr>) \<and>
    (\<forall>r. checkDiskExistence io' g dsk' = Inr r \<longrightarrow> fst r)"
proof -
  have p: "storage_path g = storage_path f" using assms(3) by (simp add: storage_path_def)
  have d: "dsk' (storage_path f) = Some (RegularFile (file_content fl))"
    using saveToDisk_True [OF assms(1)] assms(2) by simp
  have "fst r" if "checkDiskExistence io' g dsk' = Inr r" for r
    using checkDiskExistence_Inr(1) [of io' g dsk' "fst r" "snd r"] that p d by simp
  then show ?thesis using p d assms(4) by (simp add: loadIntoProto_def)
qed

definition example_io :: disk_io where
  "example_io = \<lparr>io_exists_dir = True, io_exists_file = True, io_mkdir = True, io_open_write = True, io_open_read = True, io_good = True,
                  io_flushed = 1000000\<rparr>"

theorem save_load_roundtrip_witness:
  "\<exists>dsk'. saveToDisk example_io \<lparr>fs_id = ''u1'', fs_name = ''a'', fs_hash = ''''\<rparr>
       \<lparr>file_name = ''a'', file_content = ''data''\<rparr> [''files'' \<mapsto> Directory] = (True, dsk') \<and>
     loadIntoProto example_io \<lparr>fs_id = ''u1'', fs_name = ''b'', fs_hash = ''''\<rparr> default_File dsk' =
       (True, \<lparr>file_name = ''b'', file_content = ''data''\<rparr>)"
proof -
  let ?f = "\<lparr>fs_id = ''u1'', fs_name = ''a'', fs_hash = ''''\<rparr>"
  let ?g = "\<lparr>fs_id = ''u1'', fs_name = ''b'', fs_hash = ''''\<rparr>"
  let ?fl = "\<lparr>file_name = ''a'', file_content = ''data''\<rparr>"
  obtain dsk' where s: "saveToDisk example_io ?f ?fl [''files'' \<mapsto> Directory] = (True, dsk')"
    by (simp add: saveToDisk_def example_io_def storage_path_def path_append_def path_prefix_def)
  have "loadIntoProto example_io ?g default_File dsk' =
      (True, default_File\<lparr>file_content := file_content ?fl, file_name := fs_name ?g\<rparr>)"
    using save_load_roundtrip [OF s, of ?g example_io default_File]
    by (simp add: example_io_def)
  then show ?thesis using s by (auto simp: default_File_def)
qed

end
