(* ===== verification/Crypto_Utils.thy ===== *)
theory Crypto_Utils
  imports Prelude
begin

unbundle bit_operations_syntax

text \<open>
  \<open>include/utils/crypto.h\<close> and \<open>include/utils/misc.h\<close>: hashing, login challenges, tokens, time stamps.
  libsodium, libuuid and the C library's random number generator are the record \<open>crypto_lib\<close>, a
  parameter; the clock's reading and the generated UUID are arguments.
\<close>

subsection \<open>The libraries\<close>

text \<open>
  \<open>crypto_hash_sha256\<close> gives its return code and the output array; \<open>rand_after_srand s i\<close> is the
  \<open>i\<close>-th result of \<open>rand()\<close> after \<open>srand(s)\<close>, between \<open>0\<close> and \<open>RAND_MAX\<close>.
\<close>

record crypto_lib =
  sodium_init :: int
  crypto_hash_sha256 :: "byte list \<Rightarrow> int \<times> byte list"
  rand_after_srand :: "32 word \<Rightarrow> nat \<Rightarrow> nat"

definition crypto_hash_sha256_BYTES :: nat where
  "crypto_hash_sha256_BYTES = 32"

text \<open>Documented behaviour: the library initialises and the hash fills its whole array.\<close>

locale crypto_lib_laws =
  fixes lib :: crypto_lib
  assumes init_ok: "sodium_init lib \<ge> 0"
    and hash_ok: "fst (crypto_hash_sha256 lib bs) = 0"
    and hash_length: "length (snd (crypto_hash_sha256 lib bs)) = crypto_hash_sha256_BYTES"

subsection \<open>Definitions\<close>

definition InitSodium :: "crypto_lib \<Rightarrow> unit run" where
  "InitSodium lib = (if sodium_init lib < 0 then Inl (FatalLog ''libsodium init failed'') else Inr ())"

definition hex_digits :: string where
  "hex_digits = ''0123456789abcdef''"

text \<open>\<open>sprintf("%02x", b)\<close>: two lower-case hexadecimal digits.\<close>

definition sprintf_02x :: "byte \<Rightarrow> string" where
  "sprintf_02x b = [hex_digits ! unat (drop_bit 4 b), hex_digits ! unat (b AND 15)]"

text \<open>
  The loop writes two digits per byte and a terminator after them. With \<open>len = 0\<close> nothing is
  written, and the string is built from an uninitialised array.
\<close>

definition bytesToHexString :: "byte list \<Rightarrow> nat \<Rightarrow> string run" where
  "bytesToHexString bytes len =
     (if len = 0 then Inl (UndefinedBehaviour ''uninitialised hexString'')
      else Inr (c_str (concat (map sprintf_02x (take len bytes)))))"

definition SHA256 :: "crypto_lib \<Rightarrow> string \<Rightarrow> string run" where
  "SHA256 lib inp =
     rbind (InitSodium lib) (\<lambda>_.
       case crypto_hash_sha256 lib (map of_char inp) of
         (ret, out) \<Rightarrow>
           if ret \<noteq> 0 then Inr ''''
           else bytesToHexString out crypto_hash_sha256_BYTES)"

definition kChallengeSize :: nat where
  "kChallengeSize = 32"

definition charset :: string where
  "charset = ''0123456789'' @ ''abcdefghijklmnopqrstuvwxyz'' @ ''ABCDEFGHIJKLMNOPQRSTUVWXYZ''"

text \<open>\<open>for (int i = 0; i < kChallengeSize; ++i) randomString += charset[rand() % charsetSize];\<close>\<close>

function challenge_loop :: "(nat \<Rightarrow> nat) \<Rightarrow> nat \<Rightarrow> string \<Rightarrow> string" where
  "challenge_loop rand i randomString =
     (if i < kChallengeSize
      then challenge_loop rand (i + 1) (randomString @ [charset ! (rand i mod length charset)])
      else randomString)"
  by pat_completeness auto
termination
  by (relation "measure (\<lambda>(rand, i, s). kChallengeSize - i)") auto

declare challenge_loop.simps [simp del]

text \<open>
  The state of \<open>rand\<close> is shared by all threads: \<open>others\<close> is \<open>None\<close> when none of them calls \<open>srand\<close> or \<open>rand\<close>
  meanwhile, otherwise it is what \<open>rand\<close> yields then, which can be anything.
\<close>

definition genChallenge :: "crypto_lib \<Rightarrow> (nat \<Rightarrow> nat) option \<Rightarrow> int \<Rightarrow> string" where
  "genChallenge lib others now =
     challenge_loop (case others of None \<Rightarrow> rand_after_srand lib (word_of_int now) | Some rand \<Rightarrow> rand) 0 ''''"

definition getTimestamp :: "int \<Rightarrow> int32" where
  "getTimestamp now = to_int32 now"

definition getUUID :: "string \<Rightarrow> string" where
  "getUUID uuid = c_str uuid"

definition genToken :: "crypto_lib \<Rightarrow> string \<Rightarrow> string run" where
  "genToken lib uuid = rbind (InitSodium lib) (\<lambda>_. Inr (getUUID uuid))"

subsection \<open>Hexadecimal strings\<close>

lemma hex_digits_length [simp]: "length hex_digits = 16"
  by (simp add: hex_digits_def)

lemma hex_digits_distinct: "distinct hex_digits"
  by (simp add: hex_digits_def)

lemma high_nibble_eq: "unat (drop_bit 4 (b :: byte)) = unat b div 16"
  by (simp add: drop_bit_eq_div unat_div_distrib)

lemma high_nibble_less: "unat (drop_bit 4 (b :: byte)) < 16"
  using unsigned_less [where ?'a = nat, of b] by (simp only: high_nibble_eq) simp

lemma low_nibble_eq: "unat ((b :: byte) AND 15) = unat b mod 16"
proof -
  have "b AND 15 = take_bit 4 b"
    using take_bit_eq_mask [of 4 b] by (simp add: mask_eq_exp_minus_1)
  then show ?thesis by (simp add: unat_mod_distrib take_bit_eq_mod)
qed

lemma low_nibble_less: "unat ((b :: byte) AND 15) < 16"
  by (simp add: low_nibble_eq)

lemma sprintf_02x_set: "set (sprintf_02x b) \<subseteq> set hex_digits"
  unfolding sprintf_02x_def
  using high_nibble_less [of b] low_nibble_less [of b] by (simp add: nth_mem)

lemma sprintf_02x_length [simp]: "length (sprintf_02x b) = 2"
  by (simp add: sprintf_02x_def)

lemma sprintf_02x_inj: "sprintf_02x a = sprintf_02x b \<Longrightarrow> a = b"
proof -
  assume e: "sprintf_02x a = sprintf_02x b"
  have "unat (drop_bit 4 a) = unat (drop_bit 4 b)"
    using e high_nibble_less [of a] high_nibble_less [of b] hex_digits_distinct
    by (simp add: sprintf_02x_def nth_eq_iff_index_eq)
  then have h: "unat a div 16 = unat b div 16"
    by (simp only: high_nibble_eq)
  have "unat (a AND 15) = unat (b AND 15)"
    using e low_nibble_less [of a] low_nibble_less [of b] hex_digits_distinct
    by (simp add: sprintf_02x_def nth_eq_iff_index_eq)
  then have l: "unat a mod 16 = unat b mod 16"
    by (simp add: low_nibble_eq)
  from h l have "unat a = unat b"
    by (metis mult_div_mod_eq)
  then show ?thesis by (simp add: word_unat_eq_iff)
qed

lemma hex_concat_set: "set (concat (map sprintf_02x bs)) \<subseteq> set hex_digits"
  using sprintf_02x_set by (induction bs) auto

lemma hex_concat_length: "length (concat (map sprintf_02x bs)) = 2 * length bs"
  by (induction bs) simp_all

lemma hex_concat_inj:
  "concat (map sprintf_02x as) = concat (map sprintf_02x bs) \<Longrightarrow> as = bs"
proof (induction as arbitrary: bs)
  case Nil
  then show ?case by (cases bs) (auto simp: sprintf_02x_def)
next
  case (Cons a as)
  then obtain b bs' where bs: "bs = b # bs'"
    by (cases bs) (auto simp: sprintf_02x_def)
  with Cons.prems have "sprintf_02x a = sprintf_02x b \<and>
      concat (map sprintf_02x as) = concat (map sprintf_02x bs')"
    by (simp add: append_eq_append_conv)
  then show ?case using Cons.IH bs sprintf_02x_inj by blast
qed

lemma hex_c_str: "c_str (concat (map sprintf_02x bs)) = concat (map sprintf_02x bs)"
proof (rule c_str_id)
  have "CHR 0x00 \<notin> set hex_digits" by (simp add: hex_digits_def)
  then show "CHR 0x00 \<notin> set (concat (map sprintf_02x bs))"
    using hex_concat_set by blast
qed

context crypto_lib_laws
begin

lemma SHA256_eq:
  "SHA256 lib s = Inr (concat (map sprintf_02x (snd (crypto_hash_sha256 lib (map of_char s)))))"
proof -
  obtain out where out: "crypto_hash_sha256 lib (map of_char s) = (0, out)"
    using hash_ok [of "map of_char s"] by (cases "crypto_hash_sha256 lib (map of_char s)") auto
  moreover have "length out = crypto_hash_sha256_BYTES"
    using hash_length [of "map of_char s"] out by simp
  ultimately show ?thesis
    using init_ok
    by (simp add: SHA256_def InitSodium_def bytesToHexString_def hex_c_str
        crypto_hash_sha256_BYTES_def)
qed

lemma SHA256_total: "\<exists>h. SHA256 lib s = Inr h"
  by (simp add: SHA256_eq)

lemma genToken_eq [simp]: "genToken lib u = Inr (getUUID u)"
  using init_ok by (simp add: genToken_def InitSodium_def)

lemma SHA256_format:
  "SHA256 lib s = Inr h \<Longrightarrow> length h = 64 \<and> set h \<subseteq> set hex_digits"
  using hash_length [of "map of_char s"]
    hex_concat_set [of "snd (crypto_hash_sha256 lib (map of_char s))"]
  by (auto simp: SHA256_eq hex_concat_length crypto_hash_sha256_BYTES_def simp del: length_concat set_concat)

lemma SHA256_collision_iff:
  "SHA256 lib s = SHA256 lib t \<longleftrightarrow>
   snd (crypto_hash_sha256 lib (map of_char s)) = snd (crypto_hash_sha256 lib (map of_char t))"
  by (auto simp: SHA256_eq dest: hex_concat_inj)

end

subsection \<open>Challenges\<close>

lemma charset_length [simp]: "length charset = 62"
  by (simp add: charset_def)

lemma challenge_loop_eq:
  "challenge_loop rand i s = s @ map (\<lambda>k. charset ! (rand k mod 62)) [i..<kChallengeSize]"
proof (induction rand i s rule: challenge_loop.induct)
  case (1 rand i s)
  show ?case
  proof (cases "i < kChallengeSize")
    case True
    with "1.IH" show ?thesis
      by (simp add: challenge_loop.simps [of rand i s] upt_conv_Cons)
  next
    case False
    then show ?thesis by (simp add: challenge_loop.simps [of rand i s])
  qed
qed

lemma genChallenge_eq:
  "genChallenge lib others now =
     map (\<lambda>k. charset ! ((case others of None \<Rightarrow> rand_after_srand lib (word_of_int now)
                                | Some rand \<Rightarrow> rand) k mod 62)) [0..<32]"
  by (simp add: genChallenge_def challenge_loop_eq kChallengeSize_def)

lemma genChallenge_length [simp]: "length (genChallenge lib others now) = 32"
  by (simp add: genChallenge_eq)

lemma genChallenge_nonempty [simp]: "genChallenge lib others now \<noteq> []"
  using genChallenge_length [of lib others now] by (cases "genChallenge lib others now") auto

lemma genChallenge_charset: "set (genChallenge lib others now) \<subseteq> set charset"
  by (auto simp: genChallenge_eq nth_mem)

subsection \<open>A concrete library\<close>

text \<open>
  A library whose digest is the first 32 input bytes, padded with zeros: an instance of the laws
  (not of SHA-256), on which examples can be computed.
\<close>

definition plain_crypto :: crypto_lib where
  "plain_crypto =
     \<lparr>sodium_init = 0,
      crypto_hash_sha256 = (\<lambda>bs. (0, take 32 (bs @ replicate 32 0))),
      rand_after_srand = (\<lambda>seed i. unat seed + i)\<rparr>"

interpretation plain_cl: crypto_lib_laws plain_crypto
  by unfold_locales (simp_all add: plain_crypto_def crypto_hash_sha256_BYTES_def)

subsection \<open>Properties\<close>

text \<open>
  For a library that initialises and hashes, the hash of any string is 64 lower-case
  hexadecimal digits, and two strings get the same hash exactly when the library's digests of
  their bytes are the same: the hexadecimal form loses nothing.
\<close>

theorem SHA256_hex_faithful:
  assumes "crypto_lib_laws lib"
  shows "\<exists>h. SHA256 lib s = Inr h \<and> length h = 64 \<and> set h \<subseteq> set hex_digits \<and>
    (SHA256 lib t = Inr h \<longleftrightarrow>
      snd (crypto_hash_sha256 lib (map of_char s)) = snd (crypto_hash_sha256 lib (map of_char t)))"
proof -
  obtain h where h: "SHA256 lib s = Inr h"
    using crypto_lib_laws.SHA256_total [OF assms] by blast
  then show ?thesis
    using crypto_lib_laws.SHA256_format [OF assms h]
      crypto_lib_laws.SHA256_collision_iff [OF assms, of t s] by auto
qed

theorem SHA256_hex_faithful_witness:
  "crypto_lib_laws plain_crypto \<and>
   (\<exists>h. SHA256 plain_crypto ''a'' = Inr h \<and> length h = 64 \<and> set h \<subseteq> set hex_digits \<and>
    (SHA256 plain_crypto ''b'' = Inr h \<longleftrightarrow>
      snd (crypto_hash_sha256 plain_crypto (map of_char ''a'')) =
      snd (crypto_hash_sha256 plain_crypto (map of_char ''b''))))"
  using plain_cl.crypto_lib_laws_axioms
    SHA256_hex_faithful [OF plain_cl.crypto_lib_laws_axioms, of "''a''" "''b''"] by blast

text \<open>
  A challenge has 32 characters, all from the charset. When no other thread calls \<open>srand\<close> or \<open>rand\<close>
  meanwhile it is a function of the clock's seconds alone (modulo \<open>2 ^ 32\<close>): all users who ask one
  after the other within one second get the same challenge.
\<close>

theorem genChallenge_predictable:
  "length (genChallenge lib others now) = kChallengeSize \<and> set (genChallenge lib others now) \<subseteq> set charset \<and>
   genChallenge lib None (now + 2 ^ 32 * k) = genChallenge lib None now"
proof -
  have "(2 :: 32 word) ^ 32 = 0" by simp
  then have "word_of_int (now + 2 ^ 32 * k) = (word_of_int now :: 32 word)"
    by (simp only: of_int_add of_int_mult of_int_power of_int_numeral) simp
  then show ?thesis
    using genChallenge_charset [of lib others now]
    by (simp add: kChallengeSize_def) (simp add: genChallenge_def)
qed

end
