(* ===== verification/Db_Access.thy ===== *)
theory Db_Access
  imports Sql_Engine Messages File_Storage Crypto_Utils
begin

text \<open>
  \<open>include/db_access.h\<close>, \<open>src/db/db_access.cpp\<close>, \<open>include/user.h\<close> and \<open>include/group.h\<close>: the users, groups,
  messages and files in the database. Every operation takes the engine and the database \<open>d\<close>; one
  that changes the database returns the new one. An exception the code does not catch is \<open>Inl\<close>.
\<close>

subsection \<open>Users and groups\<close>

record User =
  usr_id :: int32
  usr_username :: string
  usr_password :: string

text \<open>The constructor builds both strings from \<open>data()\<close>: up to the first NUL.\<close>

definition make_User :: "int32 \<Rightarrow> string \<Rightarrow> string \<Rightarrow> User" where
  "make_User i n p = \<lparr>usr_id = i, usr_username = c_str n, usr_password = c_str p\<rparr>"

record Group =
  grp_id :: int32
  grp_name :: string

definition make_Group :: "int32 \<Rightarrow> string \<Rightarrow> Group" where
  "make_Group i n = \<lparr>grp_id = i, grp_name = n\<rparr>"

subsection \<open>Tables\<close>

abbreviation column_of :: "string \<Rightarrow> sql_type \<Rightarrow> col_constraint list \<Rightarrow> column" where
  "column_of n t cs \<equiv> \<lparr>col_name = n, col_type = t, col_constraints = cs\<rparr>"

definition users_columns :: "column list" where
  "users_columns =
    [column_of ''user_id'' INTEGER [PRIMARY_KEY, AUTOINCREMENT],
     column_of ''username'' TEXT_type [NOT_NULL, UNIQUE],
     column_of ''password'' TEXT_type [NOT_NULL]]"

definition groups_columns :: "column list" where
  "groups_columns =
    [column_of ''group_id'' INTEGER [PRIMARY_KEY, AUTOINCREMENT],
     column_of ''group_name'' TEXT_type [NOT_NULL]]"

definition user_group_columns :: "column list" where
  "user_group_columns =
    [column_of ''user_id'' INTEGER [],
     column_of ''group_id'' INTEGER []]"

definition files_columns :: "column list" where
  "files_columns =
    [column_of ''file_id'' TEXT_type [PRIMARY_KEY],
     column_of ''filename'' TEXT_type [],
     column_of ''hash'' TEXT_type []]"

definition messages_columns :: "column list" where
  "messages_columns =
    [column_of ''message_id'' INTEGER [PRIMARY_KEY, AUTOINCREMENT],
     column_of ''sender_id'' INTEGER [NOT_NULL],
     column_of ''receiver_id'' INTEGER [NOT_NULL],
     column_of ''type'' INTEGER [NOT_NULL],
     column_of ''internal_id'' INTEGER [],
     column_of ''content'' TEXT_type [],
     column_of ''file_id'' TEXT_type [],
     column_of ''timestamp'' INTEGER [NOT_NULL]]"

definition ensure_table ::
    "'d sqlite \<Rightarrow> string \<Rightarrow> column list \<Rightarrow> table_constraint list \<Rightarrow> 'd \<Rightarrow> 'd run" where
  "ensure_table eng t sc tcs d =
     (case sql_tableExists eng d t of
        Inl e \<Rightarrow> Inl (UncaughtException e)
      | Inr True \<Rightarrow> Inr d
      | Inr False \<Rightarrow>
          (case sql_exec eng d (CreateTable t sc tcs) [] of
             (Inl e, d') \<Rightarrow> Inl (UncaughtException e)
           | (Inr n, d') \<Rightarrow> Inr d'))"

definition checkAndCreateTables :: "'d sqlite \<Rightarrow> 'd \<Rightarrow> 'd run" where
  "checkAndCreateTables eng d =
     rbind (ensure_table eng ''users'' users_columns [] d) (\<lambda>d.
     rbind (ensure_table eng ''groups'' groups_columns [] d) (\<lambda>d.
     rbind (ensure_table eng ''user_group'' user_group_columns
              [FOREIGN_KEY ''user_id'' ''users'' ''user_id'',
               FOREIGN_KEY ''group_id'' ''groups'' ''group_id'',
               PRIMARY_KEY_OF [''user_id'', ''group_id'']] d) (\<lambda>d.
     rbind (ensure_table eng ''files'' files_columns [] d) (\<lambda>d.
            ensure_table eng ''messages'' messages_columns
              [FOREIGN_KEY ''sender_id'' ''users'' ''user_id'',
               FOREIGN_KEY ''receiver_id'' ''users'' ''user_id'',
               FOREIGN_KEY ''file_id'' ''files'' ''file_id''] d))))"

subsection \<open>Reading rows\<close>

text \<open>\<open>query.getColumn(name)\<close> throws for a name the result does not have.\<close>

definition getColumn :: "sql_row \<Rightarrow> string \<Rightarrow> sql_value run" where
  "getColumn r n =
     (case map_of r n of None \<Rightarrow> Inl (UncaughtException ''Unknown column name'') | Some v \<Rightarrow> Inr v)"

text \<open>\<open>if (query.executeStep()) return f(query); return {};\<close>\<close>

definition fetch_first ::
    "'d sqlite \<Rightarrow> 'd \<Rightarrow> sql_stmt \<Rightarrow> sql_value list \<Rightarrow> (sql_row \<Rightarrow> 'x run) \<Rightarrow> 'x option run" where
  "fetch_first eng d stmt vs f =
     (case sql_prepare eng d stmt of
        Some e \<Rightarrow> Inl (UncaughtException e)
      | None \<Rightarrow>
          (case sql_step eng d stmt vs of
             (r # rs, x) \<Rightarrow> rbind (f r) (\<lambda>y. Inr (Some y))
           | ([], Some e) \<Rightarrow> Inl (UncaughtException e)
           | ([], None) \<Rightarrow> Inr None))"

text \<open>\<open>while (query.executeStep()) out.push_back(f(query)); return out;\<close>\<close>

definition fetch_all ::
    "'d sqlite \<Rightarrow> 'd \<Rightarrow> sql_stmt \<Rightarrow> sql_value list \<Rightarrow> (sql_row \<Rightarrow> 'x run) \<Rightarrow> 'x list run" where
  "fetch_all eng d stmt vs f =
     (case sql_prepare eng d stmt of
        Some e \<Rightarrow> Inl (UncaughtException e)
      | None \<Rightarrow>
          (case sql_step eng d stmt vs of
             (rs, x) \<Rightarrow>
               rbind (rmap f rs) (\<lambda>out.
                 case x of Some e \<Rightarrow> Inl (UncaughtException e) | None \<Rightarrow> Inr out)))"

definition read_User :: "'d sqlite \<Rightarrow> sql_row \<Rightarrow> User run" where
  "read_User eng r =
     rbind (getColumn r ''user_id'') (\<lambda>i.
     rbind (getColumn r ''username'') (\<lambda>n.
     rbind (getColumn r ''password'') (\<lambda>p.
       Inr (make_User (sql_getInt eng i) (sql_getString eng n) (sql_getString eng p)))))"

definition read_Group :: "'d sqlite \<Rightarrow> sql_row \<Rightarrow> Group run" where
  "read_Group eng r =
     rbind (getColumn r ''group_id'') (\<lambda>i.
     rbind (getColumn r ''group_name'') (\<lambda>n.
       Inr (make_Group (sql_getInt eng i) (sql_getString eng n))))"

definition read_Message :: "'d sqlite \<Rightarrow> sql_row \<Rightarrow> Message run" where
  "read_Message eng r =
     rbind (getColumn r ''sender_id'') (\<lambda>f.
     rbind (getColumn r ''receiver_id'') (\<lambda>t.
     rbind (getColumn r ''content'') (\<lambda>c.
     rbind (getColumn r ''type'') (\<lambda>ty.
     rbind (getColumn r ''message_id'') (\<lambda>i.
     rbind (getColumn r ''internal_id'') (\<lambda>ii.
     rbind (getColumn r ''timestamp'') (\<lambda>ts.
       Inr \<lparr>msg_message = \<lparr>raw_from = sql_getInt eng f, raw_to = sql_getInt eng t,
                            raw_type = sql_getInt eng ty, raw_content = sql_getString eng c\<rparr>,
            msg_id = sql_getInt eng i,
            msg_timestamp = sql_getInt eng ts,
            msg_internalId = sql_getInt eng ii\<rparr>)))))))"

definition read_File :: "'d sqlite \<Rightarrow> sql_row \<Rightarrow> FileStorage run" where
  "read_File eng r =
     rbind (getColumn r ''file_id'') (\<lambda>i.
     rbind (getColumn r ''filename'') (\<lambda>n.
     rbind (getColumn r ''hash'') (\<lambda>h.
       Inr (setHash (setName (setId empty_FileStorage (sql_getString eng i))
              (sql_getString eng n)) (sql_getString eng h)))))"

subsection \<open>Queries\<close>

definition bind_int :: "int32 \<Rightarrow> sql_value" where
  "bind_int i = SqlInt (sint i)"

definition getUser_name :: "'d sqlite \<Rightarrow> 'd \<Rightarrow> string \<Rightarrow> User option run" where
  "getUser_name eng d username =
     fetch_first eng d (SelectAll ''users'' [''username'']) [SqlText (c_str username)]
       (read_User eng)"

definition getUser_id :: "'d sqlite \<Rightarrow> 'd \<Rightarrow> int32 \<Rightarrow> User option run" where
  "getUser_id eng d i =
     fetch_first eng d (SelectAll ''users'' [''user_id'']) [bind_int i] (read_User eng)"

definition getAllUsers :: "'d sqlite \<Rightarrow> 'd \<Rightarrow> User list run" where
  "getAllUsers eng d = fetch_all eng d (SelectAll ''users'' []) [] (read_User eng)"

definition getGroup_name :: "'d sqlite \<Rightarrow> 'd \<Rightarrow> string \<Rightarrow> Group option run" where
  "getGroup_name eng d name =
     fetch_first eng d (SelectAll ''groups'' [''group_name'']) [SqlText (c_str name)]
       (read_Group eng)"

definition getGroup_id :: "'d sqlite \<Rightarrow> 'd \<Rightarrow> int32 \<Rightarrow> Group option run" where
  "getGroup_id eng d i =
     fetch_first eng d (SelectAll ''groups'' [''group_id'']) [bind_int i] (read_Group eng)"

definition getAllGroups :: "'d sqlite \<Rightarrow> 'd \<Rightarrow> Group list run" where
  "getAllGroups eng d = fetch_all eng d (SelectAll ''groups'' []) [] (read_Group eng)"

definition getMessage :: "'d sqlite \<Rightarrow> 'd \<Rightarrow> int32 \<Rightarrow> int32 \<Rightarrow> int32 \<Rightarrow> Message option run" where
  "getMessage eng d sender_id receiver_id internal_id =
     fetch_first eng d (SelectAll ''messages'' [''sender_id'', ''receiver_id'', ''internal_id''])
       [bind_int sender_id, bind_int receiver_id, bind_int internal_id] (read_Message eng)"

definition getAllMessages :: "'d sqlite \<Rightarrow> 'd \<Rightarrow> int32 \<Rightarrow> int32 \<Rightarrow> Message list run" where
  "getAllMessages eng d sender_id receiver_id =
     fetch_all eng d (SelectAll ''messages'' [''sender_id'', ''receiver_id''])
       [bind_int sender_id, bind_int receiver_id] (read_Message eng)"

definition getFile :: "'d sqlite \<Rightarrow> 'd \<Rightarrow> string \<Rightarrow> FileStorage option run" where
  "getFile eng d uuid =
     fetch_first eng d (SelectAll ''files'' [''file_id'']) [SqlText (c_str uuid)] (read_File eng)"

subsection \<open>Insertions and updates\<close>

text \<open>The whole body is in a \<open>try\<close> block: every exception is caught and gives \<open>false\<close>.\<close>

definition createUser :: "'d sqlite \<Rightarrow> 'd \<Rightarrow> User \<Rightarrow> bool \<times> 'd" where
  "createUser eng d u =
     (let stmt = InsertInto ''users'' [''username'', ''password''] in
      case sql_prepare eng d stmt of
        Some e \<Rightarrow> (False, d)
      | None \<Rightarrow>
          (case sql_exec eng d stmt [SqlText (usr_username u), SqlText (usr_password u)] of
             (Inl e, d') \<Rightarrow> (False, d')
           | (Inr n, d') \<Rightarrow> (n \<noteq> 0, d')))"

definition createGroup :: "'d sqlite \<Rightarrow> 'd \<Rightarrow> Group \<Rightarrow> (bool \<times> 'd) run" where
  "createGroup eng d g =
     (let stmt = InsertInto ''groups'' [''group_name''] in
      case sql_prepare eng d stmt of
        Some e \<Rightarrow> Inl (UncaughtException e)
      | None \<Rightarrow>
          (case sql_exec eng d stmt [SqlText (grp_name g)] of
             (Inl e, d') \<Rightarrow> Inl (UncaughtException e)
           | (Inr n, d') \<Rightarrow> Inr (n = 1, d')))"

definition createMsg :: "'d sqlite \<Rightarrow> 'd \<Rightarrow> Message \<Rightarrow> (int32 option \<times> 'd) run" where
  "createMsg eng d m =
     (let stmt = InsertInto ''messages''
        [''sender_id'', ''receiver_id'', ''content'', ''type'', ''internal_id'', ''timestamp''] in
      case sql_prepare eng d stmt of
        Some e \<Rightarrow> Inl (UncaughtException e)
      | None \<Rightarrow>
          (case sql_exec eng d stmt
                  [bind_int (raw_from (msg_message m)), bind_int (raw_to (msg_message m)),
                   SqlText (raw_content (msg_message m)), bind_int (raw_type (msg_message m)),
                   bind_int (msg_internalId m), bind_int (msg_timestamp m)] of
             (Inl e, d') \<Rightarrow> Inl (UncaughtException e)
           | (Inr n, d') \<Rightarrow>
               if n = 1 then Inr (Some (to_int32 (sql_lastInsertRowid eng d')), d')
               else Inr (None, d')))"

text \<open>The loop over the messages of the conversation, keeping the largest internal id.\<close>

fun max_internal_id :: "Message list \<Rightarrow> int32 \<Rightarrow> int32" where
  "max_internal_id [] mx = mx"
| "max_internal_id (m # msgs) mx =
     max_internal_id msgs (if sint (msg_internalId m) > sint mx then msg_internalId m else mx)"

definition createMsgByRawMsg ::
    "'d sqlite \<Rightarrow> 'd \<Rightarrow> RawMessage \<Rightarrow> int \<Rightarrow> (Message option \<times> 'd) run" where
  "createMsgByRawMsg eng d m now =
     rbind (getAllMessages eng d (raw_from m) (raw_to m)) (\<lambda>msgs.
       case int32_succ (max_internal_id msgs 0) of
         None \<Rightarrow> Inl (UndefinedBehaviour ''signed overflow'')
       | Some internal_id \<Rightarrow>
           (let msg = \<lparr>msg_message = \<lparr>raw_from = raw_from m, raw_to = raw_to m,
                                      raw_type = raw_type m, raw_content = raw_content m\<rparr>,
                       msg_id = 0, msg_timestamp = getTimestamp now,
                       msg_internalId = internal_id\<rparr> in
            rbind (createMsg eng d msg) (\<lambda>(result, d').
              case result of
                Some i \<Rightarrow> Inr (Some (msg\<lparr>msg_id := i\<rparr>), d')
              | None \<Rightarrow> Inr (None, d'))))"

text \<open>
  \<open>createFile\<close> and \<open>updateFile\<close> are \<open>noexcept\<close>: the statement is constructed outside the \<open>try\<close> block,
  so an exception there terminates the process; one from \<open>exec\<close> is caught.
\<close>

definition createFile :: "'d sqlite \<Rightarrow> 'd \<Rightarrow> string \<Rightarrow> (string option \<times> 'd) run" where
  "createFile eng d uuid =
     (let u = getUUID uuid; stmt = InsertInto ''files'' [''file_id''] in
      case sql_prepare eng d stmt of
        Some e \<Rightarrow> Inl (UncaughtException e)
      | None \<Rightarrow>
          (case sql_exec eng d stmt [SqlText u] of
             (Inl e, d') \<Rightarrow> Inr (None, d')
           | (Inr n, d') \<Rightarrow> if n = 1 then Inr (Some u, d') else Inr (None, d')))"

definition updateFile :: "'d sqlite \<Rightarrow> 'd \<Rightarrow> FileStorage \<Rightarrow> (bool \<times> 'd) run" where
  "updateFile eng d f =
     (let stmt = UpdateSet ''files'' [''filename'', ''hash''] [''file_id''] in
      case sql_prepare eng d stmt of
        Some e \<Rightarrow> Inl (UncaughtException e)
      | None \<Rightarrow>
          (case sql_exec eng d stmt [SqlText (fs_name f), SqlText (fs_hash f), SqlText (fs_id f)] of
             (Inl e, d') \<Rightarrow> Inr (False, d')
           | (Inr n, d') \<Rightarrow> Inr (n \<noteq> 0, d')))"

definition updateFile_views ::
    "'d sqlite \<Rightarrow> 'd \<Rightarrow> string \<Rightarrow> string \<Rightarrow> string \<Rightarrow> (bool \<times> 'd) run" where
  "updateFile_views eng d uuid filename hash =
     (let stmt = UpdateSet ''files'' [''filename'', ''hash''] [''file_id''] in
      case sql_prepare eng d stmt of
        Some e \<Rightarrow> Inl (UncaughtException e)
      | None \<Rightarrow>
          (case sql_exec eng d stmt
                  [SqlText (c_str filename), SqlText (c_str hash), SqlText (c_str uuid)] of
             (Inl e, d') \<Rightarrow> Inr (False, d')
           | (Inr n, d') \<Rightarrow> Inr (n \<noteq> 0, d')))"

end
