(* ===== verification/Threadsafe_Queue.thy ===== *)
theory Threadsafe_Queue
  imports Prelude "HOL-Library.Sublist"
begin

text \<open>
  \<open>include/threadsafe_queue.h\<close>: the queue between the accepting thread and the worker threads, and
  the one between the handlers and a keep-alive sender thread. Each operation holds the queue's
  mutex for its whole body, so it is one atomic step; a waiting pop whose predicate is false
  (the queue is empty) does not step, which \<open>WaitAndPop\<close> gives as \<open>None\<close>.

  The contract is the locale \<open>fifo_queue\<close>; the senders and the accepting loop use the queue through
  its laws only.
\<close>

subsection \<open>The contract\<close>

locale fifo_queue =
  fixes push :: "'q \<Rightarrow> 'a \<Rightarrow> 'q"
    and pop :: "'q \<Rightarrow> ('a \<times> 'q) option"
    and clear :: "'q \<Rightarrow> 'q"
    and contents :: "'q \<Rightarrow> 'a list"
  assumes contents_push: "contents (push q x) = contents q @ [x]"
    and pop_empty: "contents q = [] \<Longrightarrow> pop q = None"
    and pop_front: "contents q = x # xs \<Longrightarrow> \<exists>q'. pop q = Some (x, q') \<and> contents q' = xs"
    and contents_clear: "contents (clear q) = []"

text \<open>
  The operations of all threads, in the order in which they get the mutex. A pop that finds the
  queue empty leaves its thread waiting: nothing changes.
\<close>

datatype 'a queue_op = DoPush 'a | DoPop | DoClear

fun run_ops :: "('q \<Rightarrow> 'a \<Rightarrow> 'q) \<Rightarrow> ('q \<Rightarrow> ('a \<times> 'q) option) \<Rightarrow> ('q \<Rightarrow> 'q) \<Rightarrow>
    'a queue_op list \<Rightarrow> 'q \<Rightarrow> 'a list \<times> 'q" where
  "run_ops push pop clear [] q = ([], q)"
| "run_ops push pop clear (DoPush x # ops) q = run_ops push pop clear ops (push q x)"
| "run_ops push pop clear (DoPop # ops) q =
     (case pop q of
        None \<Rightarrow> run_ops push pop clear ops q
      | Some (x, q') \<Rightarrow> (case run_ops push pop clear ops q' of (out, q'') \<Rightarrow> (x # out, q'')))"
| "run_ops push pop clear (DoClear # ops) q = run_ops push pop clear ops (clear q)"

fun pushed :: "'a queue_op list \<Rightarrow> 'a list" where
  "pushed [] = []"
| "pushed (DoPush x # ops) = x # pushed ops"
| "pushed (_ # ops) = pushed ops"

context fifo_queue
begin

lemma pop_cases:
  obtains (empty) "contents q = []" "pop q = None"
  | (front) x xs q' where "contents q = x # xs" "pop q = Some (x, q')" "contents q' = xs"
proof (cases "contents q")
  case Nil
  show thesis by (rule empty [OF Nil pop_empty [OF Nil]])
next
  case (Cons x xs)
  with pop_front [OF this] show thesis by (auto intro: front)
qed

lemma run_ops_fifo:
  assumes "DoClear \<notin> set ops" and "run_ops push pop clear ops q = (out, q')"
  shows "out @ contents q' = contents q @ pushed ops"
  using assms
proof (induction ops arbitrary: q out)
  case Nil
  then show ?case by simp
next
  case (Cons c ops)
  show ?case
  proof (cases c)
    case (DoPush x)
    with Cons.prems Cons.IH [of "push q x" out] show ?thesis by (simp add: contents_push)
  next
    case DoPop
    show ?thesis
    proof (cases q rule: pop_cases)
      case empty
      with DoPop Cons.prems Cons.IH [of q out] show ?thesis by simp
    next
      case (front x xs q1)
      with DoPop Cons.prems obtain out' where
        "run_ops push pop clear ops q1 = (out', q')" and "out = x # out'"
        by (auto split: prod.splits)
      with DoPop Cons.prems Cons.IH [of q1 out'] front show ?thesis by simp
    qed
  next
    case DoClear
    with Cons.prems show ?thesis by simp
  qed
qed

lemma run_ops_order:
  assumes "run_ops push pop clear ops q = (out, q')"
  shows "subseq (out @ contents q') (contents q @ pushed ops)"
  using assms
proof (induction ops arbitrary: q out)
  case Nil
  then show ?case by simp
next
  case (Cons c ops)
  show ?case
  proof (cases c)
    case (DoPush x)
    with Cons.prems Cons.IH [of "push q x" out] show ?thesis by (simp add: contents_push)
  next
    case DoPop
    show ?thesis
    proof (cases q rule: pop_cases)
      case empty
      with DoPop Cons.prems Cons.IH [of q out] show ?thesis by simp
    next
      case (front x xs q1)
      with DoPop Cons.prems obtain out' where
        "run_ops push pop clear ops q1 = (out', q')" and "out = x # out'"
        by (auto split: prod.splits)
      with DoPop Cons.prems Cons.IH [of q1 out'] front show ?thesis by simp
    qed
  next
    case DoClear
    with Cons.prems Cons.IH [of "clear q" out]
    have "subseq (out @ contents q') (pushed ops)" by (simp add: contents_clear)
    then have "subseq (out @ contents q') (contents q @ pushed ops)"
      by (rule subseq_drop_many)
    with DoClear show ?thesis by simp
  qed
qed

end

subsection \<open>Operations\<close>

text \<open>The field \<open>items\<close> is the member \<open>queue_\<close> (a \<open>std::queue\<close>), front first.\<close>

record 'a ThreadsafeQueue =
  items :: "'a list"

instantiation ThreadsafeQueue_ext :: (type, type) size
begin

definition size_ThreadsafeQueue: "size q = length (items q)"

instance ..

end

definition empty_queue :: "'a ThreadsafeQueue" where
  "empty_queue = \<lparr>items = []\<rparr>"

definition Push :: "'a ThreadsafeQueue \<Rightarrow> 'a \<Rightarrow> 'a ThreadsafeQueue" where
  "Push q new_value = q\<lparr>items := items q @ [new_value]\<rparr>"

definition WaitAndPop :: "'a ThreadsafeQueue \<Rightarrow> ('a \<times> 'a ThreadsafeQueue) option" where
  "WaitAndPop q = (case items q of [] \<Rightarrow> None | x # xs \<Rightarrow> Some (x, q\<lparr>items := xs\<rparr>))"

text \<open>\<open>while (!queue_.empty()) queue_.pop();\<close>\<close>

function Clear :: "'a ThreadsafeQueue \<Rightarrow> 'a ThreadsafeQueue" where
  "Clear q = (if items q = [] then q else Clear (q\<lparr>items := tl (items q)\<rparr>))"
  by pat_completeness auto
termination
  by (relation "measure size") (auto simp: size_ThreadsafeQueue)

declare Clear.simps [simp del]

lemma Clear_eq [simp]: "Clear q = q\<lparr>items := []\<rparr>"
proof (induction q rule: Clear.induct)
  case (1 q)
  show ?case
  proof (cases "items q = []")
    case True
    then show ?thesis by (cases q) (simp add: Clear.simps)
  next
    case False
    with "1.IH" show ?thesis by (simp add: Clear.simps [of q])
  qed
qed

interpretation tsq: fifo_queue Push WaitAndPop Clear items
  by unfold_locales (auto simp: Push_def WaitAndPop_def)

lemma queue_Push [simp]: "items (Push q x) = items q @ [x]"
  by (rule tsq.contents_push)

lemma WaitAndPop_None_iff: "WaitAndPop q = None \<longleftrightarrow> items q = []"
  by (auto simp: WaitAndPop_def split: list.splits)

lemma WaitAndPop_Some_iff: "WaitAndPop q = Some (x, q') \<longleftrightarrow> items q = x # items q'"
  by (cases q; cases q') (auto simp: WaitAndPop_def split: list.splits)

subsection \<open>Properties\<close>

text \<open>
  Whatever the interleaving of pushing and popping threads, as long as nobody clears the queue
  every element comes out exactly once and in the order of the pushes: what has been popped,
  followed by what is still queued, is what was queued at first followed by what was pushed.
\<close>

theorem queue_fifo:
  assumes "DoClear \<notin> set ops" and "run_ops Push WaitAndPop Clear ops q = (out, q')"
  shows "out @ items q' = items q @ pushed ops"
  using assms by (rule tsq.run_ops_fifo)

theorem queue_fifo_witness:
  "run_ops Push WaitAndPop Clear [DoPop, DoPush 1, DoPush (2::nat), DoPop, DoPush 3] empty_queue =
     ([1], \<lparr>items = [2, 3]\<rparr>) \<and>
   [1] @ items \<lparr>items = [2, 3]\<rparr> =
     items empty_queue @ pushed [DoPop, DoPush 1, DoPush 2, DoPop, DoPush (3::nat)]"
proof -
  have run: "run_ops Push WaitAndPop Clear
      [DoPop, DoPush 1, DoPush (2::nat), DoPop, DoPush 3] empty_queue = ([1], \<lparr>items = [2, 3]\<rparr>)"
    by (simp add: Push_def WaitAndPop_def empty_queue_def)
  then show ?thesis using queue_fifo [OF _ run] by simp
qed

text \<open>
  With clears in the interleaving, elements may be dropped but are never duplicated or
  reordered: the popped elements and the queued ones form a subsequence of the pushes.
\<close>

theorem queue_order_with_clear:
  assumes "run_ops Push WaitAndPop Clear ops q = (out, q')"
  shows "subseq (out @ items q') (items q @ pushed ops)"
  using assms by (rule tsq.run_ops_order)

theorem queue_order_with_clear_witness:
  "run_ops Push WaitAndPop Clear [DoPush 1, DoPush (2::nat), DoPop, DoClear, DoPush 3] empty_queue =
     ([1], \<lparr>items = [3]\<rparr>) \<and> subseq [1, 3] [1, 2, 3::nat]"
proof -
  have run: "run_ops Push WaitAndPop Clear
      [DoPush 1, DoPush (2::nat), DoPop, DoClear, DoPush 3] empty_queue = ([1], \<lparr>items = [3]\<rparr>)"
    by (simp add: Push_def WaitAndPop_def empty_queue_def)
  then show ?thesis using queue_order_with_clear [OF run] by (simp add: empty_queue_def)
qed

end
