(* ===== verification/User_Manager.thy ===== *)
theory User_Manager
  imports Messages Threadsafe_Queue
begin

text \<open>
  \<open>include/user_manager.h\<close> (the class \<open>UM\<close>) and the state it guards, the private members of \<open>Server\<close>
  (\<open>src/Server/Server.h\<close>): who is logged in, which challenges and file messages are pending, and which
  users have a keep-alive channel. Each operation holds the mutex of its pool for its whole body and
  is one atomic step. The pools are maps; \<open>find(k) != end()\<close> is \<open>m k \<noteq> None\<close>.

  What the handlers rely on is stated by the locales \<open>keyed_pool\<close>, \<open>erasable_pool\<close> and \<open>channel_pool\<close>,
  each interpreted on the operations below.
\<close>

subsection \<open>Contracts\<close>

text \<open>
  A pool with a default: \<open>put\<close> stores, \<open>get\<close> returns what was stored last under a usable key, and the
  default otherwise.
\<close>

datatype ('k, 'v) pool_op = PutOp 'k 'v | EraseOp 'k

fun run_pool :: "('k \<Rightarrow> 'v \<Rightarrow> 's \<Rightarrow> 's) \<Rightarrow> ('k \<Rightarrow> 's \<Rightarrow> 's) \<Rightarrow> ('k, 'v) pool_op list \<Rightarrow> 's \<Rightarrow> 's" where
  "run_pool put erase [] s = s"
| "run_pool put erase (PutOp k v # ops) s = run_pool put erase ops (put k v s)"
| "run_pool put erase (EraseOp k # ops) s = run_pool put erase ops (erase k s)"

text \<open>The last operation on a key, if there is one, decides what the key holds.\<close>

fun last_value :: "'k \<Rightarrow> ('k, 'v) pool_op list \<Rightarrow> 'v option \<Rightarrow> 'v option" where
  "last_value k [] old = old"
| "last_value k (PutOp k' v # ops) old = last_value k ops (if k' = k then Some v else old)"
| "last_value k (EraseOp k' # ops) old = last_value k ops (if k' = k then None else old)"

locale keyed_pool =
  fixes entry :: "'s \<Rightarrow> 'k \<Rightarrow> 'v option"
    and put :: "'k \<Rightarrow> 'v \<Rightarrow> 's \<Rightarrow> 's"
    and get :: "'s \<Rightarrow> 'k \<Rightarrow> 'v"
    and usable :: "'k \<Rightarrow> bool"
    and dflt :: 'v
  assumes entry_put: "entry (put k v s) = (entry s)(k \<mapsto> v)"
    and get_entry: "get s k = (if usable k then case entry s k of Some v \<Rightarrow> v | None \<Rightarrow> dflt else dflt)"
begin

lemma get_put: "get (put k v s) k' = (if k' = k \<and> usable k then v else get s k')"
  by (simp add: get_entry entry_put)

lemma get_not_default: "get s k \<noteq> dflt \<Longrightarrow> usable k \<and> entry s k = Some (get s k)"
  by (auto simp: get_entry split: if_splits option.splits)

end

locale erasable_pool = keyed_pool +
  fixes erase :: "'b \<Rightarrow> 'a \<Rightarrow> 'a"
  assumes entry_erase: "entry (erase k s) = (entry s)(k := None)"
begin

lemma get_erase: "get (erase k s) k' = (if k' = k then dflt else get s k')"
  by (simp add: get_entry entry_erase)

lemma entry_run: "entry (run_pool put erase ops s) k = last_value k ops (entry s k)"
proof (induction ops arbitrary: s)
  case Nil
  then show ?case by simp
next
  case (Cons x ops)
  then show ?case by (cases x) (auto simp: entry_put entry_erase)
qed

lemma get_run:
  "usable k \<Longrightarrow> get (run_pool put erase ops s) k =
     (case last_value k ops (entry s k) of Some v \<Rightarrow> v | None \<Rightarrow> dflt)"
  by (simp add: get_entry entry_run)

end

text \<open>
  Channels: \<open>pending s u\<close> is the queue of the channel of user \<open>u\<close>, \<open>None\<close> when \<open>u\<close> has none. Connecting
  starts an empty queue (and drops what was queued before); posting appends, to users who have one.
\<close>

locale channel_pool =
  fixes pending :: "'s \<Rightarrow> 'u \<Rightarrow> 'p list option"
    and connect :: "'u \<Rightarrow> 'f \<Rightarrow> 's \<Rightarrow> 's"
    and post :: "'u \<Rightarrow> 'p \<Rightarrow> 's \<Rightarrow> 's"
    and nobody :: 'u
  assumes pending_connect: "pending (connect u fd s) u' = (if u' = u then Some [] else pending s u')"
    and pending_post: "pending (post u p s) u' =
      (if u' = u \<and> u \<noteq> nobody then map_option (\<lambda>q. q @ [p]) (pending s u) else pending s u')"
begin

lemma pending_post_list:
  assumes "u \<noteq> nobody"
  shows "pending (fold (post u) ps s) u = map_option (\<lambda>q. q @ ps) (pending s u)"
proof (induction ps arbitrary: s)
  case Nil
  then show ?case by (simp add: option.map_ident)
next
  case (Cons p ps)
  then show ?case using assms by (simp add: pending_post option.map_comp o_def)
qed

lemma connect_then_post:
  "u \<noteq> nobody \<Longrightarrow> pending (fold (post u) ps (connect u fd s)) u = Some ps"
  by (simp add: pending_post_list pending_connect)

lemma post_offline: "pending s u = None \<Longrightarrow> pending (post u p s) u' = pending s u'"
  by (simp add: pending_post)

end

subsection \<open>State\<close>

text \<open>\<open>Server::KeepAliveMsgSender\<close>: its thread runs \<open>run()\<close> (theory \<open>Keepalive\<close>) from construction on.\<close>

record 'a KeepAliveMsgSender =
  sender_fd :: int32
  sender_uid :: int32
  msg_queue :: "'a Packet ThreadsafeQueue"

record 'a Server =
  revc_socket_pool :: "string \<rightharpoonup> int32"
  challenge_pool :: "int32 \<rightharpoonup> string"
  keepalive_sender_mp :: "int32 \<rightharpoonup> 'a KeepAliveMsgSender"
  token_pool :: "string \<rightharpoonup> int32"
  file_msg_pool :: "string \<rightharpoonup> int32 \<times> Message"

definition empty_Server :: "'a Server" where
  "empty_Server =
     \<lparr>revc_socket_pool = Map.empty, challenge_pool = Map.empty, keepalive_sender_mp = Map.empty,
      token_pool = Map.empty, file_msg_pool = Map.empty\<rparr>"

subsection \<open>The sender's operations\<close>

definition make_sender :: "int32 \<Rightarrow> int32 \<Rightarrow> 'a KeepAliveMsgSender" where
  "make_sender uid fd = \<lparr>sender_fd = fd, sender_uid = uid, msg_queue = empty_queue\<rparr>"

definition getFd :: "'a KeepAliveMsgSender \<Rightarrow> int32" where
  "getFd sdr = sender_fd sdr"

definition setFd :: "int32 \<Rightarrow> 'a KeepAliveMsgSender \<Rightarrow> 'a KeepAliveMsgSender" where
  "setFd fd sdr = sdr\<lparr>sender_fd := fd\<rparr>"

definition addSendTask :: "'a Packet \<Rightarrow> 'a KeepAliveMsgSender \<Rightarrow> 'a KeepAliveMsgSender" where
  "addSendTask packet sdr = sdr\<lparr>msg_queue := Push (msg_queue sdr) packet\<rparr>"

definition sender_Clear :: "'a KeepAliveMsgSender \<Rightarrow> 'a KeepAliveMsgSender" where
  "sender_Clear sdr = sdr\<lparr>msg_queue := Clear (msg_queue sdr)\<rparr>"

subsection \<open>Operations\<close>

text \<open>Two stubs: no channel socket is ever found or recorded under a user's name.\<close>

definition getLongLifeSocket :: "string \<Rightarrow> int32" where
  "getLongLifeSocket user_id = 0"

definition setLongLifeSocket :: "string \<Rightarrow> int32 \<Rightarrow> 'a Server \<Rightarrow> int32 \<times> 'a Server" where
  "setLongLifeSocket user_id fd s = (0, s)"

definition setRevcSocketMp :: "string \<Rightarrow> int32 \<Rightarrow> 'a Server \<Rightarrow> 'a Server" where
  "setRevcSocketMp ipport fd s = s\<lparr>revc_socket_pool := (revc_socket_pool s)(ipport \<mapsto> fd)\<rparr>"

definition setChallengeMp :: "int32 \<Rightarrow> string \<Rightarrow> 'a Server \<Rightarrow> 'a Server" where
  "setChallengeMp i challenge s = s\<lparr>challenge_pool := (challenge_pool s)(i \<mapsto> challenge)\<rparr>"

definition getChallengeMp :: "'a Server \<Rightarrow> int32 \<Rightarrow> string" where
  "getChallengeMp s i = (case challenge_pool s i of Some c \<Rightarrow> c | None \<Rightarrow> [])"

definition delChallengeMp :: "int32 \<Rightarrow> 'a Server \<Rightarrow> 'a Server" where
  "delChallengeMp i s =
     (if challenge_pool s i \<noteq> None
      then s\<lparr>challenge_pool := (challenge_pool s)(i := None)\<rparr> else s)"

definition setKpAliveSender :: "int32 \<Rightarrow> int32 \<Rightarrow> 'a Server \<Rightarrow> 'a Server" where
  "setKpAliveSender uid fd s =
     (case keepalive_sender_mp s uid of
        Some sdr \<Rightarrow>
          s\<lparr>keepalive_sender_mp := (keepalive_sender_mp s)(uid \<mapsto> sender_Clear (setFd fd sdr))\<rparr>
      | None \<Rightarrow>
          s\<lparr>keepalive_sender_mp := (keepalive_sender_mp s)(uid \<mapsto> make_sender uid fd)\<rparr>)"

text \<open>
  Erasing a sender runs its destructor, which joins a thread whose loop never ends: the call does
  not return (and keeps the mutex). No code of the repository calls it.
\<close>

definition delKpAliveSender :: "int32 \<Rightarrow> 'a Server \<Rightarrow> 'a Server run" where
  "delKpAliveSender uid s =
     (if keepalive_sender_mp s uid \<noteq> None then Inl StillWaiting else Inr s)"

text \<open>The pointer that \<open>getSender\<close> returns is the pool's entry: \<open>None\<close> is the null pointer.\<close>

definition getSender :: "'a Server \<Rightarrow> int32 \<Rightarrow> 'a KeepAliveMsgSender option" where
  "getSender s i = (if i = 0 then None else keepalive_sender_mp s i)"

text \<open>\<open>auto *sender = getSender(uid); if (sender) sender->addSendTask(packet);\<close>\<close>

definition post_to :: "int32 \<Rightarrow> 'a Packet \<Rightarrow> 'a Server \<Rightarrow> 'a Server" where
  "post_to uid packet s =
     (case getSender s uid of
        Some sdr \<Rightarrow> s\<lparr>keepalive_sender_mp := (keepalive_sender_mp s)(uid \<mapsto> addSendTask packet sdr)\<rparr>
      | None \<Rightarrow> s)"

definition getUserIdByToken :: "'a Server \<Rightarrow> string \<Rightarrow> int32" where
  "getUserIdByToken s token =
     (if token = [] then 0 else case token_pool s token of Some uid \<Rightarrow> uid | None \<Rightarrow> 0)"

definition setUserIdByToken :: "string \<Rightarrow> int32 \<Rightarrow> 'a Server \<Rightarrow> 'a Server" where
  "setUserIdByToken token uid s = s\<lparr>token_pool := (token_pool s)(token \<mapsto> uid)\<rparr>"

definition isOnline :: "'a Server \<Rightarrow> int32 \<Rightarrow> bool" where
  "isOnline s uid = (getSender s uid \<noteq> None)"

definition setFileMsg :: "string \<Rightarrow> int32 \<Rightarrow> Message \<Rightarrow> 'a Server \<Rightarrow> 'a Server" where
  "setFileMsg fileid uid msg s = s\<lparr>file_msg_pool := (file_msg_pool s)(fileid \<mapsto> (uid, msg))\<rparr>"

definition delFileMsg :: "string \<Rightarrow> 'a Server \<Rightarrow> 'a Server" where
  "delFileMsg fileid s =
     (if file_msg_pool s fileid \<noteq> None
      then s\<lparr>file_msg_pool := (file_msg_pool s)(fileid := None)\<rparr> else s)"

definition getFileMsg :: "'a Server \<Rightarrow> string \<Rightarrow> int32 \<times> Message" where
  "getFileMsg s fileid =
     (case file_msg_pool s fileid of Some p \<Rightarrow> p | None \<Rightarrow> (0, default_Message))"

subsection \<open>What each operation changes\<close>

lemma delChallengeMp_eq: "delChallengeMp i s = s\<lparr>challenge_pool := (challenge_pool s)(i := None)\<rparr>"
  by (cases s) (auto simp: delChallengeMp_def fun_upd_idem)

lemma delFileMsg_eq: "delFileMsg i s = s\<lparr>file_msg_pool := (file_msg_pool s)(i := None)\<rparr>"
proof (cases "file_msg_pool s i = None")
  case True
  then have "(file_msg_pool s)(i := None) = file_msg_pool s" by (rule fun_upd_idem)
  with True show ?thesis by (simp add: delFileMsg_def)
qed (simp add: delFileMsg_def)

lemma setKpAliveSender_eq:
  "\<exists>sdr. setKpAliveSender uid fd s =
      s\<lparr>keepalive_sender_mp := (keepalive_sender_mp s)(uid \<mapsto> sdr)\<rparr> \<and>
    sender_fd sdr = fd \<and> items (msg_queue sdr) = []"
  by (auto simp: setKpAliveSender_def sender_Clear_def setFd_def make_sender_def empty_queue_def
      split: option.splits)

lemma token_pool_frame [frame_simps]:
  "token_pool (setRevcSocketMp a fd s) = token_pool s"
  "token_pool (setChallengeMp i c s) = token_pool s"
  "token_pool (delChallengeMp i s) = token_pool s"
  "token_pool (setKpAliveSender u fd s) = token_pool s"
  "token_pool (post_to u p s) = token_pool s"
  "token_pool (setFileMsg f u m s) = token_pool s"
  "token_pool (delFileMsg f s) = token_pool s"
  by (simp_all add: setRevcSocketMp_def setChallengeMp_def delChallengeMp_def setKpAliveSender_def
      post_to_def setFileMsg_def delFileMsg_def split: option.splits)

lemma challenge_pool_frame [frame_simps]:
  "challenge_pool (setRevcSocketMp a fd s) = challenge_pool s"
  "challenge_pool (setUserIdByToken t u s) = challenge_pool s"
  "challenge_pool (setKpAliveSender u fd s) = challenge_pool s"
  "challenge_pool (post_to u p s) = challenge_pool s"
  "challenge_pool (setFileMsg f u m s) = challenge_pool s"
  "challenge_pool (delFileMsg f s) = challenge_pool s"
  by (simp_all add: setRevcSocketMp_def setUserIdByToken_def setKpAliveSender_def
      post_to_def setFileMsg_def delFileMsg_def split: option.splits)

lemma file_msg_pool_frame [frame_simps]:
  "file_msg_pool (setRevcSocketMp a fd s) = file_msg_pool s"
  "file_msg_pool (setUserIdByToken t u s) = file_msg_pool s"
  "file_msg_pool (setChallengeMp i c s) = file_msg_pool s"
  "file_msg_pool (delChallengeMp i s) = file_msg_pool s"
  "file_msg_pool (setKpAliveSender u fd s) = file_msg_pool s"
  "file_msg_pool (post_to u p s) = file_msg_pool s"
  by (simp_all add: setRevcSocketMp_def setUserIdByToken_def setChallengeMp_def delChallengeMp_def
      setKpAliveSender_def post_to_def split: option.splits)

lemma keepalive_frame [frame_simps]:
  "keepalive_sender_mp (setRevcSocketMp a fd s) = keepalive_sender_mp s"
  "keepalive_sender_mp (setUserIdByToken t u s) = keepalive_sender_mp s"
  "keepalive_sender_mp (setChallengeMp i c s) = keepalive_sender_mp s"
  "keepalive_sender_mp (delChallengeMp i s) = keepalive_sender_mp s"
  "keepalive_sender_mp (setFileMsg f u m s) = keepalive_sender_mp s"
  "keepalive_sender_mp (delFileMsg f s) = keepalive_sender_mp s"
  by (simp_all add: setRevcSocketMp_def setUserIdByToken_def setChallengeMp_def delChallengeMp_def
      setFileMsg_def delFileMsg_def)

text \<open>The same for what the handlers read.\<close>

lemma getUserIdByToken_frame:
  "token_pool s' = token_pool s \<Longrightarrow> getUserIdByToken s' = getUserIdByToken s"
  by (simp add: getUserIdByToken_def fun_eq_iff)

lemma getChallengeMp_frame:
  "challenge_pool s' = challenge_pool s \<Longrightarrow> getChallengeMp s' = getChallengeMp s"
  by (simp add: getChallengeMp_def fun_eq_iff)

lemma getFileMsg_frame:
  "file_msg_pool s' = file_msg_pool s \<Longrightarrow> getFileMsg s' = getFileMsg s"
  by (simp add: getFileMsg_def fun_eq_iff)

subsection \<open>The operations satisfy the contracts\<close>

interpretation tokens: keyed_pool token_pool setUserIdByToken getUserIdByToken "\<lambda>t. t \<noteq> []" 0
  by unfold_locales (auto simp: setUserIdByToken_def getUserIdByToken_def)

interpretation challenges: erasable_pool challenge_pool setChallengeMp getChallengeMp "\<lambda>i. True" "[]"
    delChallengeMp
  by unfold_locales (auto simp: setChallengeMp_def getChallengeMp_def delChallengeMp_eq)

interpretation file_msgs: erasable_pool file_msg_pool "\<lambda>i (u, m). setFileMsg i u m" getFileMsg
    "\<lambda>i. True" "(0, default_Message)" delFileMsg
  by unfold_locales (auto simp: setFileMsg_def getFileMsg_def delFileMsg_eq)

text \<open>What is queued for a user's channel.\<close>

definition pending_packets :: "'a Server \<Rightarrow> int32 \<Rightarrow> 'a Packet list option" where
  "pending_packets s uid = map_option (\<lambda>sdr. items (msg_queue sdr)) (keepalive_sender_mp s uid)"

interpretation channels: channel_pool pending_packets setKpAliveSender post_to 0
  by unfold_locales
    (auto simp: pending_packets_def setKpAliveSender_def post_to_def getSender_def addSendTask_def
      sender_Clear_def setFd_def make_sender_def empty_queue_def option.map_comp o_def
      split: option.splits)

lemma getFd_setFd [simp]: "getFd (setFd fd sdr) = fd" "getFd (addSendTask p sdr) = getFd sdr"
  "getFd (sender_Clear sdr) = getFd sdr" "getFd (make_sender uid fd) = fd"
  by (simp_all add: getFd_def setFd_def addSendTask_def sender_Clear_def make_sender_def)

lemma isOnline_iff: "isOnline s uid \<longleftrightarrow> uid \<noteq> 0 \<and> pending_packets s uid \<noteq> None"
  by (simp add: isOnline_def getSender_def pending_packets_def)

lemma post_to_offline: "\<not> isOnline s uid \<Longrightarrow> post_to uid p s = s"
  by (simp add: isOnline_def post_to_def)

lemma sender_fd_post_to:
  "map_option sender_fd (keepalive_sender_mp (post_to u p s) u') =
   map_option sender_fd (keepalive_sender_mp s u')"
  by (auto simp: post_to_def getSender_def addSendTask_def split: option.splits)

lemma sender_fd_setKpAliveSender:
  "map_option sender_fd (keepalive_sender_mp (setKpAliveSender u fd s) u') =
   (if u' = u then Some fd else map_option sender_fd (keepalive_sender_mp s u'))"
  using setKpAliveSender_eq [of u fd s] by auto

subsection \<open>Properties\<close>

text \<open>
  A token identifies the user it was issued to last, and only a token that was issued
  identifies a user: the empty token and unknown tokens give the user id 0.
\<close>

theorem token_identifies_user:
  "getUserIdByToken (setUserIdByToken t u s) t' =
     (if t' = t \<and> t \<noteq> [] then u else getUserIdByToken s t') \<and>
   (getUserIdByToken s t' \<noteq> 0 \<longrightarrow> t' \<noteq> [] \<and> token_pool s t' = Some (getUserIdByToken s t'))"
  using tokens.get_put [of t u s t'] tokens.get_not_default [of s t'] by blast

theorem token_identifies_user_witness:
  "getUserIdByToken (setUserIdByToken ''t'' 7 (empty_Server :: string Server)) ''t'' = 7 \<and>
   token_pool (setUserIdByToken ''t'' 7 (empty_Server :: string Server)) ''t'' = Some 7"
proof -
  have get: "getUserIdByToken (setUserIdByToken ''t'' 7 (empty_Server :: string Server)) ''t'' = 7"
    using token_identifies_user [of "''t''" 7 "empty_Server :: string Server" "''t''"] by simp
  then have "getUserIdByToken (setUserIdByToken ''t'' 7 (empty_Server :: string Server)) ''t'' \<noteq> 0" by simp
  then show ?thesis
    using get token_identifies_user [of "''t''" 7 _ "''t''"] by metis
qed

text \<open>
  Whatever challenges are set and deleted, in whatever order and for whichever users, a user's
  challenge is the one set last, and empty when there is none or it was deleted since; and the
  pending file messages behave in the same way.
\<close>

theorem pool_last_operation:
  "getChallengeMp (run_pool setChallengeMp delChallengeMp ops s) i =
     (case last_value i ops (challenge_pool s i) of Some c \<Rightarrow> c | None \<Rightarrow> []) \<and>
   getFileMsg (run_pool (\<lambda>i (u, m). setFileMsg i u m) delFileMsg fops s) f =
     (case last_value f fops (file_msg_pool s f) of Some p \<Rightarrow> p | None \<Rightarrow> (0, default_Message))"
  by (simp add: challenges.get_run file_msgs.get_run)

text \<open>
  A user who (re)connects starts with an empty queue on the new socket, everything posted to
  them afterwards is queued in order, and nobody else's queue or socket changes; user 0 is never
  online, and posting to a user who is not online changes nothing.
\<close>

theorem channel_queue_correct:
  "(u \<noteq> 0 \<longrightarrow> pending_packets (fold (post_to u) ps (setKpAliveSender u fd s)) u = Some ps) \<and>
   map_option sender_fd (keepalive_sender_mp (setKpAliveSender u fd s) u) = Some fd \<and>
   (u' \<noteq> u \<longrightarrow> pending_packets (setKpAliveSender u fd s) u' = pending_packets s u' \<and>
     pending_packets (post_to u p s) u' = pending_packets s u') \<and>
   \<not> isOnline s 0 \<and> (\<not> isOnline s u \<longrightarrow> post_to u p s = s)"
  using channels.connect_then_post [of u ps fd s] channels.pending_connect [of u fd s u']
    channels.pending_post [of u p s u'] post_to_offline [of s u p]
  by (auto simp: sender_fd_setKpAliveSender isOnline_iff)

theorem channel_queue_correct_witness:
  "pending_packets (fold (post_to 1) [default_Packet, default_Packet]
     (setKpAliveSender 1 5 (empty_Server :: string Server))) 1 =
   Some [default_Packet, default_Packet]"
proof -
  have "(1 :: int32) \<noteq> 0" by simp
  then show ?thesis
    using channel_queue_correct [of 1 "[default_Packet, default_Packet]" 5 empty_Server] by blast
qed

end
