(* ===== verification/Van.thy ===== *)
theory Van
  imports Messages Threadsafe_Queue
begin

text \<open>
  \<open>include/van.h\<close>, \<open>src/van.cpp\<close> and the transport part of \<open>src/Server/server_van.h\<close>: sending and receiving
  packets over sockets, and the control commands. What the kernel answers to the calls is an input:
  a list of answers for a loop, in the order of the calls. A loop that is still running when its
  answers are used up is \<open>StillWaiting\<close>. The calls that change the kernel's state are recorded in the
  ghost field \<open>van_calls\<close>, oldest first.
\<close>

subsection \<open>State\<close>

definition kMaxMessageSize :: nat where
  "kMaxMessageSize = 1024 * 1024"

text \<open>The number of workers.\<close>

definition revc_socket_pool_thread_num :: nat where
  "revc_socket_pool_thread_num = 10"

datatype os_call =
    CallSend int32 string   \<comment> \<open>the bytes that went out on the socket\<close>
  | CallEpollAdd int32
  | CallEpollDel int32
  | CallClose int32

record 'a ServerVan =
  van_socket :: int32
  epoll_fd :: int32
  send_bytes :: "64 word"
  recv_bytes :: "64 word"
  RecvSocketQueue :: "int32 ThreadsafeQueue"
  KeepAliveQueue :: "(int32 \<times> 'a Packet) ThreadsafeQueue"
  van_calls :: "os_call list"

definition log_call :: "os_call \<Rightarrow> 'a ServerVan \<Rightarrow> 'a ServerVan" where
  "log_call c v = v\<lparr>van_calls := van_calls v @ [c]\<rparr>"

subsection \<open>Sending\<close>

text \<open>
  \<open>SendTakes k\<close>: the kernel accepts \<open>k\<close> bytes, or all that were offered when these are fewer.
  \<open>SendFails\<close>: \<open>send\<close> returns \<open>-1\<close>, whatever \<open>errno\<close> is.
\<close>

datatype send_answer = SendTakes nat | SendFails

text \<open>\<open>send_loop buf bytes answers\<close>: the loop with \<open>bytes\<close> sent so far; \<open>None\<close> when a send failed.\<close>

fun send_loop :: "string \<Rightarrow> nat \<Rightarrow> send_answer list \<Rightarrow> (nat option \<times> nat \<times> send_answer list) run" where
  "send_loop buf bytes [] =
     (if bytes < length buf then Inl StillWaiting else Inr (Some bytes, bytes, []))"
| "send_loop buf bytes (a # answers) =
     (if bytes < length buf
      then (case a of
              SendFails \<Rightarrow> Inr (None, bytes, answers)
            | SendTakes k \<Rightarrow> send_loop buf (bytes + min k (length buf - bytes)) answers)
      else Inr (Some bytes, bytes, a # answers))"

text \<open>
  The result is the return value, the bytes that went out and the unused answers. The result of
  \<open>SerializeToArray\<close> is ignored and \<open>len\<close> is \<open>ByteSizeLong\<close>: for a packet that does not fit the
  buffer, \<open>send\<close> is asked to read past the end of the array.
\<close>

definition SendMesg :: "'a wire_codec \<Rightarrow> 'a Packet \<Rightarrow> send_answer list \<Rightarrow>
    (int \<times> string \<times> send_answer list) run" where
  "SendMesg wc msg answers =
     (let buf = SerializeToArray wc msg in
      if length buf > kMaxMessageSize then Inl (UndefinedBehaviour ''send reads past buf'')
      else rbind (send_loop buf 0 answers) (\<lambda>(r, sent, rest).
        Inr (case r of None \<Rightarrow> -1 | Some n \<Rightarrow> int n, take sent buf, rest)))"

definition Van_Send :: "'a wire_codec \<Rightarrow> 'a Packet \<Rightarrow> int32 \<Rightarrow> send_answer list \<Rightarrow> 'a ServerVan \<Rightarrow>
    (int \<times> 'a ServerVan) run" where
  "Van_Send wc msg fd answers v =
     rbind (SendMesg wc msg answers) (\<lambda>(ret, sent, rest).
       let v = log_call (CallSend fd sent) v in
       if ret = -1 then Inr (-1, v)
       else Inr (ret, v\<lparr>send_bytes := send_bytes v + word_of_int ret\<rparr>))"

text \<open>
  The overloads that name the peer by a string are stubs: \<open>ServerVan::SendMesg(msg, to, from)\<close> sends
  nothing and returns 0, which \<open>Van::Send(msg, to, from)\<close> counts and returns.
\<close>

definition SendMesg_named :: "'a Packet \<Rightarrow> string \<Rightarrow> string \<Rightarrow> int" where
  "SendMesg_named msg recipient sender = 0"

definition Van_Send_named :: "'a Packet \<Rightarrow> string \<Rightarrow> string \<Rightarrow> 'a ServerVan \<Rightarrow> int \<times> 'a ServerVan" where
  "Van_Send_named msg recipient sender v =
     (let ret = SendMesg_named msg recipient sender in
      if ret = -1 then (-1, v) else (ret, v\<lparr>send_bytes := send_bytes v + word_of_int ret\<rparr>))"

subsection \<open>Receiving\<close>

text \<open>
  \<open>RecvData s\<close>: the kernel has the bytes \<open>s\<close>, of which it gives as many as were asked for; no bytes
  is a return value of 0, as for \<open>RecvClosed\<close>.
\<close>

datatype recv_answer = RecvData string | RecvClosed | RecvWouldBlock | RecvFails

fun recv_loop :: "string \<Rightarrow> recv_answer list \<Rightarrow> string option run" where
  "recv_loop buf [] = Inl StillWaiting"
| "recv_loop buf (RecvFails # answers) = Inr None"
| "recv_loop buf (RecvWouldBlock # answers) = Inr (Some buf)"
| "recv_loop buf (RecvClosed # answers) = Inr (Some buf)"
| "recv_loop buf (RecvData s # answers) =
     (let got = take (kMaxMessageSize - length buf) s in
      if got = [] then Inr (Some buf)
      else if length buf + length got \<ge> kMaxMessageSize then Inr None
      else recv_loop (buf @ got) answers)"

text \<open>The return value, and the packet when one was parsed.\<close>

definition RecvMesg :: "'a wire_codec \<Rightarrow> recv_answer list \<Rightarrow> (int \<times> 'a Packet option) run" where
  "RecvMesg wc answers =
     rbind (recv_loop [] answers) (\<lambda>r.
       case r of
         None \<Rightarrow> Inr (-1, None)
       | Some bytes \<Rightarrow>
           (case ParseFromArray wc bytes of
              None \<Rightarrow> Inr (-1, None)
            | Some msg \<Rightarrow> Inr (int (length bytes), Some msg)))"

definition Van_Recv :: "'a wire_codec \<Rightarrow> recv_answer list \<Rightarrow> 'a ServerVan \<Rightarrow>
    (int \<times> 'a Packet option \<times> 'a ServerVan) run" where
  "Van_Recv wc answers v =
     rbind (RecvMesg wc answers) (\<lambda>(ret, msg).
       if ret = -1 then Inr (-1, msg, v)
       else Inr (ret, msg, v\<lparr>recv_bytes := recv_bytes v + word_of_int ret\<rparr>))"

subsection \<open>Control\<close>

text \<open>\<open>del_ok\<close>: \<open>epoll_ctl\<close> did not fail; a failure is logged as \<open>FATAL\<close>, which aborts.\<close>

definition controlEpollDel :: "bool \<Rightarrow> int32 \<Rightarrow> 'a ServerVan \<Rightarrow> (int \<times> 'a ServerVan) run" where
  "controlEpollDel del_ok fd v =
     (if del_ok then Inr (0, log_call (CallEpollDel fd) v)
      else Inl (FatalLog ''epoll_ctl del client socket failed''))"

definition Control :: "bool \<Rightarrow> int \<Rightarrow> int32 \<Rightarrow> string \<Rightarrow> 'a ServerVan \<Rightarrow> (int \<times> 'a ServerVan) run" where
  "Control del_ok close_ret dst cmd v =
     (if cmd = ''EPOLL_DEL_FD'' then controlEpollDel del_ok dst v
      else if cmd = ''CLOSE_FD'' then Inr (close_ret, log_call (CallClose dst) v)
      else Inr (-1, v))"

text \<open>\<open>ServerVan::addSendTask\<close>: no thread reads this queue.\<close>

definition Van_addSendTask :: "int32 \<Rightarrow> 'a Packet \<Rightarrow> 'a ServerVan \<Rightarrow> 'a ServerVan" where
  "Van_addSendTask fd msg v = v\<lparr>KeepAliveQueue := Push (KeepAliveQueue v) (fd, msg)\<rparr>"

subsection \<open>The sending loop\<close>

lemma send_loop_result:
  assumes "send_loop buf bytes answers = Inr (r, sent, rest)" and "bytes \<le> length buf"
  shows "sent \<le> length buf \<and> (r = Some sent \<and> sent = length buf \<or> r = None \<and> sent < length buf)"
  using assms
proof (induction answers arbitrary: bytes)
  case Nil
  then show ?case by (auto split: if_splits)
next
  case (Cons a answers)
  show ?case
  proof (cases "bytes < length buf")
    case True
    with Cons show ?thesis by (cases a) auto
  next
    case False
    with Cons.prems show ?thesis by auto
  qed
qed

text \<open>Enough for the loop to end: answers that, one byte each, add up to what is left.\<close>

lemma send_loop_ends:
  assumes "length buf - bytes \<le> length answers" and "\<forall>a \<in> set answers. a \<noteq> SendTakes 0"
  shows "\<exists>x. send_loop buf bytes answers = Inr x"
  using assms
proof (induction answers arbitrary: bytes)
  case Nil
  then show ?case by simp
next
  case (Cons a answers)
  show ?case
  proof (cases "bytes < length buf")
    case True
    show ?thesis
    proof (cases a)
      case (SendTakes k)
      with Cons.prems have "0 < k" by auto
      then have "length buf - (bytes + min k (length buf - bytes)) \<le> length answers"
        using Cons.prems(1) True by (simp add: min_def) linarith
      then show ?thesis using Cons.IH Cons.prems(2) SendTakes True by simp
    qed (use True in simp)
  qed simp
qed

lemma send_loop_no_fail:
  assumes "send_loop buf bytes answers = Inr (r, sent, rest)" and "SendFails \<notin> set answers"
  shows "r \<noteq> None"
  using assms
proof (induction answers arbitrary: bytes)
  case Nil
  then show ?case by (auto split: if_splits)
next
  case (Cons a answers)
  then show ?case by (cases a) (auto split: if_splits)
qed

lemma SendMesg_cases:
  assumes "SendMesg wc msg answers = Inr (ret, sent, rest)"
  obtains (all) "ret = int (length (SerializeToArray wc msg))" "sent = SerializeToArray wc msg"
  | (failed) k where "ret = -1" "sent = take k (SerializeToArray wc msg)"
      "k < length (SerializeToArray wc msg)" "SendFails \<in> set answers"
proof -
  let ?buf = "SerializeToArray wc msg"
  obtain r n where l: "send_loop ?buf 0 answers = Inr (r, n, rest)"
    and ret: "ret = (case r of None \<Rightarrow> -1 | Some n \<Rightarrow> int n)" and sent: "sent = take n ?buf"
    using assms by (auto simp: SendMesg_def Let_def split: if_splits)
  have "n \<le> length ?buf \<and> (r = Some n \<and> n = length ?buf \<or> r = None \<and> n < length ?buf)"
    by (rule send_loop_result [OF l]) simp
  then consider "r = Some n" "n = length ?buf" | "r = None" "n < length ?buf" by blast
  then show thesis
  proof cases
    case 1
    then show ?thesis using all ret sent by simp
  next
    case 2
    then have "SendFails \<in> set answers" using send_loop_no_fail [OF l] by blast
    with 2 show ?thesis using failed [of n] ret sent by simp
  qed
qed

lemma SendMesg_ok:
  assumes "length (SerializeToArray wc msg) \<le> kMaxMessageSize"
    and "length (SerializeToArray wc msg) \<le> length answers"
    and "SendTakes 0 \<notin> set answers" and "SendFails \<notin> set answers"
  shows "\<exists>rest. SendMesg wc msg answers =
    Inr (int (length (SerializeToArray wc msg)), SerializeToArray wc msg, rest)"
proof -
  let ?buf = "SerializeToArray wc msg"
  have "\<exists>x. send_loop ?buf 0 answers = Inr x"
    by (rule send_loop_ends) (use assms in auto)
  then obtain r n rest where l: "send_loop ?buf 0 answers = Inr (r, n, rest)" by auto
  have "r = Some (length ?buf)" "n = length ?buf"
    using send_loop_result [OF l] send_loop_no_fail [OF l assms(4)] by auto
  with l assms(1) show ?thesis by (simp add: SendMesg_def Let_def)
qed

subsection \<open>The receiving loop\<close>

text \<open>Data that stays below the limit is collected, in order, up to the first answer without data.\<close>

lemma recv_loop_data:
  assumes "\<forall>s \<in> set chunks. s \<noteq> []" and "length buf + length (concat chunks) < kMaxMessageSize"
  shows "recv_loop buf (map RecvData chunks @ answers) = recv_loop (buf @ concat chunks) answers"
  using assms by (induction chunks arbitrary: buf) (simp_all add: Let_def)

text \<open>Data that reaches the limit is refused, even when it is exactly as long as the buffer.\<close>

lemma recv_loop_too_large:
  assumes "\<forall>s \<in> set chunks. s \<noteq> []" and "length buf < kMaxMessageSize"
    and "length buf + length (concat chunks) \<ge> kMaxMessageSize"
  shows "recv_loop buf (map RecvData chunks @ answers) = Inr None"
  using assms
proof (induction chunks arbitrary: buf)
  case Nil
  then show ?case by simp
next
  case (Cons s chunks)
  then show ?case by (cases "length buf + length s \<ge> kMaxMessageSize") (auto simp: Let_def)
qed

lemma recv_loop_bound:
  "recv_loop buf answers = Inr (Some bytes) \<Longrightarrow> length buf < kMaxMessageSize \<Longrightarrow>
   length bytes < kMaxMessageSize"
  by (induction buf answers rule: recv_loop.induct) (auto simp: Let_def split: if_splits)

lemma recv_loop_ends:
  assumes "\<exists>a \<in> set answers. \<forall>s. a \<noteq> RecvData s"
  shows "\<exists>x. recv_loop buf answers = Inr x"
  using assms by (induction buf answers rule: recv_loop.induct) (auto simp: Let_def)

lemma RecvMesg_ret:
  assumes "RecvMesg wc answers = Inr (ret, msg)"
  shows "(ret = -1 \<longleftrightarrow> msg = None) \<and> -1 \<le> ret \<and> ret < int kMaxMessageSize"
proof -
  obtain r where r: "recv_loop [] answers = Inr r" using assms by (auto simp: RecvMesg_def)
  show ?thesis
  proof (cases r)
    case None
    with assms r show ?thesis by (auto simp: RecvMesg_def)
  next
    case (Some bytes)
    have "length bytes < kMaxMessageSize"
      by (rule recv_loop_bound [of "[]" answers]) (use r Some in \<open>simp_all add: kMaxMessageSize_def\<close>)
    with assms r Some show ?thesis
      by (cases "ParseFromArray wc bytes") (auto simp: RecvMesg_def dest: sym)
  qed
qed

lemma RecvMesg_chunks:
  assumes laws: "wire_codec_laws wc" and "length (SerializeToArray wc msg) < kMaxMessageSize"
    and "concat chunks = SerializeToArray wc msg" "[] \<notin> set chunks"
    and "stop \<in> {RecvClosed, RecvWouldBlock}"
  shows "RecvMesg wc (map RecvData chunks @ stop # later) =
    Inr (int (length (SerializeToArray wc msg)), Some msg)"
proof -
  have "recv_loop [] (map RecvData chunks @ stop # later) = recv_loop ([] @ concat chunks) (stop # later)"
    by (rule recv_loop_data) (use assms in auto)
  then have "recv_loop [] (map RecvData chunks @ stop # later) = Inr (Some (SerializeToArray wc msg))"
    using assms by auto
  then show ?thesis by (simp add: RecvMesg_def wire_codec_laws.parse_serialize [OF laws])
qed

subsection \<open>Properties\<close>

text \<open>
  C36: Sending a packet puts on the socket exactly its serialisation and returns its length, or it
  fails with -1 after a proper prefix of it; a kernel that takes at least one byte per call and
  gives enough answers lets the loop end; and the call reads past its buffer exactly for packets
  of more than one megabyte.
\<close>

theorem SendMesg_correct:
  "(\<forall>ret sent rest. SendMesg wc msg answers = Inr (ret, sent, rest) \<longrightarrow>
      ret = int (length (SerializeToArray wc msg)) \<and> sent = SerializeToArray wc msg \<or>
      ret = -1 \<and> (\<exists>k < length (SerializeToArray wc msg). sent = take k (SerializeToArray wc msg))) \<and>
   (length (SerializeToArray wc msg) \<le> kMaxMessageSize \<and>
      length (SerializeToArray wc msg) \<le> length answers \<and> SendTakes 0 \<notin> set answers \<longrightarrow>
      (\<exists>x. SendMesg wc msg answers = Inr x)) \<and>
   ((\<exists>e. SendMesg wc msg answers = Inl (UndefinedBehaviour e)) \<longleftrightarrow>
      kMaxMessageSize < length (SerializeToArray wc msg))"
proof -
  let ?buf = "SerializeToArray wc msg"
  have "send_loop ?buf b answers \<noteq> Inl (UndefinedBehaviour e)" for b e
    by (induction answers arbitrary: b) (auto split: send_answer.splits)
  then have ub: "(\<exists>e. SendMesg wc msg answers = Inl (UndefinedBehaviour e)) \<longleftrightarrow>
      kMaxMessageSize < length ?buf"
    by (auto simp: SendMesg_def Let_def rbind_eq_Inl_iff)
  have ends: "\<exists>x. SendMesg wc msg answers = Inr x"
    if "length ?buf \<le> kMaxMessageSize" "length ?buf \<le> length answers" "SendTakes 0 \<notin> set answers"
  proof -
    have "\<exists>x. send_loop ?buf 0 answers = Inr x"
      by (rule send_loop_ends) (use that in auto)
    then show ?thesis using that(1) by (auto simp: SendMesg_def Let_def)
  qed
  show ?thesis using ub ends by (auto elim!: SendMesg_cases)
qed

theorem SendMesg_correct_witness:
  "\<exists>x. SendMesg plain_wire \<lparr>packetId = 4, packet_content = Some ''x''\<rparr>
     (replicate 40 (SendTakes 7)) = Inr x"
proof -
  let ?p = "\<lparr>packetId = 4, packet_content = Some ''x''\<rparr>"
  have "length (SerializeToArray plain_wire ?p) = 34"
    by (simp add: plain_wire_def plain_serialize_def)
  then show ?thesis
    using SendMesg_correct [of plain_wire ?p "replicate 40 (SendTakes 7)"]
    by (simp add: kMaxMessageSize_def)
qed

text \<open>
  C20: What one side sends completely and the other side reads up to the moment its socket has no more
  data (or is closed), in any non-empty chunks. When the whole packet has arrived by then and is
  shorter than one megabyte, it is received as the same packet, with its length as the return value;
  a packet of exactly one megabyte can be sent but is refused by the receiver, however it arrives.
  When only a part has arrived, that part alone is parsed: the receiver does not wait for the rest,
  and answers -1 without a packet when the part does not parse.
\<close>

theorem packet_crosses_the_wire:
  assumes laws: "wire_codec_laws wc"
    and send: "SendMesg wc msg answers = Inr (ret, sent, rest)" and ok: "0 \<le> ret"
    and chunks: "prefix (concat chunks) sent" "[] \<notin> set chunks"
    and stop: "stop \<in> {RecvClosed, RecvWouldBlock}"
  shows "(if concat chunks = sent
     then (length (SerializeToArray wc msg) < kMaxMessageSize \<longrightarrow>
         RecvMesg wc (map RecvData chunks @ stop # later) = Inr (ret, Some msg)) \<and>
       (length (SerializeToArray wc msg) = kMaxMessageSize \<longrightarrow>
         RecvMesg wc (map RecvData chunks @ stop # later) = Inr (-1, None))
     else RecvMesg wc (map RecvData chunks @ stop # later) =
       Inr (case ParseFromArray wc (concat chunks) of
              None \<Rightarrow> (-1, None)
            | Some part \<Rightarrow> (int (length (concat chunks)), Some part)))"
proof -
  let ?buf = "SerializeToArray wc msg"
  have sent: "sent = ?buf" "ret = int (length ?buf)"
    by (cases rule: SendMesg_cases [OF send]; use ok in simp)+
  have fits: "length ?buf \<le> kMaxMessageSize"
    by (rule ccontr) (use send in \<open>simp add: SendMesg_def\<close>)
  show ?thesis
  proof (cases "concat chunks = sent")
    case True
    have "recv_loop [] (map RecvData chunks @ stop # later) = Inr None"
      if "length ?buf = kMaxMessageSize"
      by (rule recv_loop_too_large) (use that chunks True sent in \<open>auto simp: kMaxMessageSize_def\<close>)
    then show ?thesis
      using True sent RecvMesg_chunks [OF laws _ _ chunks(2) stop] by (simp add: RecvMesg_def)
  next
    case False
    then have "length (concat chunks) < length sent"
      using chunks(1) by (metis prefix_length_less strict_prefixI)
    then have "recv_loop [] (map RecvData chunks @ stop # later) = recv_loop ([] @ concat chunks) (stop # later)"
      using sent(1) fits chunks(2) by (intro recv_loop_data) (auto simp del: length_concat)
    then have "recv_loop [] (map RecvData chunks @ stop # later) = Inr (Some (concat chunks))"
      using stop by auto
    with False show ?thesis by (simp add: RecvMesg_def split: option.split)
  qed
qed

theorem packet_crosses_the_wire_witness:
  "\<exists>sent rest. SendMesg plain_wire \<lparr>packetId = 4, packet_content = Some ''x''\<rparr>
      (replicate 40 (SendTakes 7)) = Inr (34, sent, rest) \<and>
    RecvMesg plain_wire (map RecvData [take 20 sent, drop 20 sent] @ [RecvClosed]) =
      Inr (34, Some \<lparr>packetId = 4, packet_content = Some ''x''\<rparr>)"
proof -
  let ?p = "\<lparr>packetId = 4, packet_content = Some ''x''\<rparr>"
  have len: "length (SerializeToArray plain_wire ?p) = 34"
    by (simp add: plain_wire_def plain_serialize_def)
  obtain sent rest where s: "SendMesg plain_wire ?p (replicate 40 (SendTakes 7)) = Inr (34, sent, rest)"
    using SendMesg_ok [of plain_wire ?p "replicate 40 (SendTakes 7)"]
    by (auto simp: len kMaxMessageSize_def)
  have l: "length sent = 34" by (cases rule: SendMesg_cases [OF s]; use len in simp)
  have c: "concat [take 20 sent, drop 20 sent] = sent" by simp
  then have pre: "prefix (concat [take 20 sent, drop 20 sent]) sent" by simp
  have "take 20 sent \<noteq> []" "drop 20 sent \<noteq> []" using l by (simp_all only: flip: length_0_conv) simp_all
  then have n: "[] \<notin> set [take 20 sent, drop 20 sent]" by simp
  have "RecvMesg plain_wire (map RecvData [take 20 sent, drop 20 sent] @ RecvClosed # []) = Inr (34, Some ?p)"
    using packet_crosses_the_wire [OF plain_w.wire_codec_laws_axioms s _ pre n, of RecvClosed "[]"] len c
    by (simp add: kMaxMessageSize_def del: list.map)
  then show ?thesis using s by blast
qed

text \<open>
  C37: Receiving returns on every sequence of answers in which the socket at some point has no data,
  is closed or fails; what it returns is either -1 without a packet, or a length below one
  megabyte with the packet parsed from the bytes.
\<close>

theorem RecvMesg_total:
  assumes "\<exists>a \<in> set answers. \<forall>s. a \<noteq> RecvData s"
  shows "\<exists>ret msg. RecvMesg wc answers = Inr (ret, msg) \<and> (ret = -1 \<longleftrightarrow> msg = None) \<and>
    -1 \<le> ret \<and> ret < int kMaxMessageSize"
proof -
  obtain r where "recv_loop [] answers = Inr r" using recv_loop_ends [OF assms] by blast
  then have "\<exists>ret msg. RecvMesg wc answers = Inr (ret, msg)"
    by (auto simp: RecvMesg_def split: option.splits)
  then show ?thesis using RecvMesg_ret by blast
qed

theorem RecvMesg_total_witness:
  "\<exists>ret msg. RecvMesg plain_wire [RecvData ''ab'', RecvWouldBlock] = Inr (ret, msg)"
  using RecvMesg_total [of "[RecvData ''ab'', RecvWouldBlock]" plain_wire] by auto

end
