(* ===== verification/Server_Handlers.thy ===== *)
theory Server_Handlers
  imports Db_Access User_Manager Van
begin

text \<open>
  \<open>Server::processRecvSocket\<close> of \<open>src/Server/Server.cpp\<close>: one request of one client. Each \<open>case\<close> of its
  \<open>switch\<close> is a definition \<open>on_X\<close> that yields the reply, the callback to run once the reply was sent,
  and the new state; the callbacks are a datatype, run by \<open>run_callback\<close>. An early \<open>break\<close> is a branch
  that replies at once.
\<close>

subsection \<open>State and environment\<close>

text \<open>The libraries the program is linked with.\<close>

record ('a, 'd) env =
  env_sql :: "'d sqlite"
  env_any :: "'a any_codec"
  env_wire :: "'a wire_codec"
  env_crypto :: crypto_lib

text \<open>
  What one request gets from outside: the answers of the kernel to \<open>recv\<close>, \<open>send\<close>, \<open>epoll_ctl\<close> and
  \<open>close\<close>, the clock, what other threads do to \<open>rand\<close>, the random UUID, the answers of the file system,
  and whether a thread can be started. A request draws at most one UUID. \<open>io_locals_kept\<close>: the stack still
  holds the local variables of the blocks that were left (see \<open>read_captured\<close>).
\<close>

record io =
  io_recv :: "recv_answer list"
  io_send :: "send_answer list"
  io_del_ok :: bool
  io_close_ret :: int
  io_now :: int
  io_rand :: "(nat \<Rightarrow> nat) option"
  io_uuid :: string
  io_disk :: disk_io
  io_thread_ok :: bool
  io_locals_kept :: bool

record ('a, 'd) world =
  w_server :: "'a Server"
  w_db :: 'd
  w_disk :: disk
  w_van :: "'a ServerVan"

text \<open>
  The lambdas assigned to \<open>cb\<close>, with the values they use. The lambdas for a channel and for a text
  message capture block-local variables (\<open>uid\<close>, \<open>receiver_id\<close>) by reference; these carry the values the
  variables last had, and reading them is undefined unless the stack still holds them (\<open>read_captured\<close>).
\<close>

datatype callback =
    NoCallback
  | SetupChannelCallback int32
  | FileMsgCallback string int32 Message
  | ForwardCallback int32 Message
  | FileUploadedCallback string

type_synonym ('a, 'd) handled = "('a Packet \<times> callback \<times> ('a, 'd) world) run"

subsection \<open>Requests and replies\<close>

text \<open>A default request object, overwritten by \<open>pkt.content().UnpackTo(&request)\<close>.\<close>

definition unpacked :: "('a any_codec \<Rightarrow> 'a \<Rightarrow> 'r) \<Rightarrow> 'r \<Rightarrow> ('a, 'd) env \<Rightarrow> 'a Packet \<Rightarrow> 'r" where
  "unpacked unpack dflt env pkt =
     (case packet_content pkt of None \<Rightarrow> dflt | Some a \<Rightarrow> unpack (env_any env) a)"

definition new_packet :: "('a, 'd) env \<Rightarrow> PacketType \<Rightarrow> body \<Rightarrow> 'a Packet" where
  "new_packet env ptype response = packToPacket (env_any env) ptype response default_Packet"

subsection \<open>Status\<close>

definition on_ServerStatusRequest :: "('a, 'd) env \<Rightarrow> ('a, 'd) world \<Rightarrow> ('a, 'd) handled" where
  "on_ServerStatusRequest env w =
     Inr (new_packet env ServerStatusResponse (ServerStatusResponse_body True True), NoCallback, w)"

definition on_ServerStatusUpdateRequest :: "('a, 'd) env \<Rightarrow> ('a, 'd) world \<Rightarrow> ('a, 'd) handled" where
  "on_ServerStatusUpdateRequest env w =
     Inr (new_packet env ServerStatusUpdateResponse (ServerStatusUpdateResponse_body True True),
          NoCallback, w)"

subsection \<open>Accounts\<close>

definition on_RegisterRequest ::
    "('a, 'd) env \<Rightarrow> 'a Packet \<Rightarrow> ('a, 'd) world \<Rightarrow> ('a, 'd) handled" where
  "on_RegisterRequest env pkt w =
     (let request = unpacked unpack_Register \<lparr>rq_username = [], rq_rawPassword = []\<rparr> env pkt;
          n = rq_username request;
          p = rq_rawPassword request;
          reply = (\<lambda>is_success. new_packet env RegisterResponse (RegisterResponse_body is_success));
          is_success = \<not> (length n < 3 \<or> length n > 32) \<and> \<not> (length p < 6 \<or> length p > 32) in
      if is_success
      then rbind (SHA256 (env_crypto env) p) (\<lambda>h.
             let u = make_User 0 n h;
                 (is_success, db) = createUser (env_sql env) (w_db w) u in
             Inr (reply is_success, NoCallback, w\<lparr>w_db := db\<rparr>))
      else Inr (reply False, NoCallback, w))"

definition on_LoginPreRequest ::
    "('a, 'd) env \<Rightarrow> io \<Rightarrow> 'a Packet \<Rightarrow> ('a, 'd) world \<Rightarrow> ('a, 'd) handled" where
  "on_LoginPreRequest env io pkt w =
     (let username = lpq_username (unpacked unpack_LoginPre \<lparr>lpq_username = []\<rparr> env pkt);
          reply = (\<lambda>challenge. new_packet env LoginPreResponse (LoginPreResponse_body challenge)) in
      rbind (getUser_name (env_sql env) (w_db w) username) (\<lambda>result.
        case result of
          None \<Rightarrow> Inr (reply [], NoCallback, w)
        | Some user \<Rightarrow>
            (let challenge = genChallenge (env_crypto env) (io_rand io) (io_now io) in
             Inr (reply challenge, NoCallback,
                  w\<lparr>w_server := setChallengeMp (usr_id user) challenge (w_server w)\<rparr>))))"

definition on_LoginRequest ::
    "('a, 'd) env \<Rightarrow> io \<Rightarrow> 'a Packet \<Rightarrow> ('a, 'd) world \<Rightarrow> ('a, 'd) handled" where
  "on_LoginRequest env io pkt w =
     (let request = unpacked unpack_Login \<lparr>lq_username = [], lq_hashPassword = []\<rparr> env pkt;
          username = lq_username request;
          reply = (\<lambda>logined i token.
            new_packet env LoginResponse (LoginResponse_body logined i token)) in
      rbind (getUser_name (env_sql env) (w_db w) username) (\<lambda>result.
        case result of
          None \<Rightarrow> Inr (reply False (-1) ''illegal user'', NoCallback, w)
        | Some user \<Rightarrow>
            (let challenge = getChallengeMp (w_server w) (usr_id user);
                 hashPassword = lq_hashPassword request in
             rbind (SHA256 (env_crypto env) (usr_password user @ challenge)) (\<lambda>pass_challenge_sha256.
               if pass_challenge_sha256 = hashPassword
               then rbind (genToken (env_crypto env) (io_uuid io)) (\<lambda>token.
                      Inr (reply True (usr_id user) token, NoCallback,
                        w\<lparr>w_server := delChallengeMp (usr_id user)
                             (setUserIdByToken token (usr_id user) (w_server w))\<rparr>))
               else Inr (reply False (-1) ''wrong password'', NoCallback,
                      w\<lparr>w_server := delChallengeMp (usr_id user) (w_server w)\<rparr>)))))"

definition on_SetupChannelRequest ::
    "('a, 'd) env \<Rightarrow> 'a Packet \<Rightarrow> ('a, 'd) world \<Rightarrow> ('a, 'd) handled" where
  "on_SetupChannelRequest env pkt w =
     (let token = scq_token (unpacked unpack_SetupChannel \<lparr>scq_token = []\<rparr> env pkt);
          uid = getUserIdByToken (w_server w) token in
      Inr (new_packet env ServerAckResponse ServerAckResponse_body, SetupChannelCallback uid, w))"

subsection \<open>Messages\<close>

text \<open>\<open>response.mutable_message()->set_id(-1)\<close>\<close>

definition failed_message :: Message where
  "failed_message = default_Message\<lparr>msg_id := -1\<rparr>"

definition on_SendMessageRequest ::
    "('a, 'd) env \<Rightarrow> io \<Rightarrow> 'a Packet \<Rightarrow> ('a, 'd) world \<Rightarrow> ('a, 'd) handled" where
  "on_SendMessageRequest env io pkt w =
     (let request = unpacked unpack_SendMessage
            \<lparr>smq_token = [], smq_message = default_RawMessage\<rparr> env pkt;
          uid = getUserIdByToken (w_server w) (smq_token request);
          message = smq_message request;
          sender_id = raw_from message;
          receiver_id = raw_to message;
          reply = (\<lambda>m. new_packet env SendMessageResponse (SendMessageResponse_body m)) in
      if uid \<noteq> sender_id then Inr (reply failed_message, NoCallback, w)
      else rbind (getUser_id (env_sql env) (w_db w) receiver_id) (\<lambda>receiver.
        if receiver = None then Inr (reply failed_message, NoCallback, w)
        else rbind (createMsgByRawMsg (env_sql env) (w_db w) message (io_now io)) (\<lambda>(msg_result, db).
          let w = w\<lparr>w_db := db\<rparr> in
          case msg_result of
            None \<Rightarrow> Inr (reply failed_message, NoCallback, w)
          | Some reply_msg \<Rightarrow>
              if raw_type message = IMAGE \<or> raw_type message = FILE
              then rbind (createFile (env_sql env) (w_db w) (io_uuid io)) (\<lambda>(file_id_result, db).
                let w = w\<lparr>w_db := db\<rparr> in
                case file_id_result of
                  None \<Rightarrow> Inr (reply failed_message, NoCallback, w)
                | Some file_id \<Rightarrow>
                    (let reply_msg = reply_msg\<lparr>msg_message := (msg_message reply_msg)
                           \<lparr>raw_content := file_id\<rparr>\<rparr> in
                     Inr (reply reply_msg, FileMsgCallback file_id receiver_id reply_msg, w)))
              else Inr (reply reply_msg, ForwardCallback receiver_id reply_msg, w))))"

definition on_ContactMessageRequest ::
    "('a, 'd) env \<Rightarrow> 'a Packet \<Rightarrow> ('a, 'd) world \<Rightarrow> ('a, 'd) handled" where
  "on_ContactMessageRequest env pkt w =
     (let request = unpacked unpack_ContactMessage
            \<lparr>cmq_token = [], cmq_id = 0, cmq_internalId = 0\<rparr> env pkt;
          uid = getUserIdByToken (w_server w) (cmq_token request);
          reply = (\<lambda>m. new_packet env ContactMessageResponse (ContactMessageResponse_body m)) in
      rbind (getMessage (env_sql env) (w_db w) uid (cmq_id request) (cmq_internalId request)) (\<lambda>result.
        case result of
          None \<Rightarrow> Inr (reply failed_message, NoCallback, w)
        | Some m \<Rightarrow> Inr (reply m, NoCallback, w)))"

subsection \<open>Files\<close>

definition on_FileUploadRequest ::
    "('a, 'd) env \<Rightarrow> io \<Rightarrow> 'a Packet \<Rightarrow> ('a, 'd) world \<Rightarrow> ('a, 'd) handled" where
  "on_FileUploadRequest env io pkt w =
     (let request = unpacked unpack_FileUpload
            \<lparr>fuq_token = [], fuq_id = [], fuq_file = default_File, fuq_hash = []\<rparr> env pkt;
          uid = getUserIdByToken (w_server w) (fuq_token request);
          reply = (\<lambda>success. new_packet env FileUploadResponse (FileUploadResponse_body success)) in
      if uid = 0 then Inr (reply False, NoCallback, w)
      else rbind (getFile (env_sql env) (w_db w) (fuq_id request)) (\<lambda>result.
        case result of
          None \<Rightarrow> Inr (reply False, NoCallback, w)
        | Some f \<Rightarrow>
            (let f = setName (setHash f (fuq_hash request)) (file_name (fuq_file request)) in
             rbind (checkDiskExistence (io_disk io) f (w_disk w)) (\<lambda>(exists_on_disk, dsk).
               let (success, dsk) =
                     (if exists_on_disk then (False, dsk)
                      else saveToDisk (io_disk io) f (fuq_file request) dsk);
                   w = w\<lparr>w_disk := dsk\<rparr> in
               rbind (updateFile (env_sql env) (w_db w) f) (\<lambda>(updated, db).
                 let w = w\<lparr>w_db := db\<rparr> in
                 if \<not> updated then Inr (reply False, NoCallback, w)
                 else Inr (reply success,
                           if success then FileUploadedCallback (fuq_id request) else NoCallback,
                           w))))))"

definition on_FileDownloadRequest ::
    "('a, 'd) env \<Rightarrow> io \<Rightarrow> 'a Packet \<Rightarrow> ('a, 'd) world \<Rightarrow> ('a, 'd) handled" where
  "on_FileDownloadRequest env io pkt w =
     (let request = unpacked unpack_FileDownload \<lparr>fdq_token = [], fdq_id = []\<rparr> env pkt;
          uid = getUserIdByToken (w_server w) (fdq_token request);
          reply = (\<lambda>fl h. new_packet env FileDownloadResponse (FileDownloadResponse_body fl h));
          no_name = (\<lambda>fl. fl\<lparr>file_name := []\<rparr>) in
      if uid = 0 then Inr (reply (no_name default_File) [], NoCallback, w)
      else rbind (getFile (env_sql env) (w_db w) (fdq_id request)) (\<lambda>result.
        case result of
          None \<Rightarrow> Inr (reply (no_name default_File) [], NoCallback, w)
        | Some f \<Rightarrow>
            rbind (checkDiskExistence (io_disk io) f (w_disk w)) (\<lambda>(exists_on_disk, dsk).
              let w = w\<lparr>w_disk := dsk\<rparr>;
                  (loaded, fl) =
                    (if exists_on_disk then loadIntoProto (io_disk io) f default_File dsk
                     else (False, default_File)) in
              if loaded then Inr (reply fl (fs_hash f), NoCallback, w)
              else Inr (reply (no_name fl) (fs_hash f), NoCallback, w))))"

subsection \<open>The callbacks\<close>

definition contact_of :: "User \<Rightarrow> Contact" where
  "contact_of u =
     \<lparr>contact_id = usr_id u, contact_name = usr_username u, contact_online = True,
      contact_type = FRIEND\<rparr>"

definition contact_list :: "('a, 'd) env \<Rightarrow> 'd \<Rightarrow> int32 \<Rightarrow> body run" where
  "contact_list env db uid =
     rbind (getAllUsers (env_sql env) db) (\<lambda>users.
     rbind (rmap (\<lambda>u. rbind (getAllMessages (env_sql env) db uid (usr_id u)) (\<lambda>msgs.
              Inr (to_int32 (int (length msgs))))) users) (\<lambda>internalIds.
       Inr (ContactListRequest_body (map contact_of users) internalIds)))"

text \<open>
  A variable that was captured by reference is read after its block was left, which is undefined. The run
  goes on, with the value it last had, only when the stack still holds it.
\<close>

definition read_captured :: "io \<Rightarrow> 'v \<Rightarrow> 'v run" where
  "read_captured io x = (if io_locals_kept io then Inr x else Inl (UndefinedBehaviour ''dead local''))"

text \<open>The constructor of a sender starts a thread, which throws when there is none to be had.\<close>

definition start_sender :: "io \<Rightarrow> int32 \<Rightarrow> int32 \<Rightarrow> 'a Server \<Rightarrow> 'a Server run" where
  "start_sender io uid client_fd s =
     (if keepalive_sender_mp s uid = None \<and> \<not> io_thread_ok io then Inl (UncaughtException ''thread'')
      else Inr (setKpAliveSender uid client_fd s))"

definition setup_channel_callback ::
    "('a, 'd) env \<Rightarrow> io \<Rightarrow> int32 \<Rightarrow> int32 \<Rightarrow> ('a, 'd) world \<Rightarrow> ('a, 'd) world run" where
  "setup_channel_callback env io client_fd uid w =
     rbind (read_captured io uid) (\<lambda>uid.
     rbind (start_sender io uid client_fd (w_server w)) (\<lambda>s.
      let w = w\<lparr>w_server := s\<rparr> in
      rbind (contact_list env (w_db w) uid) (\<lambda>contact_list_request.
        let new_req = new_packet env ContactListRequest contact_list_request;
            w = w\<lparr>w_server := post_to uid new_req (w_server w)\<rparr> in
        rbind (Control (io_del_ok io) (io_close_ret io) client_fd ''EPOLL_DEL_FD'' (w_van w))
          (\<lambda>(ret, van). Inr (w\<lparr>w_van := van\<rparr>)))))"

definition file_msg_callback ::
    "string \<Rightarrow> int32 \<Rightarrow> Message \<Rightarrow> ('a, 'd) world \<Rightarrow> ('a, 'd) world" where
  "file_msg_callback file_id receiver_id reply_msg w =
     w\<lparr>w_server := setFileMsg file_id receiver_id reply_msg (w_server w)\<rparr>"

definition forward_callback ::
    "('a, 'd) env \<Rightarrow> int32 \<Rightarrow> Message \<Rightarrow> ('a, 'd) world \<Rightarrow> ('a, 'd) world" where
  "forward_callback env receiver_id reply_msg w =
     (if \<not> isOnline (w_server w) receiver_id then w
      else (let new_req = new_packet env ContactMessageListRequest
                  (ContactMessageListRequest_body [reply_msg]) in
            w\<lparr>w_server := post_to receiver_id new_req (w_server w)\<rparr>))"

definition file_uploaded_callback ::
    "('a, 'd) env \<Rightarrow> string \<Rightarrow> ('a, 'd) world \<Rightarrow> ('a, 'd) world" where
  "file_uploaded_callback env request_id w =
     (let (uid, msg) = getFileMsg (w_server w) request_id in
      if uid = 0 then w
      else (let w = w\<lparr>w_server := delFileMsg request_id (w_server w)\<rparr> in
            if getSender (w_server w) uid = None then w
            else (let new_req = new_packet env ContactMessageListRequest
                        (ContactMessageListRequest_body [msg]) in
                  w\<lparr>w_server := post_to uid new_req (w_server w)\<rparr>)))"

definition run_callback ::
    "('a, 'd) env \<Rightarrow> io \<Rightarrow> int32 \<Rightarrow> callback \<Rightarrow> ('a, 'd) world \<Rightarrow> ('a, 'd) world run" where
  "run_callback env io client_fd cb w =
     (case cb of
        NoCallback \<Rightarrow> Inr w
      | SetupChannelCallback uid \<Rightarrow> setup_channel_callback env io client_fd uid w
      | FileMsgCallback file_id receiver_id reply_msg \<Rightarrow>
          Inr (file_msg_callback file_id receiver_id reply_msg w)
      | ForwardCallback receiver_id reply_msg \<Rightarrow>
          rbind (read_captured io receiver_id) (\<lambda>receiver_id. Inr (forward_callback env receiver_id reply_msg w))
      | FileUploadedCallback request_id \<Rightarrow> Inr (file_uploaded_callback env request_id w))"

lemma read_captured_Inr [simp]: "read_captured io x = Inr y \<longleftrightarrow> io_locals_kept io \<and> y = x"
  by (auto simp: read_captured_def)

lemma start_sender_Inr [simp]:
  "start_sender io uid fd s = Inr s' \<longleftrightarrow>
     (keepalive_sender_mp s uid = None \<longrightarrow> io_thread_ok io) \<and> s' = setKpAliveSender uid fd s"
  by (auto simp: start_sender_def)

lemmas run_callback_defs = run_callback_def setup_channel_callback_def file_msg_callback_def
  forward_callback_def file_uploaded_callback_def

subsection \<open>The whole request\<close>

text \<open>The \<open>switch\<close>; \<open>None\<close> for the cases that return without a reply.\<close>

definition handle_packet ::
    "('a, 'd) env \<Rightarrow> io \<Rightarrow> 'a Packet \<Rightarrow> ('a, 'd) world \<Rightarrow>
     ('a Packet \<times> callback \<times> ('a, 'd) world) option run" where
  "handle_packet env io pkt w =
     (let answer = (\<lambda>h. rbind h (\<lambda>r. Inr (Some r))) in
      case packet_type_of_id (packetId pkt) of
        Some ServerStatusRequest \<Rightarrow> answer (on_ServerStatusRequest env w)
      | Some ServerStatusUpdateRequest \<Rightarrow> answer (on_ServerStatusUpdateRequest env w)
      | Some RegisterRequest \<Rightarrow> answer (on_RegisterRequest env pkt w)
      | Some LoginPreRequest \<Rightarrow> answer (on_LoginPreRequest env io pkt w)
      | Some LoginRequest \<Rightarrow> answer (on_LoginRequest env io pkt w)
      | Some SetupChannelRequest \<Rightarrow> answer (on_SetupChannelRequest env pkt w)
      | Some SendMessageRequest \<Rightarrow> answer (on_SendMessageRequest env io pkt w)
      | Some FileUploadRequest \<Rightarrow> answer (on_FileUploadRequest env io pkt w)
      | Some FileDownloadRequest \<Rightarrow> answer (on_FileDownloadRequest env io pkt w)
      | Some ContactMessageRequest \<Rightarrow> answer (on_ContactMessageRequest env pkt w)
      | Some DeleteMessageRequest \<Rightarrow> Inr None
      | _ \<Rightarrow> Inr None)"

text \<open>After the \<open>switch\<close>: the reply is sent, then the callback runs.\<close>

definition send_reply ::
    "('a, 'd) env \<Rightarrow> io \<Rightarrow> int32 \<Rightarrow> 'a Packet \<Rightarrow> callback \<Rightarrow> ('a, 'd) world \<Rightarrow> ('a, 'd) world run" where
  "send_reply env io client_fd pkt_reply cb w =
     (if packet_content pkt_reply = None then Inr w
      else rbind (Van_Send (env_wire env) pkt_reply client_fd (io_send io) (w_van w)) (\<lambda>(ret, van).
        let w = w\<lparr>w_van := van\<rparr> in
        if ret < 0
        then rbind (Control (io_del_ok io) (io_close_ret io) client_fd ''EPOLL_DEL_FD'' (w_van w))
               (\<lambda>(r1, van).
             rbind (Control (io_del_ok io) (io_close_ret io) client_fd ''CLOSE_FD'' van)
               (\<lambda>(r2, van). Inr (w\<lparr>w_van := van\<rparr>)))
        else run_callback env io client_fd cb w))"

text \<open>
  Up to the end of the \<open>switch\<close>: \<open>None\<close> when there is no reply. \<open>Van_Recv\<close> gives a packet whenever it
  returns a positive number; the test for one is only there for the \<open>case\<close>.
\<close>

definition receive_request ::
    "('a, 'd) env \<Rightarrow> io \<Rightarrow> ('a, 'd) world \<Rightarrow> (('a Packet \<times> callback) option \<times> ('a, 'd) world) run" where
  "receive_request env io w =
     rbind (Van_Recv (env_wire env) (io_recv io) (w_van w)) (\<lambda>(pkt_bytes, pkt, van).
       let w = w\<lparr>w_van := van\<rparr> in
       case pkt of
         None \<Rightarrow> Inr (None, w)
       | Some pkt \<Rightarrow>
           if pkt_bytes \<le> 0 then Inr (None, w)
           else rbind (handle_packet env io pkt w) (\<lambda>handled.
             case handled of
               None \<Rightarrow> Inr (None, w)
             | Some (pkt_reply, cb, w) \<Rightarrow> Inr (Some (pkt_reply, cb), w)))"

definition processRecvSocket ::
    "('a, 'd) env \<Rightarrow> io \<Rightarrow> int32 \<Rightarrow> ('a, 'd) world \<Rightarrow> ('a, 'd) world run" where
  "processRecvSocket env io client_fd w =
     rbind (receive_request env io w) (\<lambda>(answer, w).
       case answer of
         None \<Rightarrow> Inr w
       | Some (pkt_reply, cb) \<Rightarrow> send_reply env io client_fd pkt_reply cb w)"

lemmas processRecvSocket_defs = processRecvSocket_def receive_request_def send_reply_def

end
