(* ===== verification/Accepting.thy ===== *)
theory Accepting
  imports Server_Handlers
begin

text \<open>
  The threads of \<open>src/Server/server_van.h\<close>: construction, the accepting loop over epoll events, and the
  worker loop that takes sockets from the queue. What the kernel answers is an input again; one
  element of a list of events is one iteration of the \<open>for\<close> loop over the events of \<open>epoll_wait\<close>.
\<close>

subsection \<open>Construction\<close>

record boot_io =
  boot_socket :: int32
  boot_bind_ok :: bool
  boot_listen_ok :: bool
  boot_epoll :: int32
  boot_add_ok :: bool

text \<open>\<open>Van::Van\<close>\<close>

definition make_Van :: "boot_io \<Rightarrow> 'a ServerVan run" where
  "make_Van io =
     (if sint (boot_socket io) < 0 then Inl (FatalLog ''socket() failed'')
      else Inr \<lparr>van_socket = boot_socket io, epoll_fd = 0, send_bytes = 0, recv_bytes = 0,
                RecvSocketQueue = empty_queue, KeepAliveQueue = empty_queue, van_calls = []\<rparr>)"

definition Van_Bind :: "boot_io \<Rightarrow> 'a ServerVan \<Rightarrow> 'a ServerVan run" where
  "Van_Bind io v =
     (if sint (van_socket v) < 0 then Inl (FatalLog ''create server socket failed'')
      else if \<not> boot_bind_ok io then Inl (FatalLog ''bind server socket failed'')
      else if \<not> boot_listen_ok io then Inl (FatalLog ''listen server socket failed'')
      else Inr v)"

definition make_ServerVan :: "boot_io \<Rightarrow> 'a ServerVan run" where
  "make_ServerVan io =
     rbind (make_Van io) (\<lambda>v.
     rbind (Van_Bind io v) (\<lambda>v.
       if sint (boot_epoll io) < 0 then Inl (FatalLog ''epoll_create failed'')
       else (let v = v\<lparr>epoll_fd := boot_epoll io\<rparr> in
             if \<not> boot_add_ok io then Inl (FatalLog ''epoll_ctl add server socket failed'')
             else Inr (log_call (CallEpollAdd (van_socket v)) v))))"

subsection \<open>The accepting loop\<close>

text \<open>
  \<open>EPOLLIN\<close> is the only bit of an event that is tested. \<open>acc_socket\<close> is the result of \<open>accept\<close>,
  negative when it failed; \<open>inet_ntop\<close> and \<open>ntohs\<close> give address and port.
\<close>

record event =
  ev_fd :: int32
  ev_in :: bool
  acc_socket :: int32
  acc_ip :: string
  acc_port :: nat
  acc_add_ok :: bool
  ev_del_ok :: bool
  ev_close_ret :: int

fun to_string :: "nat \<Rightarrow> string" where
  "to_string n =
     (if n < 10 then [char_of (48 + n)] else to_string (n div 10) @ [char_of (48 + n mod 10)])"

declare to_string.simps [simp del]

text \<open>
  \<open>UM\<close> reaches the server's pools through \<open>server_ptr_\<close>, which is null until \<open>BindServer\<close> has run: then
  it is \<open>None\<close> here.
\<close>

definition BindServer :: "'a Server \<Rightarrow> 'a Server option \<Rightarrow> 'a Server option" where
  "BindServer s um = (if um = None then Some s else um)"

definition accept_connection ::
    "event \<Rightarrow> 'a Server option \<times> 'a ServerVan \<Rightarrow> ('a Server option \<times> 'a ServerVan) run" where
  "accept_connection e = (\<lambda>(um, v).
     if sint (acc_socket e) < 0 then Inr (um, v)
     else (let client_ip_port = acc_ip e @ '':'' @ to_string (acc_port e) in
           case um of
             None \<Rightarrow> Inl (UndefinedBehaviour ''null server_ptr_'')
           | Some s \<Rightarrow>
               (let s = setRevcSocketMp client_ip_port (acc_socket e) s in
                if \<not> acc_add_ok e then Inl (FatalLog ''epoll_ctl add client socket failed'')
                else Inr (Some s, log_call (CallEpollAdd (acc_socket e)) v))))"

definition on_event ::
    "event \<Rightarrow> 'a Server option \<times> 'a ServerVan \<Rightarrow> ('a Server option \<times> 'a ServerVan) run" where
  "on_event e = (\<lambda>(um, v).
     if ev_fd e = van_socket v then accept_connection e (um, v)
     else if ev_in e then Inr (um, v\<lparr>RecvSocketQueue := Push (RecvSocketQueue v) (ev_fd e)\<rparr>)
     else rbind (Control (ev_del_ok e) (ev_close_ret e) (ev_fd e) ''EPOLL_DEL_FD'' v) (\<lambda>(r1, v).
          rbind (Control (ev_del_ok e) (ev_close_ret e) (ev_fd e) ''CLOSE_FD'' v) (\<lambda>(r2, v).
            Inr (um, v))))"

fun Accept_events ::
    "event list \<Rightarrow> 'a Server option \<times> 'a ServerVan \<Rightarrow> ('a Server option \<times> 'a ServerVan) run" where
  "Accept_events [] x = Inr x"
| "Accept_events (e # es) x = rbind (on_event e x) (Accept_events es)"

text \<open>
  The loop itself: each element is one return of \<open>epoll_wait\<close>, the number it returned (negative when
  it failed) with the array \<open>events\<close>, of which only the first \<open>num_events\<close> are read.
\<close>

definition MAX_EVENTS :: nat where "MAX_EVENTS = 10"

fun Accepting_loop ::
    "(int32 \<times> event list) list \<Rightarrow> 'a Server option \<times> 'a ServerVan \<Rightarrow> ('a Server option \<times> 'a ServerVan) run" where
  "Accepting_loop [] x = Inr x"
| "Accepting_loop ((num_events, events) # returns) x =
     rbind (Accept_events (take (nat (sint num_events)) events) x) (Accepting_loop returns)"

text \<open>
  \<open>Server::Init\<close>: the constructor of \<open>ServerVan\<close> has started the accepting thread, which may handle
  events (\<open>early\<close>) before \<open>BindServer\<close> runs.
\<close>

definition Server_Init ::
    "boot_io \<Rightarrow> event list \<Rightarrow> ('a Server option \<times> 'a ServerVan) run" where
  "Server_Init io early =
     rbind (make_ServerVan io) (\<lambda>v.
     rbind (Accept_events early (None, v)) (\<lambda>(um, v).
       Inr (BindServer empty_Server um, v)))"

subsection \<open>A worker\<close>

text \<open>\<open>RevcSocketThreadFunc_\<close>: one iteration; \<open>None\<close> while the queue is empty.\<close>

definition worker_step ::
    "('a, 'd) env \<Rightarrow> io \<Rightarrow> ('a, 'd) world \<Rightarrow> ('a, 'd) world option run" where
  "worker_step env io w =
     (case WaitAndPop (RecvSocketQueue (w_van w)) of
        None \<Rightarrow> Inr None
      | Some (client_fd, q) \<Rightarrow>
          rbind (processRecvSocket env io client_fd (w\<lparr>w_van := (w_van w)\<lparr>RecvSocketQueue := q\<rparr>\<rparr>))
            (\<lambda>w'. Inr (Some w')))"

subsection \<open>What the accepting loop does\<close>

definition event_calls :: "int32 \<Rightarrow> event \<Rightarrow> os_call list" where
  "event_calls listening e =
     (if ev_fd e = listening
      then if sint (acc_socket e) < 0 then [] else [CallEpollAdd (acc_socket e)]
      else if ev_in e then [] else [CallEpollDel (ev_fd e), CallClose (ev_fd e)])"

definition readable_fds :: "int32 \<Rightarrow> event list \<Rightarrow> int32 list" where
  "readable_fds listening es = map ev_fd (filter (\<lambda>e. ev_fd e \<noteq> listening \<and> ev_in e) es)"

lemma on_event_Inr:
  assumes "on_event e (um, v) = Inr (um', v')"
  shows "van_socket v' = van_socket v \<and>
    items (RecvSocketQueue v') = items (RecvSocketQueue v) @ readable_fds (van_socket v) [e] \<and>
    van_calls v' = van_calls v @ event_calls (van_socket v) e \<and>
    (um' = None \<longleftrightarrow> um = None) \<and>
    (\<forall>s s'. um = Some s \<longrightarrow> um' = Some s' \<longrightarrow>
       s' = s\<lparr>revc_socket_pool := revc_socket_pool s'\<rparr>)"
  using assms
  by (auto simp: on_event_def accept_connection_def Let_def Control_def controlEpollDel_def
      log_call_def readable_fds_def event_calls_def setRevcSocketMp_def split: if_splits option.splits)

lemma Accept_events_Inr:
  assumes "Accept_events es (um, v) = Inr (um', v')"
  shows "van_socket v' = van_socket v \<and>
    items (RecvSocketQueue v') = items (RecvSocketQueue v) @ readable_fds (van_socket v) es \<and>
    van_calls v' = van_calls v @ concat (map (event_calls (van_socket v)) es) \<and>
    (um' = None \<longleftrightarrow> um = None) \<and>
    (\<forall>s s'. um = Some s \<longrightarrow> um' = Some s' \<longrightarrow>
       s' = s\<lparr>revc_socket_pool := revc_socket_pool s'\<rparr>)"
  using assms
proof (induction es arbitrary: um v)
  case Nil
  then show ?case by (auto simp: readable_fds_def)
next
  case (Cons e es)
  then obtain um1 v1 where 1: "on_event e (um, v) = Inr (um1, v1)"
    and 2: "Accept_events es (um1, v1) = Inr (um', v')" by auto
  have r: "readable_fds l (e # es) = readable_fds l [e] @ readable_fds l es" for l
    by (simp add: readable_fds_def)
  have s: "s' = s\<lparr>revc_socket_pool := revc_socket_pool s'\<rparr>" if "um = Some s" "um' = Some s'" for s s'
  proof -
    have "um1 \<noteq> None" using on_event_Inr [OF 1] that by simp
    then obtain s1 where s1: "um1 = Some s1" by blast
    have "s1 = s\<lparr>revc_socket_pool := revc_socket_pool s1\<rparr>"
      using on_event_Inr [OF 1] that s1 by blast
    moreover have "s' = s1\<lparr>revc_socket_pool := revc_socket_pool s'\<rparr>"
      using Cons.IH [OF 2] that s1 by blast
    ultimately show ?thesis by (metis Server.surjective Server.update_convs(1))
  qed
  show ?case using on_event_Inr [OF 1] Cons.IH [OF 2] s by (simp add: r)
qed

text \<open>When the pools are there, the loop is stopped only by a failing \<open>epoll_ctl\<close>.\<close>

definition stops_loop :: "int32 \<Rightarrow> fault \<Rightarrow> event \<Rightarrow> bool" where
  "stops_loop listening x e \<longleftrightarrow>
     (if ev_fd e = listening
      then x = FatalLog ''epoll_ctl add client socket failed'' \<and> 0 \<le> sint (acc_socket e) \<and> \<not> acc_add_ok e
      else x = FatalLog ''epoll_ctl del client socket failed'' \<and> \<not> ev_in e \<and> \<not> ev_del_ok e)"

lemma on_event_Inl: "on_event e (Some s, v) = Inl x \<Longrightarrow> stops_loop (van_socket v) x e"
  by (auto simp: stops_loop_def on_event_def accept_connection_def Let_def Control_def controlEpollDel_def
      split: if_splits option.splits)

lemma Accept_events_Inl:
  assumes "Accept_events es (Some s, v) = Inl x"
  shows "\<exists>e \<in> set es. stops_loop (van_socket v) x e"
  using assms
proof (induction es arbitrary: s v)
  case (Cons e es)
  show ?case
  proof (cases "on_event e (Some s, v)")
    case (Inl y)
    then show ?thesis using Cons.prems on_event_Inl [OF Inl] by auto
  next
    case (Inr y)
    then obtain um v1 where r: "on_event e (Some s, v) = Inr (um, v1)" by (cases y) auto
    from on_event_Inr [OF this] obtain s1 where "um = Some s1" and v1: "van_socket v1 = van_socket v" by auto
    then show ?thesis using Cons.IH [of s1 v1] Cons.prems r by auto
  qed
qed simp

subsection \<open>Properties\<close>

text \<open>
  When the accepting loop gets through a batch of events, the sockets that became readable are
  in the workers' queue, in the order of their events, behind what was there; every other event of
  a client took its socket out of the epoll set and closed it; every accepted connection was added
  to the epoll set; and of the server's pools only the table of temporary connections changed.
\<close>

theorem accepting_correct:
  assumes "Accept_events es (Some s, v) = Inr (um, v')"
  shows "items (RecvSocketQueue v') = items (RecvSocketQueue v) @ readable_fds (van_socket v) es \<and>
    van_calls v' = van_calls v @ concat (map (event_calls (van_socket v)) es) \<and>
    (\<exists>p. um = Some (s\<lparr>revc_socket_pool := p\<rparr>))"
proof -
  obtain s' where "um = Some s'" using Accept_events_Inr [OF assms] by (cases um) auto
  then show ?thesis using Accept_events_Inr [OF assms] by auto
qed

definition example_event :: "int32 \<Rightarrow> event" where
  "example_event fd = \<lparr>ev_fd = fd, ev_in = True, acc_socket = 9, acc_ip = ''10.0.0.1'', acc_port = 4242,
     acc_add_ok = True, ev_del_ok = True, ev_close_ret = 0\<rparr>"

definition example_boot :: boot_io where
  "example_boot = \<lparr>boot_socket = 3, boot_bind_ok = True, boot_listen_ok = True, boot_epoll = 4,
     boot_add_ok = True\<rparr>"

theorem accepting_correct_witness:
  "\<exists>v um v'. make_ServerVan example_boot = Inr (v :: string ServerVan) \<and>
     Accept_events [example_event 3, example_event 9, example_event 5] (Some empty_Server, v) = Inr (um, v') \<and>
     items (RecvSocketQueue v') = [9, 5] \<and> van_calls v' = [CallEpollAdd 3, CallEpollAdd 9]"
proof -
  obtain v where v: "make_ServerVan example_boot = Inr (v :: string ServerVan)"
      "van_socket v = 3" "van_calls v = [CallEpollAdd 3]" "items (RecvSocketQueue v) = []"
    by (simp add: make_ServerVan_def make_Van_def Van_Bind_def example_boot_def Let_def log_call_def
        empty_queue_def)
  let ?es = "[example_event 3, example_event 9, example_event 5]"
  obtain um v' where r: "Accept_events ?es (Some empty_Server, v) = Inr (um, v')"
    using v(2) by (simp add: on_event_def accept_connection_def example_event_def Let_def log_call_def)
  show ?thesis
    using accepting_correct [OF r] v r by (auto simp: readable_fds_def event_calls_def example_event_def)
qed

text \<open>What the kernel reports in a number of returns of \<open>epoll_wait\<close>.\<close>

definition reported :: "(int32 \<times> event list) list \<Rightarrow> event list" where
  "reported returns = concat (map (\<lambda>(n, es). take (nat (sint n)) es) returns)"

lemma Accept_events_append: "Accept_events (es @ es') x = rbind (Accept_events es x) (Accept_events es')"
proof (induction es arbitrary: x)
  case (Cons e es)
  then show ?case by (cases "on_event e x") simp_all
qed simp

lemma Accepting_loop_reported: "Accepting_loop returns x = Accept_events (reported returns) x"
proof (induction returns arbitrary: x)
  case (Cons r returns)
  obtain n es where r: "r = (n, es)" by (cases r)
  have "reported (r # returns) = take (nat (sint n)) es @ reported returns" by (simp add: reported_def r)
  then show ?case using Cons by (cases "Accept_events (take (nat (sint n)) es) x") (simp_all add: r Accept_events_append)
qed (simp add: reported_def)

text \<open>
  C38: However the kernel groups the events into returns of \<open>epoll_wait\<close>, and whatever returns fail in
  between: as long as the accepting loop goes on, the sockets that became readable are in the workers'
  queue, in the order of their events, behind what was there; every other event of a client took its
  socket out of the epoll set and closed it; every accepted connection was added to the epoll set; and
  of the server's pools only the table of temporary connections changed. It stops only by the
  fatal error of \<open>epoll_ctl\<close> for a connection that was accepted, or for a client that is gone.
\<close>

theorem accepting_loop_correct:
  assumes "Accepting_loop returns (Some s, v) = r"
  shows "case r of
      Inr (um, v') \<Rightarrow>
        items (RecvSocketQueue v') = items (RecvSocketQueue v) @ readable_fds (van_socket v) (reported returns) \<and>
        van_calls v' = van_calls v @ concat (map (event_calls (van_socket v)) (reported returns)) \<and>
        (\<exists>p. um = Some (s\<lparr>revc_socket_pool := p\<rparr>))
    | Inl x \<Rightarrow> \<exists>e \<in> set (reported returns). stops_loop (van_socket v) x e"
proof (cases r)
  case (Inl e)
  then have "Accept_events (reported returns) (Some s, v) = Inl e" using assms by (simp add: Accepting_loop_reported)
  from Accept_events_Inl [OF this] show ?thesis by (simp add: Inl)
next
  case (Inr x)
  then obtain um v' where "Accept_events (reported returns) (Some s, v) = Inr (um, v')" "x = (um, v')"
    using assms by (cases x) (simp add: Accepting_loop_reported)
  then show ?thesis using accepting_correct by (simp add: Inr)
qed

theorem accepting_loop_correct_witness:
  "\<exists>v um v'. make_ServerVan example_boot = Inr (v :: string ServerVan) \<and>
     Accepting_loop [(2, [example_event 3, example_event 9, example_event 8]), (-1, []), (1, [example_event 5])]
       (Some empty_Server, v) = Inr (um, v') \<and>
     items (RecvSocketQueue v') = [9, 5] \<and> van_calls v' = [CallEpollAdd 3, CallEpollAdd 9]"
  (is "\<exists>v um v'. _ \<and> Accepting_loop ?returns _ = _ \<and> _")
proof -
  obtain v where v: "make_ServerVan example_boot = Inr (v :: string ServerVan)"
    and sel: "van_socket v = 3" "van_calls v = [CallEpollAdd 3]" "items (RecvSocketQueue v) = []"
    by (simp add: make_ServerVan_def make_Van_def Van_Bind_def example_boot_def Let_def log_call_def
        empty_queue_def)
  have rep: "reported ?returns = [example_event 3, example_event 9, example_event 5]"
    by (simp add: reported_def)
  obtain um v' where r: "Accepting_loop ?returns (Some empty_Server, v) = Inr (um, v')"
    unfolding Accepting_loop_reported rep
    using sel(1) by (simp add: on_event_def accept_connection_def example_event_def Let_def log_call_def)
  from accepting_loop_correct [OF r] have "items (RecvSocketQueue v') = [9, 5]" "van_calls v' = [CallEpollAdd 3, CallEpollAdd 9]"
    unfolding rep by (simp_all add: sel readable_fds_def event_calls_def example_event_def)
  with v r show ?thesis by blast
qed

text \<open>
  Construction ends with the listening socket in the epoll set and, when no client connects
  before \<open>BindServer\<close> has run, with a server that has empty pools. But the accepting thread is
  already running then: the first connection that is accepted earlier dereferences a null pointer.
\<close>

theorem startup_race:
  assumes boot: "make_ServerVan io = Inr (v :: 'a ServerVan)"
  shows "Server_Init io [] = Inr (Some empty_Server, v) \<and>
    van_calls v = [CallEpollAdd (van_socket v)] \<and>
    (ev_fd e = van_socket v \<and> 0 \<le> sint (acc_socket e) \<longrightarrow>
       Server_Init io (e # es) = (Inl (UndefinedBehaviour ''null server_ptr_'') ::
         ('a Server option \<times> 'a ServerVan) run))"
proof -
  have c: "van_calls v = [CallEpollAdd (van_socket v)]"
    using boot by (auto simp: make_ServerVan_def make_Van_def Van_Bind_def Let_def log_call_def
        split: if_splits)
  show ?thesis
    using boot c by (auto simp: Server_Init_def BindServer_def on_event_def accept_connection_def)
qed

theorem startup_race_witness:
  "Server_Init example_boot [example_event 3] =
     (Inl (UndefinedBehaviour ''null server_ptr_'') :: (string Server option \<times> string ServerVan) run)"
proof -
  obtain v where v: "make_ServerVan example_boot = Inr (v :: string ServerVan)" "van_socket v = 3"
    by (simp add: make_ServerVan_def make_Van_def Van_Bind_def example_boot_def Let_def log_call_def)
  show ?thesis
    using startup_race [OF v(1), of "example_event 3" "[]"] v(2) by (simp add: example_event_def)
qed

end
