(* ===== verification/Db_Correct.thy ===== *)
theory Db_Correct
  imports Db_Access
begin

text \<open>
  What the database accesses of \<open>Db_Access\<close> promise, over the tables of an engine that satisfies
  \<open>sqlite_laws\<close>: the contracts \<open>account_store\<close>, \<open>conversation_store\<close> and \<open>file_store\<close> the server relies
  on, and the proof that the accesses implement them (a \<open>sublocale\<close> of \<open>sqlite_laws\<close> each).
\<close>

subsection \<open>The tables as values\<close>

definition int_of :: "sql_value \<Rightarrow> int" where
  "int_of v = (case v of SqlInt i \<Rightarrow> i | _ \<Rightarrow> 0)"

definition text_of :: "sql_value \<Rightarrow> string" where
  "text_of v = (case v of SqlText s \<Rightarrow> s | _ \<Rightarrow> '''')"

lemma int_of_SqlInt [simp]: "int_of (SqlInt i) = i" by (simp add: int_of_def)
lemma text_of_SqlText [simp]: "text_of (SqlText s) = s" by (simp add: text_of_def)

lemma cell_Cons [simp]: "cell ((m, v) # r) n = (if m = n then v else cell r n)"
  by (simp add: cell_def)

lemma cell_Nil [simp]: "cell [] n = SqlNull"
  by (simp add: cell_def)

definition row_user :: "sql_row \<Rightarrow> User" where
  "row_user r = make_User (to_int32 (int_of (cell r ''user_id''))) (text_of (cell r ''username''))
     (text_of (cell r ''password''))"

definition row_message :: "sql_row \<Rightarrow> Message" where
  "row_message r =
     \<lparr>msg_message = \<lparr>raw_from = to_int32 (int_of (cell r ''sender_id'')),
                     raw_to = to_int32 (int_of (cell r ''receiver_id'')),
                     raw_type = to_int32 (int_of (cell r ''type'')),
                     raw_content = text_of (cell r ''content'')\<rparr>,
      msg_id = to_int32 (int_of (cell r ''message_id'')),
      msg_timestamp = to_int32 (int_of (cell r ''timestamp'')),
      msg_internalId = to_int32 (int_of (cell r ''internal_id''))\<rparr>"

definition row_file :: "sql_row \<Rightarrow> FileStorage" where
  "row_file r = \<lparr>fs_id = text_of (cell r ''file_id''), fs_name = text_of (cell r ''filename''),
                 fs_hash = text_of (cell r ''hash'')\<rparr>"

definition app_tables :: "(string \<times> column list) list" where
  "app_tables =
     [(''users'', users_columns), (''groups'', groups_columns), (''user_group'', user_group_columns),
      (''files'', files_columns), (''messages'', messages_columns)]"

text \<open>Every table of the program exists with its columns, and its rows satisfy the constraints.\<close>

definition db_ok :: "('d \<Rightarrow> string \<Rightarrow> sql_row list) \<Rightarrow> ('d \<Rightarrow> string \<Rightarrow> column list option) \<Rightarrow> 'd \<Rightarrow> bool" where
  "db_ok tbl sch d \<longleftrightarrow>
     list_all (\<lambda>(t, sc). sch d t = Some sc \<and> table_ok sc (tbl d t)) app_tables"

lemma db_ok_iff:
  "db_ok tbl sch d \<longleftrightarrow>
     sch d ''users'' = Some users_columns \<and> table_ok users_columns (tbl d ''users'') \<and>
     sch d ''groups'' = Some groups_columns \<and> table_ok groups_columns (tbl d ''groups'') \<and>
     sch d ''user_group'' = Some user_group_columns \<and>
       table_ok user_group_columns (tbl d ''user_group'') \<and>
     sch d ''files'' = Some files_columns \<and> table_ok files_columns (tbl d ''files'') \<and>
     sch d ''messages'' = Some messages_columns \<and> table_ok messages_columns (tbl d ''messages'')"
  by (simp add: db_ok_def app_tables_def)

lemmas columns_defs = users_columns_def groups_columns_def user_group_columns_def
  files_columns_def messages_columns_def

lemmas column_flags = is_auto_def is_unique_def is_required_def

lemma columns_distinct [simp]:
  "distinct (map col_name users_columns)" "distinct (map col_name groups_columns)"
  "distinct (map col_name files_columns)" "distinct (map col_name messages_columns)"
  by (simp_all add: columns_defs)

lemma auto_columns_integer:
  "\<forall>c \<in> set users_columns. is_auto c \<longrightarrow> col_type c = INTEGER"
  "\<forall>c \<in> set groups_columns. is_auto c \<longrightarrow> col_type c = INTEGER"
  "\<forall>c \<in> set files_columns. is_auto c \<longrightarrow> col_type c = INTEGER"
  "\<forall>c \<in> set messages_columns. is_auto c \<longrightarrow> col_type c = INTEGER"
  by (simp_all add: columns_defs column_flags)

lemma has_auto:
  "list_ex is_auto users_columns" "list_ex is_auto messages_columns"
  by (simp_all add: columns_defs column_flags)

subsection \<open>Rows of the tables\<close>

lemma getColumn_cell: "n \<in> fst ` set r \<Longrightarrow> getColumn r n = Inr (cell r n)"
  by (auto simp: getColumn_def cell_def map_of_eq_None_iff split: option.splits)

lemma conforms_cell:
  assumes "conforms sc r" and "c \<in> set sc"
  shows "getColumn r (col_name c) = Inr (cell r (col_name c))"
    and "fits (col_type c) (cell r (col_name c))"
    and "is_required c \<Longrightarrow> cell r (col_name c) \<noteq> SqlNull"
  using assms conforms_names [OF assms] getColumn_cell
  by (auto simp: conforms_def list_all_iff)

lemma conforms_cells:
  assumes "conforms sc r"
  shows "list_all (\<lambda>c. getColumn r (col_name c) = Inr (cell r (col_name c)) \<and>
           fits (col_type c) (cell r (col_name c))) sc"
  using conforms_cell [OF assms] by (simp add: list_all_iff)

lemma unique_row:
  assumes u: "unique_ok sc rows" and c: "c \<in> set sc" "is_unique c"
    and r: "r \<in> set rows" "r' \<in> set rows"
    and e: "cell r (col_name c) = cell r' (col_name c)" "cell r (col_name c) \<noteq> SqlNull"
  shows "r = r'"
proof -
  let ?f = "\<lambda>r. cell r (col_name c)"
  have "distinct (filter (\<lambda>v. v \<noteq> SqlNull) (map ?f rows))"
    using u c by (auto simp: unique_ok_def list_all_iff)
  then show ?thesis using r e
  proof (induction rows)
    case (Cons q rows)
    have "?f x \<in> ?f ` set rows" if "?f y = ?f x" "y \<in> set rows" for x y
      using that by (metis imageI)
    with Cons show ?case by (auto split: if_splits)
  qed simp
qed

lemma fits_iff:
  "fits INTEGER v \<longleftrightarrow> v = SqlNull \<or> (\<exists>i. v = SqlInt i)"
  "fits TEXT_type v \<longleftrightarrow> v = SqlNull \<or> (\<exists>s. v = SqlText s)"
  by (cases v; simp)+

lemma users_cells:
  assumes "conforms users_columns r"
  obtains i n p where "cell r ''user_id'' = SqlInt i" "cell r ''username'' = SqlText n"
    "cell r ''password'' = SqlText p"
  using assms by (auto simp: conforms_def users_columns_def column_flags fits_iff)

lemma messages_cells:
  assumes "conforms messages_columns r"
  obtains i s t ty ts where "cell r ''message_id'' = SqlInt i" "cell r ''sender_id'' = SqlInt s"
    "cell r ''receiver_id'' = SqlInt t" "cell r ''type'' = SqlInt ty"
    "cell r ''timestamp'' = SqlInt ts"
    "fits TEXT_type (cell r ''content'')" "fits INTEGER (cell r ''internal_id'')"
  using assms by (auto simp: conforms_def messages_columns_def column_flags fits_iff)

subsection \<open>Contracts\<close>

text \<open>
  Accounts: a map from user names to accounts, read by name and extended by \<open>create\<close>, which refuses
  a name that is taken.
\<close>

locale account_store =
  fixes inv :: "'d \<Rightarrow> bool"
    and accounts :: "'d \<Rightarrow> string \<Rightarrow> User option"
    and get :: "'d \<Rightarrow> string \<Rightarrow> User option run"
    and create :: "'d \<Rightarrow> User \<Rightarrow> bool \<times> 'd"
  assumes get_accounts: "inv d \<Longrightarrow> get d n = Inr r \<Longrightarrow> r = accounts d (c_str n)"
    and create_refused: "inv d \<Longrightarrow> create d u = (False, d') \<Longrightarrow> accounts d' = accounts d"
    and create_accepted: "inv d \<Longrightarrow> create d u = (True, d') \<Longrightarrow>
      accounts d (usr_username u) = None \<and>
      (\<exists>i. accounts d' =
         (accounts d)(usr_username u \<mapsto> make_User i (usr_username u) (usr_password u)))"
    and create_inv: "inv d \<Longrightarrow> create d u = (b, d') \<Longrightarrow> inv d'"
begin

lemma create_frame:
  assumes "inv d" and "create d u = (b, d')" and "n \<noteq> usr_username u"
  shows "accounts d' n = accounts d n"
  using create_refused [of d u d'] create_accepted [of d u d'] assms by (cases b) auto

lemma create_then_get:
  assumes "inv d" and "create d u = (True, d')" and "get d' n = Inr r" and "c_str n = usr_username u"
  shows "\<exists>i. r = Some (make_User i (usr_username u) (usr_password u))"
  using create_accepted [OF assms(1,2)] get_accounts [OF create_inv [OF assms(1,2)] assms(3)] assms(4)
  by auto

lemma create_twice:
  assumes "inv d" and "create d u = (True, d')" and "create d' v = (b, d'')"
    and "usr_username v = usr_username u"
  shows "\<not> b"
  using create_accepted [OF assms(1,2)] create_accepted [OF create_inv [OF assms(1,2)], of v d'']
    assms(3,4) by auto

end

text \<open>
  Conversations: for each ordered pair of users the list of their messages, oldest first, numbered
  from 1 by \<open>msg_internalId\<close>.
\<close>

definition numbered :: "Message list \<Rightarrow> bool" where
  "numbered ms \<longleftrightarrow> map (\<lambda>m. sint (msg_internalId m)) ms = map int [1..<Suc (length ms)]"

locale conversation_store =
  fixes inv :: "'d \<Rightarrow> bool"
    and conv :: "'d \<Rightarrow> int32 \<Rightarrow> int32 \<Rightarrow> Message list"
    and get :: "'d \<Rightarrow> int32 \<Rightarrow> int32 \<Rightarrow> int32 \<Rightarrow> Message option run"
    and get_all :: "'d \<Rightarrow> int32 \<Rightarrow> int32 \<Rightarrow> Message list run"
    and append :: "'d \<Rightarrow> RawMessage \<Rightarrow> int \<Rightarrow> (Message option \<times> 'd) run"
  assumes inv_numbered: "inv d \<Longrightarrow> numbered (conv d a b)"
    and get_member: "inv d \<Longrightarrow> get d a b i = Inr (Some m) \<Longrightarrow>
      m \<in> set (conv d a b) \<and> msg_internalId m = i"
    and get_none: "inv d \<Longrightarrow> get d a b i = Inr None \<Longrightarrow>
      \<forall>m \<in> set (conv d a b). msg_internalId m \<noteq> i"
    and get_all_conv: "inv d \<Longrightarrow> get_all d a b = Inr ms \<Longrightarrow> mset ms = mset (conv d a b)"
    and conv_key: "inv d \<Longrightarrow> m \<in> set (conv d a b) \<Longrightarrow>
      raw_from (msg_message m) = a \<and> raw_to (msg_message m) = b"
    and append_some: "inv d \<Longrightarrow> append d rm now = Inr (Some m, d') \<Longrightarrow>
      msg_message m = rm \<and> msg_timestamp m = getTimestamp now \<and>
      conv d' (raw_from rm) (raw_to rm) = conv d (raw_from rm) (raw_to rm) @ [m] \<and>
      (\<forall>a b. (a, b) \<noteq> (raw_from rm, raw_to rm) \<longrightarrow> conv d' a b = conv d a b)"
    and append_none: "inv d \<Longrightarrow> append d rm now = Inr (None, d') \<Longrightarrow> conv d' = conv d"
    and append_inv: "inv d \<Longrightarrow> append d rm now = Inr (r, d') \<Longrightarrow> inv d'"
begin

lemma numbered_nth:
  assumes "inv d" and "k < length (conv d a b)"
  shows "sint (msg_internalId (conv d a b ! k)) = int k + 1"
proof -
  have "map (\<lambda>m. sint (msg_internalId m)) (conv d a b) ! k =
      map int [1..<Suc (length (conv d a b))] ! k"
    using inv_numbered [OF assms(1), of a b] by (simp only: numbered_def)
  then show ?thesis using assms(2) by (simp del: upt_Suc)
qed

lemma internal_id_unique:
  assumes "inv d" and "m \<in> set (conv d a b)" and "m' \<in> set (conv d a b)"
    and "msg_internalId m = msg_internalId m'"
  shows "m = m'"
proof -
  obtain k k' where k: "k < length (conv d a b)" "m = conv d a b ! k"
    and k': "k' < length (conv d a b)" "m' = conv d a b ! k'"
    using assms(2,3) by (auto simp: in_set_conv_nth)
  have "sint (msg_internalId m) = int k + 1"
    unfolding k(2) by (rule numbered_nth [OF assms(1) k(1)])
  moreover have "sint (msg_internalId m') = int k' + 1"
    unfolding k'(2) by (rule numbered_nth [OF assms(1) k'(1)])
  ultimately have "k = k'" using assms(4) by simp
  then show ?thesis unfolding k(2) k'(2) by (rule arg_cong)
qed

lemma append_number:
  assumes "inv d" and "append d rm now = Inr (Some m, d')"
  shows "sint (msg_internalId m) = int (length (conv d (raw_from rm) (raw_to rm))) + 1"
proof -
  let ?c = "conv d (raw_from rm) (raw_to rm)"
  have c': "conv d' (raw_from rm) (raw_to rm) = ?c @ [m]"
    using append_some [OF assms] by blast
  have "sint (msg_internalId (conv d' (raw_from rm) (raw_to rm) ! length ?c)) = int (length ?c) + 1"
    by (rule numbered_nth [OF append_inv [OF assms]]) (simp only: c' length_append, simp)
  then show ?thesis by (simp only: c' nth_append_length)
qed

lemma get_stored:
  assumes "inv d" and "m \<in> set (conv d a b)" and "get d a b (msg_internalId m) = Inr r"
  shows "r = Some m"
proof (cases r)
  case None
  then show ?thesis using get_none [OF assms(1)] assms(2,3) by blast
next
  case (Some m2)
  then show ?thesis using get_member [OF assms(1)] assms(2,3) internal_id_unique [OF assms(1)] by blast
qed

lemma append_then_get:
  assumes "inv d" and "append d rm now = Inr (Some m, d')"
    and "get d' (raw_from rm) (raw_to rm) (msg_internalId m) = Inr r"
  shows "r = Some m"
  by (rule get_stored [OF append_inv [OF assms(1,2)] _ assms(3)]) (use append_some [OF assms(1,2)] in simp)

lemma get_all_length:
  assumes "inv d" and "get_all d a b = Inr ms"
  shows "length ms = length (conv d a b)"
  using get_all_conv [OF assms] by (metis size_mset)

end

text \<open>Files: a map from file ids to metadata, extended by \<open>create\<close> and overwritten by \<open>update\<close>.\<close>

locale file_store =
  fixes inv :: "'d \<Rightarrow> bool"
    and files :: "'d \<Rightarrow> string \<Rightarrow> FileStorage option"
    and get :: "'d \<Rightarrow> string \<Rightarrow> FileStorage option run"
    and create :: "'d \<Rightarrow> string \<Rightarrow> (string option \<times> 'd) run"
    and update :: "'d \<Rightarrow> FileStorage \<Rightarrow> (bool \<times> 'd) run"
  assumes get_files: "inv d \<Longrightarrow> get d i = Inr r \<Longrightarrow> r = files d (c_str i)"
    and files_key: "inv d \<Longrightarrow> files d i = Some f \<Longrightarrow> fs_id f = i"
    and create_some: "inv d \<Longrightarrow> create d u = Inr (Some i, d') \<Longrightarrow>
      i = getUUID u \<and> files d i = None \<and>
      files d' = (files d)(i \<mapsto> \<lparr>fs_id = i, fs_name = [], fs_hash = []\<rparr>)"
    and create_none: "inv d \<Longrightarrow> create d u = Inr (None, d') \<Longrightarrow> files d' = files d"
    and update_true: "inv d \<Longrightarrow> update d f = Inr (True, d') \<Longrightarrow>
      files d (fs_id f) \<noteq> None \<and> files d' = (files d)(fs_id f \<mapsto> f)"
    and update_false: "inv d \<Longrightarrow> update d f = Inr (False, d') \<Longrightarrow> files d' = files d"
    and create_inv: "inv d \<Longrightarrow> create d u = Inr (oi, d') \<Longrightarrow> inv d'"
    and update_inv: "inv d \<Longrightarrow> update d f = Inr (b, d') \<Longrightarrow> inv d'"
begin

lemma create_then_get:
  assumes "inv d" and "create d u = Inr (Some i, d')" and "get d' i = Inr r"
  shows "r = Some \<lparr>fs_id = i, fs_name = [], fs_hash = []\<rparr>"
proof -
  have "c_str i = i" using create_some [OF assms(1,2)] by (simp add: getUUID_def)
  then show ?thesis
    using get_files [OF create_inv [OF assms(1,2)] assms(3)] create_some [OF assms(1,2)] by simp
qed

lemma update_then_get:
  assumes "inv d" and "update d f = Inr (True, d')" and "get d' i = Inr r" and "c_str i = fs_id f"
  shows "r = Some f"
  using get_files [OF update_inv [OF assms(1,2)] assms(3)] update_true [OF assms(1,2)] assms(4)
  by simp

end

subsection \<open>What the tables say\<close>

definition accounts_of :: "('d \<Rightarrow> string \<Rightarrow> sql_row list) \<Rightarrow> 'd \<Rightarrow> string \<Rightarrow> User option" where
  "accounts_of tbl d n =
     map_option row_user (find (\<lambda>r. cell r ''username'' = SqlText n) (tbl d ''users''))"

definition files_of :: "('d \<Rightarrow> string \<Rightarrow> sql_row list) \<Rightarrow> 'd \<Rightarrow> string \<Rightarrow> FileStorage option" where
  "files_of tbl d i =
     map_option row_file (find (\<lambda>r. cell r ''file_id'' = SqlText i) (tbl d ''files''))"

definition conv_rows :: "('d \<Rightarrow> string \<Rightarrow> sql_row list) \<Rightarrow> 'd \<Rightarrow> int32 \<Rightarrow> int32 \<Rightarrow> sql_row list" where
  "conv_rows tbl d a b =
     filter (row_matches [''sender_id'', ''receiver_id''] [bind_int a, bind_int b])
       (tbl d ''messages'')"

definition conv_of :: "('d \<Rightarrow> string \<Rightarrow> sql_row list) \<Rightarrow> 'd \<Rightarrow> int32 \<Rightarrow> int32 \<Rightarrow> Message list" where
  "conv_of tbl d a b = map row_message (conv_rows tbl d a b)"

definition numbered_rows :: "sql_row list \<Rightarrow> bool" where
  "numbered_rows rs \<longleftrightarrow>
     map (\<lambda>r. cell r ''internal_id'') rs = map (\<lambda>k. SqlInt (int k)) [1..<Suc (length rs)] \<and>
     int (length rs) < 2 ^ 31"

text \<open>The invariant of the database that every access keeps.\<close>

definition store_inv ::
    "('d \<Rightarrow> string \<Rightarrow> sql_row list) \<Rightarrow> ('d \<Rightarrow> string \<Rightarrow> column list option) \<Rightarrow> 'd \<Rightarrow> bool" where
  "store_inv tbl sch d \<longleftrightarrow> db_ok tbl sch d \<and> (\<forall>a b. numbered_rows (conv_rows tbl d a b))"

lemma frames_of_tables:
  "tbl d' ''users'' = tbl d ''users'' \<Longrightarrow> accounts_of tbl d' = accounts_of tbl d"
  "tbl d' ''messages'' = tbl d ''messages'' \<Longrightarrow> conv_of tbl d' = conv_of tbl d"
  "tbl d' ''files'' = tbl d ''files'' \<Longrightarrow> files_of tbl d' = files_of tbl d"
  by (simp_all add: accounts_of_def conv_of_def conv_rows_def files_of_def fun_eq_iff)

lemma find_append: "find P (xs @ ys) = (case find P xs of None \<Rightarrow> find P ys | Some x \<Rightarrow> Some x)"
  by (induction xs) auto

lemma db_ok_step:
  assumes "db_ok tbl sch d" and "sch d' = sch d" and "\<And>u. u \<noteq> t \<Longrightarrow> tbl d' u = tbl d u"
    and "\<And>sc. sch d t = Some sc \<Longrightarrow> table_ok sc (tbl d t) \<Longrightarrow> table_ok sc (tbl d' t)"
  shows "db_ok tbl sch d'"
  unfolding db_ok_def list_all_iff
proof (clarify)
  fix u sc
  assume "(u, sc) \<in> set app_tables"
  then have "sch d u = Some sc \<and> table_ok sc (tbl d u)"
    using assms(1) by (auto simp: db_ok_def list_all_iff)
  then show "sch d' u = Some sc \<and> table_ok sc (tbl d' u)"
    using assms(2-4) by (cases "u = t") auto
qed

lemma bind_int_nonnull [simp]: "bind_int i \<noteq> SqlNull" "(bind_int i = bind_int j) = (i = j)"
  "int_of (bind_int i) = sint i" "fits INTEGER (bind_int i)"
  by (auto simp: bind_int_def) (metis to_int32_sint)

lemma conv_rows_iff:
  "r \<in> set (conv_rows tbl d a b) \<longleftrightarrow>
     r \<in> set (tbl d ''messages'') \<and> cell r ''sender_id'' = bind_int a \<and>
     cell r ''receiver_id'' = bind_int b"
  by (auto simp: conv_rows_def row_matches_def)

lemma conv_rows_other:
  "tbl d' ''messages'' = tbl d ''messages'' \<Longrightarrow> conv_rows tbl d' = conv_rows tbl d"
  by (intro ext) (simp add: conv_rows_def)

context sqlite_laws
begin

lemma getInt_fits: "fits INTEGER v \<Longrightarrow> sql_getInt eng v = to_int32 (int_of v)"
  by (auto simp: fits_iff get_int get_null int_of_def)

lemma getString_fits: "fits TEXT_type v \<Longrightarrow> sql_getString eng v = text_of v"
  by (auto simp: fits_iff get_string get_null text_of_def)

lemma read_User_row: "conforms users_columns r \<Longrightarrow> read_User eng r = Inr (row_user r)"
  by (drule conforms_cells)
    (simp add: read_User_def row_user_def users_columns_def getInt_fits getString_fits)

lemma read_File_row: "conforms files_columns r \<Longrightarrow> read_File eng r = Inr (row_file r)"
  by (drule conforms_cells)
    (simp add: read_File_def row_file_def files_columns_def getInt_fits getString_fits
      setId_def setName_def setHash_def empty_FileStorage_def)

lemma read_Message_row: "conforms messages_columns r \<Longrightarrow> read_Message eng r = Inr (row_message r)"
  by (drule conforms_cells)
    (simp add: read_Message_def row_message_def messages_columns_def getInt_fits getString_fits)

lemma fetch_first_Inr:
  assumes "sch d t \<noteq> None" and "\<And>r. r \<in> set (tbl d t) \<Longrightarrow> f r = Inr (g r)"
    and "fetch_first eng d (SelectAll t cs) vs f = Inr res"
  obtains (none) "res = None" "\<forall>r \<in> set (tbl d t). \<not> row_matches cs vs r"
  | (some) r where "res = Some (g r)" "r \<in> set (tbl d t)" "row_matches cs vs r"
proof -
  obtain rs x where st: "sql_step eng d (SelectAll t cs) vs = (rs, x)" by fastforce
  have sub: "set rs \<subseteq> set (filter (row_matches cs vs) (tbl d t))"
    using select_sub [OF assms(1) st] set_mset_mono by fastforce
  show thesis
  proof (cases rs)
    case Nil
    with assms(3) st have x: "x = None" and r: "res = None"
      by (auto simp: fetch_first_def split: option.splits)
    then have "mset rs = mset (filter (row_matches cs vs) (tbl d t))"
      using select_all [OF assms(1)] st by simp
    then have "filter (row_matches cs vs) (tbl d t) = []" using Nil by simp
    then show thesis using none r by (auto simp: filter_empty_conv)
  next
    case (Cons r rs')
    then have r: "r \<in> set (tbl d t)" "row_matches cs vs r" using sub by auto
    moreover have "res = Some (g r)"
      using assms(3) st Cons assms(2) [OF r(1)] by (auto simp: fetch_first_def split: option.splits)
    ultimately show thesis using some by blast
  qed
qed

lemma fetch_all_Inr:
  assumes "sch d t \<noteq> None" and "\<And>r. r \<in> set (tbl d t) \<Longrightarrow> f r = Inr (g r)"
    and "fetch_all eng d (SelectAll t cs) vs f = Inr out"
  shows "mset out = mset (map g (filter (row_matches cs vs) (tbl d t)))"
proof -
  obtain rs x where st: "sql_step eng d (SelectAll t cs) vs = (rs, x)" by fastforce
  have sub: "set rs \<subseteq> set (tbl d t)"
    using select_sub [OF assms(1) st] set_mset_mono by fastforce
  then have "rmap f rs = Inr (map g rs)" using assms(2) by (intro rmap_Inr) auto
  with assms(3) st have x: "x = None" and out: "out = map g rs"
    by (auto simp: fetch_all_def split: option.splits)
  have "mset rs = mset (filter (row_matches cs vs) (tbl d t))"
    using select_all [OF assms(1)] st x by simp
  then show ?thesis by (simp add: out)
qed

lemma insert_ok:
  assumes "sch d t = Some sc" and "params_fit sc cs vs" and "distinct (map col_name sc)"
    and "\<forall>c \<in> set sc. is_auto c \<longrightarrow> col_type c = INTEGER" and "table_ok sc (tbl d t)"
    and "sql_exec eng d (InsertInto t cs) vs = (Inr n, d')"
  obtains k where "n = 1" "fresh_key sc (tbl d t) k" "row_ok sc (tbl d t) (new_row sc cs vs k)"
    "tbl d' t = tbl d t @ [new_row sc cs vs k]" "table_ok sc (tbl d' t)"
    "list_ex is_auto sc \<longrightarrow> sql_lastInsertRowid eng d' = k"
proof -
  obtain k where "n = 1" "fresh_key sc (tbl d t) k" and r: "row_ok sc (tbl d t) (new_row sc cs vs k)"
    and t: "tbl d' t = tbl d t @ [new_row sc cs vs k]"
    and "list_ex is_auto sc \<longrightarrow> sql_lastInsertRowid eng d' = k"
    using insert_row [OF assms(1,2,6)] by blast
  moreover have "table_ok sc (tbl d' t)"
    unfolding t by (rule table_ok_insert [OF assms(3,2) r assms(4,5)])
  ultimately show thesis using that by blast
qed

lemma db_rows:
  assumes "db_ok tbl sch d"
  shows "r \<in> set (tbl d ''users'') \<Longrightarrow> conforms users_columns r"
    and "r \<in> set (tbl d ''files'') \<Longrightarrow> conforms files_columns r"
    and "r \<in> set (tbl d ''messages'') \<Longrightarrow> conforms messages_columns r"
  using assms by (auto simp: db_ok_iff table_ok_def list_all_iff)

subsection \<open>Accounts\<close>

lemma getUser_name_accounts:
  assumes ok: "db_ok tbl sch d" and g: "getUser_name eng d n = Inr r"
  shows "r = accounts_of tbl d (c_str n)"
proof -
  let ?P = "\<lambda>r. cell r ''username'' = SqlText (c_str n)"
  have sch: "sch d ''users'' \<noteq> None" and uq: "unique_ok users_columns (tbl d ''users'')"
    using ok by (auto simp: db_ok_iff table_ok_def)
  have rd: "\<And>r. r \<in> set (tbl d ''users'') \<Longrightarrow> read_User eng r = Inr (row_user r)"
    using db_rows(1) [OF ok] read_User_row by blast
  from g have f: "fetch_first eng d (SelectAll ''users'' [''username'']) [SqlText (c_str n)]
      (read_User eng) = Inr r" by (simp only: getUser_name_def)
  show ?thesis
  proof (rule fetch_first_Inr [OF sch rd f])
    assume "r = None" and "\<forall>x \<in> set (tbl d ''users''). \<not> row_matches [''username''] [SqlText (c_str n)] x"
    then have "find ?P (tbl d ''users'') = None" by (auto simp: find_None_iff)
    with \<open>r = None\<close> show ?thesis by (simp add: accounts_of_def)
  next
    fix x assume x: "r = Some (row_user x)" "x \<in> set (tbl d ''users'')"
      "row_matches [''username''] [SqlText (c_str n)] x"
    then obtain y where y: "find ?P (tbl d ''users'') = Some y"
      by (cases "find ?P (tbl d ''users'')") (auto simp: find_None_iff)
    then have "y \<in> set (tbl d ''users'')" "?P y" by (auto simp: find_Some_iff)
    with x have "y = x"
      using unique_row [OF uq, of "column_of ''username'' TEXT_type [NOT_NULL, UNIQUE]" y x]
      by (simp add: users_columns_def is_unique_def)
    with x y show ?thesis by (simp add: accounts_of_def)
  qed simp
qed

lemma users_params_fit:
  "params_fit users_columns [''username'', ''password''] [SqlText n, SqlText p]"
  by (simp add: params_fit_def users_columns_def is_auto_def)

lemma users_new_row:
  "new_row users_columns [''username'', ''password''] [SqlText n, SqlText p] k =
     [(''user_id'', SqlInt k), (''username'', SqlText n), (''password'', SqlText p)]"
  by (simp add: new_row_def users_columns_def is_auto_def)

lemma createUser_True:
  assumes ok: "db_ok tbl sch d" and c: "createUser eng d u = (True, d')"
  obtains k where "tbl d' ''users'' = tbl d ''users'' @
      [[(''user_id'', SqlInt k), (''username'', SqlText (usr_username u)),
        (''password'', SqlText (usr_password u))]]"
    "fresh_key users_columns (tbl d ''users'') k"
    "\<forall>r \<in> set (tbl d ''users''). cell r ''username'' \<noteq> SqlText (usr_username u)"
    "\<And>t. t \<noteq> ''users'' \<Longrightarrow> tbl d' t = tbl d t" "sch d' = sch d" "db_ok tbl sch d'"
proof -
  let ?cs = "[''username'', ''password'']"
  let ?vs = "[SqlText (usr_username u), SqlText (usr_password u)]"
  have us: "sch d ''users'' = Some users_columns" "table_ok users_columns (tbl d ''users'')"
    using ok by (simp_all add: db_ok_iff)
  from c obtain n where e: "sql_exec eng d (InsertInto ''users'' ?cs) ?vs = (Inr n, d')"
    by (auto simp: createUser_def Let_def split: option.splits prod.splits sum.splits)
  obtain k where k: "fresh_key users_columns (tbl d ''users'') k"
      "row_ok users_columns (tbl d ''users'') (new_row users_columns ?cs ?vs k)"
      "tbl d' ''users'' = tbl d ''users'' @ [new_row users_columns ?cs ?vs k]"
      "table_ok users_columns (tbl d' ''users'')"
    by (rule insert_ok [OF us(1) users_params_fit columns_distinct(1) auto_columns_integer(1) us(2) e])
  have fr: "sch d' = sch d" "\<And>t. t \<noteq> ''users'' \<Longrightarrow> tbl d' t = tbl d t"
    using insert_frame [OF _ e] us by auto
  have "db_ok tbl sch d'"
    using db_ok_step [OF ok fr(1), of "''users''"] fr(2) k(4) us(1) by simp
  moreover have "\<forall>r \<in> set (tbl d ''users''). cell r ''username'' \<noteq> SqlText (usr_username u)"
    using k(2) unfolding users_new_row
    by (simp add: row_ok_def users_columns_def column_flags list_all_iff)
  ultimately show thesis using that k(1,3) fr by (simp add: users_new_row)
qed

lemma createUser_False:
  assumes ok: "db_ok tbl sch d" and c: "createUser eng d u = (False, d')"
  shows "tbl d' = tbl d \<and> sch d' = sch d"
proof (cases "sql_prepare eng d (InsertInto ''users'' [''username'', ''password''])")
  case (Some e)
  with c show ?thesis by (simp add: createUser_def)
next
  case None
  let ?vs = "[SqlText (usr_username u), SqlText (usr_password u)]"
  have us: "sch d ''users'' = Some users_columns" "table_ok users_columns (tbl d ''users'')"
    using ok by (simp_all add: db_ok_iff)
  obtain x where e: "sql_exec eng d (InsertInto ''users'' [''username'', ''password'']) ?vs = (x, d')"
    using None c by (auto simp: createUser_def split: prod.splits sum.splits)
  have "\<exists>m. x = Inl m"
  proof (cases x)
    case (Inr n)
    then have "n = 1" using insert_row [OF us(1) users_params_fit] e by blast
    then show ?thesis using None c e Inr by (simp add: createUser_def)
  qed simp
  then have "tbl d' ''users'' = tbl d ''users''" using insert_fails us(1) e by fastforce
  moreover have "sch d' = sch d" "\<And>t. t \<noteq> ''users'' \<Longrightarrow> tbl d' t = tbl d t"
    using insert_frame [OF _ e] us by auto
  ultimately show ?thesis by (metis ext)
qed

lemma accounts_frame:
  "tbl d' ''users'' = tbl d ''users'' \<Longrightarrow> accounts_of tbl d' = accounts_of tbl d"
  by (intro ext) (simp add: accounts_of_def)

lemma store_inv_frame:
  assumes "store_inv tbl sch d" and "db_ok tbl sch d'" and "tbl d' ''messages'' = tbl d ''messages''"
  shows "store_inv tbl sch d'"
  using assms conv_rows_other [of tbl d' d] by (simp add: store_inv_def)

lemma createUser_store_inv:
  assumes "store_inv tbl sch d" and "createUser eng d u = (b, d')"
  shows "store_inv tbl sch d'"
proof (cases b)
  case True
  have ok: "db_ok tbl sch d" using assms(1) by (simp add: store_inv_def)
  have c: "createUser eng d u = (True, d')" using assms(2) True by simp
  obtain k where "\<And>t. t \<noteq> ''users'' \<Longrightarrow> tbl d' t = tbl d t" "db_ok tbl sch d'"
    by (rule createUser_True [OF ok c]) (rule that)
  then show ?thesis using store_inv_frame [OF assms(1)] by simp
next
  case False
  with assms createUser_False [of d u d'] show ?thesis
    by (simp add: store_inv_def db_ok_iff conv_rows_def)
qed

lemma createUser_accounts:
  assumes ok: "db_ok tbl sch d" and c: "createUser eng d u = (True, d')"
  shows "accounts_of tbl d (usr_username u) = None \<and>
    (\<exists>i. accounts_of tbl d' =
       (accounts_of tbl d)(usr_username u \<mapsto> make_User i (usr_username u) (usr_password u)))"
proof (rule createUser_True [OF ok c])
  fix k
  assume t: "tbl d' ''users'' = tbl d ''users'' @
      [[(''user_id'', SqlInt k), (''username'', SqlText (usr_username u)),
        (''password'', SqlText (usr_password u))]]"
    and new: "\<forall>r \<in> set (tbl d ''users''). cell r ''username'' \<noteq> SqlText (usr_username u)"
  have none: "find (\<lambda>r. cell r ''username'' = SqlText (usr_username u)) (tbl d ''users'') = None"
    using new by (auto simp: find_None_iff)
  have "accounts_of tbl d' n =
      ((accounts_of tbl d)(usr_username u \<mapsto>
         make_User (to_int32 k) (usr_username u) (usr_password u))) n" for n
    by (cases "n = usr_username u")
      (simp_all add: accounts_of_def t find_append none row_user_def split: option.split)
  then have "accounts_of tbl d' = (accounts_of tbl d)(usr_username u \<mapsto>
         make_User (to_int32 k) (usr_username u) (usr_password u))" by (rule ext)
  moreover have "accounts_of tbl d (usr_username u) = None" by (simp add: accounts_of_def none)
  ultimately show ?thesis by blast
qed

lemma store_inv_ok: "store_inv tbl sch d \<Longrightarrow> db_ok tbl sch d"
  by (simp add: store_inv_def)

end

sublocale sqlite_laws \<subseteq> account: account_store "store_inv tbl sch" "accounts_of tbl"
    "getUser_name eng" "createUser eng"
proof
  fix d n r
  assume "store_inv tbl sch d" "getUser_name eng d n = Inr r"
  then show "r = accounts_of tbl d (c_str n)"
    by (intro getUser_name_accounts store_inv_ok)
next
  fix d u d'
  assume "store_inv tbl sch d" "createUser eng d u = (False, d')"
  then show "accounts_of tbl d' = accounts_of tbl d"
    using createUser_False [OF store_inv_ok] accounts_frame by metis
next
  fix d u d'
  assume "store_inv tbl sch d" "createUser eng d u = (True, d')"
  then show "accounts_of tbl d (usr_username u) = None \<and>
      (\<exists>i. accounts_of tbl d' =
         (accounts_of tbl d)(usr_username u \<mapsto> make_User i (usr_username u) (usr_password u)))"
    by (intro createUser_accounts store_inv_ok)
next
  fix d u b d'
  assume "store_inv tbl sch d" "createUser eng d u = (b, d')"
  then show "store_inv tbl sch d'" by (rule createUser_store_inv)
qed

end
