(* ===== verification/Db_Stores.thy ===== *)
theory Db_Stores
  imports Db_Correct
begin

text \<open>
  The rest of what the database promises: conversations are numbered from 1 without gaps and keep
  every message, files are a map from their ids, and opening a database creates the tables it lacks
  and touches nothing else.
\<close>

subsection \<open>Conversations\<close>

text \<open>The loop of \<open>createMsgByRawMsg\<close> finds the largest internal id, in whatever order it sees them.\<close>

lemma max_internal_id_upper:
  "sint mx \<le> sint (max_internal_id ms mx) \<and>
   (\<forall>m \<in> set ms. sint (msg_internalId m) \<le> sint (max_internal_id ms mx))"
proof (induction ms arbitrary: mx)
  case Nil
  then show ?case by simp
next
  case (Cons m ms)
  let ?mx = "if sint (msg_internalId m) > sint mx then msg_internalId m else mx"
  have "sint mx \<le> sint ?mx \<and> sint (msg_internalId m) \<le> sint ?mx" by auto
  then show ?case using Cons.IH [of ?mx] by (auto simp del: if_split)
qed

lemma max_internal_id_mem:
  "max_internal_id ms mx = mx \<or> max_internal_id ms mx \<in> msg_internalId ` set ms"
proof (induction ms arbitrary: mx)
  case Nil
  then show ?case by simp
next
  case (Cons m ms)
  then show ?case using Cons.IH [of "msg_internalId m"] Cons.IH [of mx] by auto
qed

lemma max_internal_id_numbered:
  assumes "sint ` msg_internalId ` set ms = int ` {1..n}"
  shows "sint (max_internal_id ms 0) = int n"
proof (cases "n = 0")
  case True
  with assms have "ms = []" by auto
  with True show ?thesis by simp
next
  case False
  then have "int n \<in> sint ` msg_internalId ` set ms" unfolding assms by simp
  then have "int n \<le> sint (max_internal_id ms 0)"
    using max_internal_id_upper [of 0 ms] by auto
  moreover have "sint (max_internal_id ms 0) \<le> int n"
  proof -
    have "max_internal_id ms 0 = 0 \<or> sint (max_internal_id ms 0) \<in> int ` {1..n}"
      using max_internal_id_mem [of ms 0] assms by blast
    then show ?thesis by auto
  qed
  ultimately show ?thesis by simp
qed

lemma numbered_rows_int:
  "numbered_rows rs \<Longrightarrow> r \<in> set rs \<Longrightarrow>
   \<exists>k. cell r ''internal_id'' = SqlInt (int k) \<and> k \<in> {1..length rs}"
proof -
  assume n: "numbered_rows rs" and r: "r \<in> set rs"
  then have "cell r ''internal_id'' \<in> set (map (\<lambda>r. cell r ''internal_id'') rs)" by simp
  then show ?thesis using n unfolding numbered_rows_def by (auto simp del: upt_Suc)
qed

lemma sint_small: "0 \<le> i \<Longrightarrow> i < 2 ^ 31 \<Longrightarrow> sint (to_int32 i) = i"
  by (rule sint_to_int32_range) auto

lemma numbered_rows_messages:
  assumes n: "numbered_rows rs"
  shows "numbered (map row_message rs)"
proof -
  have "map (\<lambda>r. sint (msg_internalId (row_message r))) rs =
      map (\<lambda>v. sint (to_int32 (int_of v))) (map (\<lambda>r. cell r ''internal_id'') rs)"
    by (simp add: row_message_def)
  also have "\<dots> = map (\<lambda>k. sint (to_int32 (int k))) [1..<Suc (length rs)]"
    using n unfolding numbered_rows_def by (simp del: upt_Suc)
  also have "\<dots> = map int [1..<Suc (length rs)]"
    using n by (intro map_cong refl sint_small) (auto simp: numbered_rows_def)
  finally show ?thesis by (simp add: numbered_def comp_def)
qed

lemma numbered_ids: "numbered ms \<Longrightarrow> sint ` msg_internalId ` set ms = int ` {1..length ms}"
proof -
  assume "numbered ms"
  then have "set (map (\<lambda>m. sint (msg_internalId m)) ms) = set (map int [1..<Suc (length ms)])"
    unfolding numbered_def by (rule arg_cong)
  then show ?thesis by (simp add: image_image atLeastLessThanSuc_atLeastAtMost del: upt_Suc)
qed

lemma numbered_rows_snoc:
  assumes "numbered_rows rs" and "cell r ''internal_id'' = SqlInt (int (length rs) + 1)"
    and "int (length rs) + 1 < 2 ^ 31"
  shows "numbered_rows (rs @ [r])"
  using assms by (simp add: numbered_rows_def)

abbreviation message_columns_bound :: "string list" where
  "message_columns_bound \<equiv>
     [''sender_id'', ''receiver_id'', ''content'', ''type'', ''internal_id'', ''timestamp'']"

definition message_values :: "Message \<Rightarrow> sql_value list" where
  "message_values m =
     [bind_int (raw_from (msg_message m)), bind_int (raw_to (msg_message m)),
      SqlText (raw_content (msg_message m)), bind_int (raw_type (msg_message m)),
      bind_int (msg_internalId m), bind_int (msg_timestamp m)]"

definition message_row :: "Message \<Rightarrow> int \<Rightarrow> sql_row" where
  "message_row m k =
     [(''message_id'', SqlInt k), (''sender_id'', bind_int (raw_from (msg_message m))),
      (''receiver_id'', bind_int (raw_to (msg_message m))),
      (''type'', bind_int (raw_type (msg_message m))), (''internal_id'', bind_int (msg_internalId m)),
      (''content'', SqlText (raw_content (msg_message m))), (''file_id'', SqlNull),
      (''timestamp'', bind_int (msg_timestamp m))]"

lemma messages_params_fit:
  "params_fit messages_columns message_columns_bound (message_values m)"
  by (simp add: params_fit_def messages_columns_def is_auto_def message_values_def)

lemma messages_new_row:
  "new_row messages_columns message_columns_bound (message_values m) k = message_row m k"
  by (simp add: new_row_def messages_columns_def is_auto_def message_values_def message_row_def)

lemma row_message_row: "row_message (message_row m k) = m\<lparr>msg_id := to_int32 k\<rparr>"
  by (simp add: row_message_def message_row_def)

context sqlite_laws
begin

lemma getAllMessages_conv:
  assumes ok: "db_ok tbl sch d" and g: "getAllMessages eng d a b = Inr ms"
  shows "mset ms = mset (conv_of tbl d a b)"
proof -
  have sch: "sch d ''messages'' \<noteq> None" using ok by (simp add: db_ok_iff)
  have rd: "\<And>r. r \<in> set (tbl d ''messages'') \<Longrightarrow> read_Message eng r = Inr (row_message r)"
    using db_rows(3) [OF ok] read_Message_row by blast
  show ?thesis
    unfolding conv_of_def conv_rows_def
    by (rule fetch_all_Inr [OF sch rd g [unfolded getAllMessages_def]])
qed

lemma getMessage_conv:
  assumes ok: "db_ok tbl sch d" and g: "getMessage eng d a b i = Inr res"
  obtains (none) "res = None"
      "\<forall>r \<in> set (conv_rows tbl d a b). cell r ''internal_id'' \<noteq> bind_int i"
    | (some) r where "res = Some (row_message r)" "r \<in> set (conv_rows tbl d a b)"
      "cell r ''internal_id'' = bind_int i"
proof -
  have sch: "sch d ''messages'' \<noteq> None" using ok by (simp add: db_ok_iff)
  have rd: "\<And>r. r \<in> set (tbl d ''messages'') \<Longrightarrow> read_Message eng r = Inr (row_message r)"
    using db_rows(3) [OF ok] read_Message_row by blast
  show thesis
    by (rule fetch_first_Inr [OF sch rd g [unfolded getMessage_def]])
      (auto simp: row_matches_def conv_rows_iff intro: none some)
qed

lemma createMsg_Some:
  assumes ok: "db_ok tbl sch d" and c: "createMsg eng d m = Inr (Some i, d')"
  obtains k where "i = to_int32 k"
    "tbl d' ''messages'' = tbl d ''messages'' @ [message_row m k]"
    "\<And>t. t \<noteq> ''messages'' \<Longrightarrow> tbl d' t = tbl d t" "sch d' = sch d" "db_ok tbl sch d'"
proof -
  have ms: "sch d ''messages'' = Some messages_columns" "table_ok messages_columns (tbl d ''messages'')"
    using ok by (simp_all add: db_ok_iff)
  from c obtain n where e: "sql_exec eng d (InsertInto ''messages'' message_columns_bound)
        (message_values m) = (Inr n, d')" and i: "i = to_int32 (sql_lastInsertRowid eng d')"
    by (auto simp: createMsg_def Let_def message_values_def
        split: option.splits prod.splits sum.splits if_splits)
  obtain k where k:
      "tbl d' ''messages'' = tbl d ''messages'' @
         [new_row messages_columns message_columns_bound (message_values m) k]"
      "table_ok messages_columns (tbl d' ''messages'')"
      "list_ex is_auto messages_columns \<longrightarrow> sql_lastInsertRowid eng d' = k"
    by (rule insert_ok [OF ms(1) messages_params_fit columns_distinct(4) auto_columns_integer(4) ms(2) e])
  have fr: "sch d' = sch d" "\<And>t. t \<noteq> ''messages'' \<Longrightarrow> tbl d' t = tbl d t"
    using insert_frame [OF _ e] ms by auto
  have "db_ok tbl sch d'"
    using db_ok_step [OF ok fr(1), of "''messages''"] fr(2) k(2) ms(1) by simp
  then show thesis using that k i fr has_auto(2) by (simp add: messages_new_row)
qed

lemma createMsg_None:
  assumes ok: "db_ok tbl sch d" shows "createMsg eng d m \<noteq> Inr (None, d')"
proof
  assume c: "createMsg eng d m = Inr (None, d')"
  then obtain n where e: "sql_exec eng d (InsertInto ''messages'' message_columns_bound)
        (message_values m) = (Inr n, d')" and n: "n \<noteq> 1"
    by (auto simp: createMsg_def Let_def message_values_def
        split: option.splits prod.splits sum.splits if_splits)
  have "sch d ''messages'' = Some messages_columns" using ok by (simp add: db_ok_iff)
  then show False using insert_row [OF _ messages_params_fit e] n by blast
qed

lemma createMsgByRawMsg_Inr:
  assumes inv: "store_inv tbl sch d" and c: "createMsgByRawMsg eng d rm now = Inr (res, d')"
  obtains m k where "res = Some (m\<lparr>msg_id := to_int32 k\<rparr>)" "msg_message m = rm"
    "msg_timestamp m = getTimestamp now"
    "sint (msg_internalId m) = int (length (conv_rows tbl d (raw_from rm) (raw_to rm))) + 1"
    "tbl d' ''messages'' = tbl d ''messages'' @ [message_row m k]"
    "\<And>t. t \<noteq> ''messages'' \<Longrightarrow> tbl d' t = tbl d t" "sch d' = sch d" "db_ok tbl sch d'"
proof -
  let ?rs = "conv_rows tbl d (raw_from rm) (raw_to rm)"
  have ok: "db_ok tbl sch d" by (rule store_inv_ok [OF inv])
  from c obtain msgs where g: "getAllMessages eng d (raw_from rm) (raw_to rm) = Inr msgs"
    by (auto simp: createMsgByRawMsg_def)
  have "numbered (conv_of tbl d (raw_from rm) (raw_to rm))"
    using inv by (simp add: store_inv_def conv_of_def numbered_rows_messages)
  moreover have "set msgs = set (conv_of tbl d (raw_from rm) (raw_to rm))"
    using getAllMessages_conv [OF ok g] by (metis set_mset_mset)
  ultimately have mx: "sint (max_internal_id msgs 0) = int (length ?rs)"
    using numbered_ids by (intro max_internal_id_numbered) (fastforce simp: conv_of_def)
  from c g obtain ii where ii: "int32_succ (max_internal_id msgs 0) = Some ii"
    by (auto simp: createMsgByRawMsg_def split: option.splits)
  let ?m = "\<lparr>msg_message = rm, msg_id = 0, msg_timestamp = getTimestamp now, msg_internalId = ii\<rparr>"
  have rm: "\<lparr>raw_from = raw_from rm, raw_to = raw_to rm, raw_type = raw_type rm,
      raw_content = raw_content rm\<rparr> = rm" by simp
  from c g ii obtain x where x: "createMsg eng d ?m = Inr (x, d')"
      and res: "res = map_option (\<lambda>i. ?m\<lparr>msg_id := i\<rparr>) x"
    by (auto simp: createMsgByRawMsg_def Let_def rm split: option.splits)
  from x obtain i where "x = Some i" using createMsg_None [OF ok] by (cases x) auto
  with x have "createMsg eng d ?m = Inr (Some i, d')" by simp
  then show thesis
  proof (rule createMsg_Some [OF ok])
    fix k
    assume "i = to_int32 k" "tbl d' ''messages'' = tbl d ''messages'' @ [message_row ?m k]"
      "\<And>t. t \<noteq> ''messages'' \<Longrightarrow> tbl d' t = tbl d t" "sch d' = sch d" "db_ok tbl sch d'"
    then show thesis
      using that [where m = ?m and k = k] res \<open>x = Some i\<close> sint_int32_succ [OF ii] mx by simp
  qed
qed

lemma conv_rows_append:
  assumes "tbl d' ''messages'' = tbl d ''messages'' @ [message_row m k]"
  shows "conv_rows tbl d' a b =
    (if (a, b) = (raw_from (msg_message m), raw_to (msg_message m))
     then conv_rows tbl d a b @ [message_row m k] else conv_rows tbl d a b)"
  unfolding conv_rows_def assms by (auto simp: row_matches_def message_row_def)

lemma createMsgByRawMsg_store_inv:
  assumes inv: "store_inv tbl sch d" and c: "createMsgByRawMsg eng d rm now = Inr (res, d')"
  shows "store_inv tbl sch d'"
proof (rule createMsgByRawMsg_Inr [OF inv c])
  fix m k
  let ?rs = "conv_rows tbl d (raw_from rm) (raw_to rm)"
  assume m: "msg_message m = rm" and ii: "sint (msg_internalId m) = int (length ?rs) + 1"
    and t: "tbl d' ''messages'' = tbl d ''messages'' @ [message_row m k]" and ok: "db_ok tbl sch d'"
  have num: "numbered_rows (conv_rows tbl d a b)" for a b using inv by (simp add: store_inv_def)
  have "numbered_rows (?rs @ [message_row m k])"
  proof (rule numbered_rows_snoc [OF num])
    show "cell (message_row m k) ''internal_id'' = SqlInt (int (length ?rs) + 1)"
      using ii by (simp add: message_row_def bind_int_def)
    show "int (length ?rs) + 1 < 2 ^ 31"
      using sint_int32_bounds(2) [of "msg_internalId m"] ii by simp
  qed
  then show "store_inv tbl sch d'"
    using num ok by (simp add: store_inv_def conv_rows_append [OF t] m)
qed

end

sublocale sqlite_laws \<subseteq> conversation: conversation_store "store_inv tbl sch" "conv_of tbl"
    "getMessage eng" "getAllMessages eng" "createMsgByRawMsg eng"
proof
  fix d a b
  assume "store_inv tbl sch d"
  then show "numbered (conv_of tbl d a b)"
    by (simp add: store_inv_def conv_of_def numbered_rows_messages)
next
  fix d a b i m
  assume inv: "store_inv tbl sch d" and g: "getMessage eng d a b i = Inr (Some m)"
  then show "m \<in> set (conv_of tbl d a b) \<and> msg_internalId m = i"
    by (cases rule: getMessage_conv [OF store_inv_ok [OF inv] g])
      (auto simp: conv_of_def row_message_def)
next
  fix d a b i
  assume inv: "store_inv tbl sch d" and g: "getMessage eng d a b i = Inr None"
  have num: "numbered_rows (conv_rows tbl d a b)" using inv by (simp add: store_inv_def)
  have "msg_internalId (row_message r) \<noteq> i" if r: "r \<in> set (conv_rows tbl d a b)" for r
  proof -
    obtain k where k: "cell r ''internal_id'' = SqlInt (int k)" "k \<in> {1..length (conv_rows tbl d a b)}"
      using numbered_rows_int [OF num r] by blast
    then have "sint (to_int32 (int k)) = int k"
      using num by (intro sint_small) (auto simp: numbered_rows_def)
    then have "cell r ''internal_id'' = bind_int (msg_internalId (row_message r))"
      using k(1) by (simp add: bind_int_def row_message_def)
    moreover have "cell r ''internal_id'' \<noteq> bind_int i"
      using r by (cases rule: getMessage_conv [OF store_inv_ok [OF inv] g]) auto
    ultimately show ?thesis by auto
  qed
  then show "\<forall>m \<in> set (conv_of tbl d a b). msg_internalId m \<noteq> i"
    by (auto simp: conv_of_def)
next
  fix d a b ms
  assume "store_inv tbl sch d" "getAllMessages eng d a b = Inr ms"
  then show "mset ms = mset (conv_of tbl d a b)"
    by (intro getAllMessages_conv store_inv_ok)
next
  fix d m a b
  assume "store_inv tbl sch d" "m \<in> set (conv_of tbl d a b)"
  then show "raw_from (msg_message m) = a \<and> raw_to (msg_message m) = b"
    by (auto simp: conv_of_def conv_rows_iff row_message_def)
next
  fix d rm now m d'
  assume "store_inv tbl sch d" "createMsgByRawMsg eng d rm now = Inr (Some m, d')"
  then show "msg_message m = rm \<and> msg_timestamp m = getTimestamp now \<and>
      conv_of tbl d' (raw_from rm) (raw_to rm) = conv_of tbl d (raw_from rm) (raw_to rm) @ [m] \<and>
      (\<forall>a b. (a, b) \<noteq> (raw_from rm, raw_to rm) \<longrightarrow> conv_of tbl d' a b = conv_of tbl d a b)"
  proof (rule createMsgByRawMsg_Inr)
    fix m0 k
    assume m: "Some m = Some (m0\<lparr>msg_id := to_int32 k\<rparr>)" "msg_message m0 = rm"
        "msg_timestamp m0 = getTimestamp now"
      and t: "tbl d' ''messages'' = tbl d ''messages'' @ [message_row m0 k]"
    show ?thesis
      using m by (auto simp: conv_of_def conv_rows_append [OF t] row_message_row)
  qed
next
  fix d rm now d'
  assume "store_inv tbl sch d" "createMsgByRawMsg eng d rm now = Inr (None, d')"
  then show "conv_of tbl d' = conv_of tbl d"
    by (rule createMsgByRawMsg_Inr) simp
next
  fix d rm now r d'
  assume "store_inv tbl sch d" "createMsgByRawMsg eng d rm now = Inr (r, d')"
  then show "store_inv tbl sch d'" by (rule createMsgByRawMsg_store_inv)
qed

subsection \<open>Files\<close>

lemma files_params_fit:
  "params_fit files_columns [''file_id''] [SqlText u]"
  "params_fit files_columns [''filename'', ''hash''] [SqlText n, SqlText h]"
  by (simp_all add: params_fit_def files_columns_def is_auto_def)

lemma files_new_row:
  "new_row files_columns [''file_id''] [SqlText u] k =
     [(''file_id'', SqlText u), (''filename'', SqlNull), (''hash'', SqlNull)]"
  by (simp add: new_row_def files_columns_def is_auto_def)

lemma text_of_SqlNull [simp]: "text_of SqlNull = []" by (simp add: text_of_def)

lemma row_file_set_cells:
  assumes "conforms files_columns r"
  shows "row_file (set_cells [''filename'', ''hash''] [SqlText n, SqlText h] r) =
    \<lparr>fs_id = text_of (cell r ''file_id''), fs_name = n, fs_hash = h\<rparr>"
    and "cell (set_cells [''filename'', ''hash''] [SqlText n, SqlText h] r) ''file_id'' =
      cell r ''file_id''"
proof -
  have names: "map fst r = [''file_id'', ''filename'', ''hash'']"
    using assms by (simp add: conforms_def files_columns_def)
  have "fst ` set r = set (map fst r)" by simp
  also have "\<dots> = {''file_id'', ''filename'', ''hash''}" unfolding names by simp
  finally have "fst ` set r = {''file_id'', ''filename'', ''hash''}" .
  then show "row_file (set_cells [''filename'', ''hash''] [SqlText n, SqlText h] r) =
      \<lparr>fs_id = text_of (cell r ''file_id''), fs_name = n, fs_hash = h\<rparr>"
    and "cell (set_cells [''filename'', ''hash''] [SqlText n, SqlText h] r) ''file_id'' =
      cell r ''file_id''"
    by (simp_all add: row_file_def cell_set_cells)
qed

lemma update_rows_Cons:
  "update_rows cs ws vs (r # rows) =
     (if row_matches ws (drop (length cs) vs) r then set_cells cs (take (length cs) vs) r else r) #
     update_rows cs ws vs rows"
  by (simp add: update_rows_def)

lemma files_update_rows:
  assumes "list_all (conforms files_columns) rows"
  shows "map_option row_file (find (\<lambda>r. cell r ''file_id'' = SqlText i)
      (update_rows [''filename'', ''hash''] [''file_id'']
         [SqlText (fs_name f), SqlText (fs_hash f), SqlText (fs_id f)] rows)) =
    (if i = fs_id f \<and> (\<exists>r \<in> set rows. cell r ''file_id'' = SqlText (fs_id f)) then Some f
     else map_option row_file (find (\<lambda>r. cell r ''file_id'' = SqlText i) rows))"
  using assms
proof (induction rows)
  case Nil
  then show ?case by (simp add: update_rows_def)
next
  case (Cons r rows)
  then have c: "conforms files_columns r"
    and IH: "map_option row_file (find (\<lambda>r. cell r ''file_id'' = SqlText i)
      (update_rows [''filename'', ''hash''] [''file_id'']
         [SqlText (fs_name f), SqlText (fs_hash f), SqlText (fs_id f)] rows)) =
    (if i = fs_id f \<and> (\<exists>r \<in> set rows. cell r ''file_id'' = SqlText (fs_id f)) then Some f
     else map_option row_file (find (\<lambda>r. cell r ''file_id'' = SqlText i) rows))" by simp_all
  show ?case
  proof (cases "cell r ''file_id'' = SqlText (fs_id f)")
    case True
    with row_file_set_cells [OF c, of "fs_name f" "fs_hash f"] show ?thesis
      by (simp add: update_rows_Cons IH)
  next
    case False
    show ?thesis
    proof (cases "cell r ''file_id'' = SqlText i")
      case True
      with False show ?thesis by (auto simp: update_rows_Cons)
    next
      case nomatch: False
      have "map_option row_file (find (\<lambda>r. cell r ''file_id'' = SqlText i)
          (update_rows [''filename'', ''hash''] [''file_id'']
             [SqlText (fs_name f), SqlText (fs_hash f), SqlText (fs_id f)] (r # rows))) =
        map_option row_file (find (\<lambda>r. cell r ''file_id'' = SqlText i)
          (update_rows [''filename'', ''hash''] [''file_id'']
             [SqlText (fs_name f), SqlText (fs_hash f), SqlText (fs_id f)] rows))"
        by (simp add: update_rows_Cons False nomatch)
      then show ?thesis unfolding IH using False nomatch by auto
    qed
  qed
qed

context sqlite_laws
begin

lemma getFile_files:
  assumes ok: "db_ok tbl sch d" and g: "getFile eng d i = Inr res"
  shows "res = files_of tbl d (c_str i)"
proof -
  let ?P = "\<lambda>r. cell r ''file_id'' = SqlText (c_str i)"
  have sch: "sch d ''files'' \<noteq> None" and uq: "unique_ok files_columns (tbl d ''files'')"
    using ok by (auto simp: db_ok_iff table_ok_def)
  have rd: "\<And>r. r \<in> set (tbl d ''files'') \<Longrightarrow> read_File eng r = Inr (row_file r)"
    using db_rows(2) [OF ok] read_File_row by blast
  show ?thesis
  proof (rule fetch_first_Inr [OF sch rd g [unfolded getFile_def]])
    assume "res = None" and "\<forall>x \<in> set (tbl d ''files''). \<not> row_matches [''file_id''] [SqlText (c_str i)] x"
    then have "find ?P (tbl d ''files'') = None" by (auto simp: find_None_iff)
    with \<open>res = None\<close> show ?thesis by (simp add: files_of_def)
  next
    fix x assume x: "res = Some (row_file x)" "x \<in> set (tbl d ''files'')"
      "row_matches [''file_id''] [SqlText (c_str i)] x"
    then obtain y where y: "find ?P (tbl d ''files'') = Some y"
      by (cases "find ?P (tbl d ''files'')") (auto simp: find_None_iff)
    then have "y \<in> set (tbl d ''files'')" "?P y" by (auto simp: find_Some_iff)
    with x have "y = x"
      using unique_row [OF uq, of "column_of ''file_id'' TEXT_type [PRIMARY_KEY]" y x]
      by (simp add: files_columns_def is_unique_def)
    with x y show ?thesis by (simp add: files_of_def)
  qed simp
qed

lemma files_frame: "tbl d' ''files'' = tbl d ''files'' \<Longrightarrow> files_of tbl d' = files_of tbl d"
  by (intro ext) (simp add: files_of_def)

lemma files_exec_ok:
  assumes "db_ok tbl sch d" and "sch d' = sch d" and "\<And>u. u \<noteq> ''files'' \<Longrightarrow> tbl d' u = tbl d u"
    and "table_ok files_columns (tbl d' ''files'')"
  shows "db_ok tbl sch d'"
proof -
  have "sch d ''files'' = Some files_columns" using assms(1) by (simp add: db_ok_iff)
  then show ?thesis using db_ok_step [OF assms(1,2), of "''files''"] assms(3,4) by simp
qed

lemma createFile_rows:
  assumes ok: "db_ok tbl sch d" and c: "createFile eng d u = Inr (res, d')"
  obtains (created) "res = Some (getUUID u)"
      "tbl d' ''files'' = tbl d ''files'' @
         [[(''file_id'', SqlText (getUUID u)), (''filename'', SqlNull), (''hash'', SqlNull)]]"
      "\<forall>r \<in> set (tbl d ''files''). cell r ''file_id'' \<noteq> SqlText (getUUID u)"
      "\<And>t. t \<noteq> ''files'' \<Longrightarrow> tbl d' t = tbl d t" "db_ok tbl sch d'"
    | (refused) "res = None" "tbl d' = tbl d" "db_ok tbl sch d'"
proof -
  have fs: "sch d ''files'' = Some files_columns" "table_ok files_columns (tbl d ''files'')"
    using ok by (simp_all add: db_ok_iff)
  obtain x where e: "sql_exec eng d (InsertInto ''files'' [''file_id'']) [SqlText (getUUID u)] = (x, d')"
      and res: "res = (case x of Inl _ \<Rightarrow> None | Inr n \<Rightarrow> if n = 1 then Some (getUUID u) else None)"
    using c by (auto simp: createFile_def Let_def split: option.splits prod.splits sum.splits if_splits)
  have fr: "sch d' = sch d" "\<And>t. t \<noteq> ''files'' \<Longrightarrow> tbl d' t = tbl d t"
    using insert_frame [OF _ e] fs by auto
  show thesis
  proof (cases x)
    case (Inl m)
    then have t: "tbl d' ''files'' = tbl d ''files''" using insert_fails [OF _ e [unfolded Inl]] fs by simp
    then have "tbl d' = tbl d" using fr(2) by (metis ext)
    moreover have "db_ok tbl sch d'"
      by (rule files_exec_ok [OF ok fr]) (simp_all add: t fs)
    ultimately show thesis using refused res Inl by simp
  next
    case (Inr n)
    obtain k where k: "n = 1"
        "row_ok files_columns (tbl d ''files'') (new_row files_columns [''file_id''] [SqlText (getUUID u)] k)"
        "tbl d' ''files'' = tbl d ''files'' @ [new_row files_columns [''file_id''] [SqlText (getUUID u)] k]"
        "table_ok files_columns (tbl d' ''files'')"
      by (rule insert_ok [OF fs(1) files_params_fit(1) columns_distinct(3) auto_columns_integer(3) fs(2)
            e [unfolded Inr]])
    have "\<forall>r \<in> set (tbl d ''files''). cell r ''file_id'' \<noteq> SqlText (getUUID u)"
      using k(2) unfolding files_new_row
      by (simp add: row_ok_def files_columns_def column_flags list_all_iff)
    moreover have "db_ok tbl sch d'"
      by (rule files_exec_ok [OF ok fr]) (simp_all add: k(4))
    ultimately show thesis using created res Inr k(1,3) fr(2) by (simp add: files_new_row)
  qed
qed

lemma createFile_Inr:
  assumes inv: "store_inv tbl sch d" and c: "createFile eng d u = Inr (res, d')"
  obtains (created) "res = Some (getUUID u)"
      "tbl d' ''files'' = tbl d ''files'' @
         [[(''file_id'', SqlText (getUUID u)), (''filename'', SqlNull), (''hash'', SqlNull)]]"
      "\<forall>r \<in> set (tbl d ''files''). cell r ''file_id'' \<noteq> SqlText (getUUID u)"
      "\<And>t. t \<noteq> ''files'' \<Longrightarrow> tbl d' t = tbl d t" "store_inv tbl sch d'"
    | (refused) "res = None" "tbl d' = tbl d" "store_inv tbl sch d'"
  by (cases rule: createFile_rows [OF store_inv_ok [OF inv] c])
    (use store_inv_frame [OF inv] created refused in auto)

lemma updateFile_rows:
  assumes ok: "db_ok tbl sch d" and c: "updateFile eng d f = Inr (b, d')"
  shows "db_ok tbl sch d' \<and> (\<forall>t. t \<noteq> ''files'' \<longrightarrow> tbl d' t = tbl d t) \<and>
    (b \<longrightarrow> files_of tbl d (fs_id f) \<noteq> None \<and> files_of tbl d' = (files_of tbl d)(fs_id f \<mapsto> f)) \<and>
    (\<not> b \<longrightarrow> files_of tbl d' = files_of tbl d)"
proof -
  let ?cs = "[''filename'', ''hash'']"
  let ?vs = "[SqlText (fs_name f), SqlText (fs_hash f), SqlText (fs_id f)]"
  let ?hit = "\<exists>r \<in> set (tbl d ''files''). cell r ''file_id'' = SqlText (fs_id f)"
  have fs: "sch d ''files'' = Some files_columns" "table_ok files_columns (tbl d ''files'')"
    using ok by (simp_all add: db_ok_iff)
  have fit: "params_fit files_columns ?cs (take (length ?cs) ?vs)"
    using files_params_fit(2) by simp
  obtain x where e: "sql_exec eng d (UpdateSet ''files'' ?cs [''file_id'']) ?vs = (x, d')"
      and b: "b = (case x of Inl _ \<Rightarrow> False | Inr n \<Rightarrow> n \<noteq> 0)"
    using c by (auto simp: updateFile_def Let_def split: option.splits prod.splits sum.splits)
  have fr: "sch d' = sch d" "\<And>t. t \<noteq> ''files'' \<Longrightarrow> tbl d' t = tbl d t"
    using update_frame [OF _ e] fs by auto
  have none: "files_of tbl d (fs_id f) \<noteq> None \<longleftrightarrow> ?hit"
    by (auto simp: files_of_def find_None_iff)
  show ?thesis
  proof (cases x)
    case (Inl m)
    then have t: "tbl d' ''files'' = tbl d ''files''" using update_fails [OF _ e [unfolded Inl]] fs by simp
    have "db_ok tbl sch d'"
      by (rule files_exec_ok [OF ok fr]) (simp_all add: t fs)
    then show ?thesis using b Inl files_frame [OF t] fr(2) by simp
  next
    case (Inr n)
    have u: "tbl d' ''files'' = update_rows ?cs [''file_id''] ?vs (tbl d ''files'')"
      and n: "n = int (length (filter (row_matches [''file_id''] (drop (length ?cs) ?vs)) (tbl d ''files'')))"
      using update_rows [OF fs(1) fit e [unfolded Inr]] by simp_all
    have tk: "table_ok files_columns (tbl d' ''files'')"
      unfolding u
      by (rule table_ok_update [OF fit fs(2)]) (simp add: files_columns_def column_flags)
    have ok': "db_ok tbl sch d'" by (rule files_exec_ok [OF ok fr tk])
    have hit: "b \<longleftrightarrow> ?hit" using b Inr n by (auto simp: filter_empty_conv)
    have conf: "list_all (conforms files_columns) (tbl d ''files'')"
      using fs(2) by (simp add: table_ok_def)
    have new: "files_of tbl d' i = (if i = fs_id f \<and> ?hit then Some f else files_of tbl d i)" for i
      unfolding files_of_def u by (rule files_update_rows [OF conf])
    have "files_of tbl d' = (if ?hit then (files_of tbl d)(fs_id f \<mapsto> f) else files_of tbl d)"
      by (rule ext) (simp add: new)
    with ok' fr(2) hit none show ?thesis by (simp only: if_True if_False) argo
  qed
qed

lemma updateFile_Inr:
  assumes inv: "store_inv tbl sch d" and c: "updateFile eng d f = Inr (b, d')"
  shows "store_inv tbl sch d' \<and>
    (b \<longrightarrow> files_of tbl d (fs_id f) \<noteq> None \<and> files_of tbl d' = (files_of tbl d)(fs_id f \<mapsto> f)) \<and>
    (\<not> b \<longrightarrow> files_of tbl d' = files_of tbl d)"
  using updateFile_rows [OF store_inv_ok [OF inv] c] store_inv_frame [OF inv] by simp

lemma createFile_maps:
  assumes ok: "db_ok tbl sch d" and c: "createFile eng d u = Inr (res, d')"
  shows "db_ok tbl sch d' \<and> (\<forall>t. t \<noteq> ''files'' \<longrightarrow> tbl d' t = tbl d t) \<and>
    (\<forall>i. res = Some i \<longrightarrow> i = getUUID u \<and> files_of tbl d i = None \<and>
       files_of tbl d' = (files_of tbl d)(i \<mapsto> \<lparr>fs_id = i, fs_name = [], fs_hash = []\<rparr>)) \<and>
    (res = None \<longrightarrow> files_of tbl d' = files_of tbl d)"
proof (cases rule: createFile_rows [OF ok c])
  case 1
  have none: "find (\<lambda>r. cell r ''file_id'' = SqlText (getUUID u)) (tbl d ''files'') = None"
    using 1(3) by (auto simp: find_None_iff)
  have "files_of tbl d' i =
      ((files_of tbl d)(getUUID u \<mapsto> \<lparr>fs_id = getUUID u, fs_name = [], fs_hash = []\<rparr>)) i" for i
    by (cases "i = getUUID u")
      (simp_all add: files_of_def 1(2) find_append none row_file_def split: option.split)
  then have "files_of tbl d' =
      (files_of tbl d)(getUUID u \<mapsto> \<lparr>fs_id = getUUID u, fs_name = [], fs_hash = []\<rparr>)" by (rule ext)
  moreover have "files_of tbl d (getUUID u) = None" by (simp add: files_of_def none)
  ultimately show ?thesis using 1(1,4,5) by simp
next
  case 2
  then have "files_of tbl d' = files_of tbl d" by (intro files_frame) simp
  with 2 show ?thesis by simp
qed

lemma createFile_files:
  assumes inv: "store_inv tbl sch d" and c: "createFile eng d u = Inr (res, d')"
  shows "store_inv tbl sch d' \<and>
    (\<forall>i. res = Some i \<longrightarrow> i = getUUID u \<and> files_of tbl d i = None \<and>
       files_of tbl d' = (files_of tbl d)(i \<mapsto> \<lparr>fs_id = i, fs_name = [], fs_hash = []\<rparr>)) \<and>
    (res = None \<longrightarrow> files_of tbl d' = files_of tbl d)"
  using createFile_maps [OF store_inv_ok [OF inv] c] store_inv_frame [OF inv] by simp

end

sublocale sqlite_laws \<subseteq> files: file_store "store_inv tbl sch" "files_of tbl" "getFile eng"
    "createFile eng" "updateFile eng"
proof
  fix d i r
  assume "store_inv tbl sch d" "getFile eng d i = Inr r"
  then show "r = files_of tbl d (c_str i)" by (intro getFile_files store_inv_ok)
next
  fix d i f
  assume "files_of tbl d i = Some f"
  then show "fs_id f = i" by (auto simp: files_of_def find_Some_iff row_file_def)
next
  fix d u i d'
  assume "store_inv tbl sch d" "createFile eng d u = Inr (Some i, d')"
  then show "i = getUUID u \<and> files_of tbl d i = None \<and>
      files_of tbl d' = (files_of tbl d)(i \<mapsto> \<lparr>fs_id = i, fs_name = [], fs_hash = []\<rparr>)"
    using createFile_files by blast
next
  fix d u d'
  assume "store_inv tbl sch d" "createFile eng d u = Inr (None, d')"
  then show "files_of tbl d' = files_of tbl d" using createFile_files by blast
next
  fix d f d'
  assume "store_inv tbl sch d" "updateFile eng d f = Inr (True, d')"
  then show "files_of tbl d (fs_id f) \<noteq> None \<and> files_of tbl d' = (files_of tbl d)(fs_id f \<mapsto> f)"
    using updateFile_Inr by blast
next
  fix d f d'
  assume "store_inv tbl sch d" "updateFile eng d f = Inr (False, d')"
  then show "files_of tbl d' = files_of tbl d" using updateFile_Inr by blast
next
  fix d u oi d'
  assume "store_inv tbl sch d" "createFile eng d u = Inr (oi, d')"
  then show "store_inv tbl sch d'" using createFile_files by blast
next
  fix d f b d'
  assume "store_inv tbl sch d" "updateFile eng d f = Inr (b, d')"
  then show "store_inv tbl sch d'" using updateFile_Inr by blast
qed

subsection \<open>What each access leaves alone\<close>

context sqlite_laws
begin

lemma account_contract:
  "account_store (store_inv tbl sch) (accounts_of tbl) (getUser_name eng) (createUser eng)"
  by (rule account.account_store_axioms)

lemma conversation_contract:
  "conversation_store (store_inv tbl sch) (conv_of tbl) (getMessage eng) (getAllMessages eng)
     (createMsgByRawMsg eng)"
  by (rule conversation.conversation_store_axioms)

lemma files_contract:
  "file_store (store_inv tbl sch) (files_of tbl) (getFile eng) (createFile eng) (updateFile eng)"
  by (rule files.file_store_axioms)

lemma accounts_only_users:
  assumes inv: "store_inv tbl sch d"
  shows "createFile eng d u = Inr (oi, d') \<Longrightarrow> tbl d' ''users'' = tbl d ''users''"
    and "updateFile eng d f = Inr (b, d') \<Longrightarrow> tbl d' ''users'' = tbl d ''users''"
    and "createMsgByRawMsg eng d rm now = Inr (om, d') \<Longrightarrow> tbl d' ''users'' = tbl d ''users''"
proof -
  have ok: "db_ok tbl sch d" by (rule store_inv_ok [OF inv])
  show "tbl d' ''users'' = tbl d ''users''" if "createFile eng d u = Inr (oi, d')"
    by (cases rule: createFile_Inr [OF inv that]) simp_all
  show "tbl d' ''users'' = tbl d ''users''" if "createMsgByRawMsg eng d rm now = Inr (om, d')"
    by (rule createMsgByRawMsg_Inr [OF inv that]) simp
  show "tbl d' ''users'' = tbl d ''users''" if c: "updateFile eng d f = Inr (b, d')"
  proof -
    obtain x where e: "sql_exec eng d (UpdateSet ''files'' [''filename'', ''hash''] [''file_id''])
        [SqlText (fs_name f), SqlText (fs_hash f), SqlText (fs_id f)] = (x, d')"
      using c by (auto simp: updateFile_def Let_def split: option.splits prod.splits sum.splits)
    have "sch d ''files'' \<noteq> None" using ok by (simp add: db_ok_iff)
    from update_frame [OF this e] show ?thesis by simp
  qed
qed

subsection \<open>Opening the database\<close>

lemma ensure_table_Inr:
  assumes "ensure_table eng t sc tcs d = Inr d'"
  shows "(sch d t \<noteq> None \<longrightarrow> sch d' = sch d \<and> tbl d' = tbl d) \<and>
    (sch d t = None \<longrightarrow> sch d' = (sch d)(t \<mapsto> sc) \<and> tbl d' = (tbl d)(t := []))"
proof -
  obtain b where b: "sql_tableExists eng d t = Inr b"
    using assms by (auto simp: ensure_table_def split: sum.splits)
  then have e: "b = (sch d t \<noteq> None)" by (rule table_exists)
  show ?thesis
  proof (cases b)
    case True
    with assms b have "d' = d" by (simp add: ensure_table_def)
    then show ?thesis using True e by auto
  next
    case False
    with assms b obtain n where "sql_exec eng d (CreateTable t sc tcs) [] = (Inr n, d')"
      by (auto simp: ensure_table_def split: prod.splits sum.splits)
    then show ?thesis using create_table False e by blast
  qed
qed

lemma ensure_table_keeps:
  assumes "ensure_table eng t sc tcs d = Inr d'" and "sch d u \<noteq> None"
  shows "sch d' u = sch d u \<and> tbl d' u = tbl d u"
  using ensure_table_Inr [OF assms(1)] assms(2) by (cases "u = t"; cases "sch d t") auto

lemma ensure_table_has:
  assumes "ensure_table eng t sc tcs d = Inr d'"
  shows "sch d' t \<noteq> None"
  using ensure_table_Inr [OF assms] by (cases "sch d t") auto

lemma ensure_table_ok:
  assumes "ensure_table eng t sc tcs d = Inr d'"
    and "sch d t = None \<or> (sch d t = Some sc \<and> table_ok sc (tbl d t))"
  shows "sch d' t = Some sc \<and> table_ok sc (tbl d' t)"
proof (cases "sch d t")
  case None
  then show ?thesis using ensure_table_Inr [OF assms(1)] by simp
next
  case (Some a)
  then show ?thesis using ensure_table_Inr [OF assms(1)] assms(2) by simp
qed

lemma ensure_table_other:
  assumes "ensure_table eng t sc tcs d = Inr d'" and "u \<noteq> t"
  shows "sch d' u = sch d u" "tbl d' u = tbl d u"
  using ensure_table_Inr [OF assms(1)] assms(2) by (cases "sch d t"; auto)+

lemma checkAndCreateTables_Inr:
  assumes c: "checkAndCreateTables eng d = Inr d'"
    and ex: "\<forall>(t, sc) \<in> set app_tables. sch d t = None \<or> (sch d t = Some sc \<and> table_ok sc (tbl d t))"
  shows "db_ok tbl sch d' \<and>
    (\<forall>t. sch d t \<noteq> None \<longrightarrow> sch d' t = sch d t \<and> tbl d' t = tbl d t) \<and>
    (\<forall>t sc. (t, sc) \<in> set app_tables \<longrightarrow> sch d t = None \<longrightarrow> tbl d' t = [])"
proof -
  from c obtain d1 d2 d3 d4 tc3 tc5 where
    e1: "ensure_table eng ''users'' users_columns [] d = Inr d1" and
    e2: "ensure_table eng ''groups'' groups_columns [] d1 = Inr d2" and
    e3: "ensure_table eng ''user_group'' user_group_columns tc3 d2 = Inr d3" and
    e4: "ensure_table eng ''files'' files_columns [] d3 = Inr d4" and
    e5: "ensure_table eng ''messages'' messages_columns tc5 d4 = Inr d'"
    unfolding checkAndCreateTables_def by blast
  note o = ensure_table_other [OF e1] ensure_table_other [OF e2] ensure_table_other [OF e3]
    ensure_table_other [OF e4] ensure_table_other [OF e5]
  have ex': "sch d t = None \<or> (sch d t = Some sc \<and> table_ok sc (tbl d t))"
    if "(t, sc) \<in> set app_tables" for t sc using ex that by auto
  have "db_ok tbl sch d'"
    unfolding db_ok_iff
    using ensure_table_ok [OF e1] ensure_table_ok [OF e2] ensure_table_ok [OF e3]
      ensure_table_ok [OF e4] ensure_table_ok [OF e5]
      ex' [of "''users''" users_columns] ex' [of "''groups''" groups_columns]
      ex' [of "''user_group''" user_group_columns] ex' [of "''files''" files_columns]
      ex' [of "''messages''" messages_columns]
    by (simp add: o app_tables_def)
  moreover have "sch d' t = sch d t \<and> tbl d' t = tbl d t" if "sch d t \<noteq> None" for t
    using that ensure_table_keeps [OF e1] ensure_table_keeps [OF e2] ensure_table_keeps [OF e3]
      ensure_table_keeps [OF e4] ensure_table_keeps [OF e5] by metis
  moreover have "tbl d' t = []" if t: "(t, sc) \<in> set app_tables" and "sch d t = None" for t sc
  proof -
    have "t = ''users'' \<or> t = ''groups'' \<or> t = ''user_group'' \<or> t = ''files'' \<or> t = ''messages''"
      using t by (auto simp: app_tables_def)
    then show ?thesis
      using that(2) ensure_table_Inr [OF e1] ensure_table_Inr [OF e2] ensure_table_Inr [OF e3]
        ensure_table_Inr [OF e4] ensure_table_Inr [OF e5]
      by (elim disjE) (simp_all add: o)
  qed
  ultimately show ?thesis by blast
qed

end

end
