(* ===== verification/Sql_Reference.thy ===== *)
theory Sql_Reference
  imports Sql_Engine
begin

text \<open>
  A relational engine that satisfies \<open>sqlite_laws\<close> and never throws except for a violated constraint
  or a missing table. It shows that the laws can hold and runs the examples; no definition of the
  program depends on it.
\<close>

record refdb =
  ref_sch :: "string \<Rightarrow> column list option"
  ref_tbl :: "string \<Rightarrow> sql_row list"
  ref_seq :: "string \<Rightarrow> int"      \<comment> \<open>the largest automatic key ever used\<close>
  ref_last :: int

definition empty_refdb :: refdb where
  "empty_refdb = \<lparr>ref_sch = (\<lambda>_. None), ref_tbl = (\<lambda>_. []), ref_seq = (\<lambda>_. 0), ref_last = 0\<rparr>"

definition next_key :: "column list \<Rightarrow> sql_row list \<Rightarrow> int \<Rightarrow> int" where
  "next_key sc rows seq = foldr max (auto_keys sc rows) (max 0 seq) + 1"

fun ref_step :: "refdb \<Rightarrow> sql_stmt \<Rightarrow> sql_value list \<Rightarrow> sql_row list \<times> string option" where
  "ref_step d (SelectAll t cs) vs = (filter (row_matches cs vs) (ref_tbl d t), None)"
| "ref_step d _ vs = ([], None)"

fun ref_exec :: "refdb \<Rightarrow> sql_stmt \<Rightarrow> sql_value list \<Rightarrow> (string + int) \<times> refdb" where
  "ref_exec d (SelectAll t cs) vs = (Inl ''exec of a query'', d)"
| "ref_exec d (InsertInto t cs) vs =
     (case ref_sch d t of
        None \<Rightarrow> (Inl ''no such table'', d)
      | Some sc \<Rightarrow>
          (let k = next_key sc (ref_tbl d t) (ref_seq d t); r = new_row sc cs vs k in
           if row_ok sc (ref_tbl d t) r
           then (Inr 1, d\<lparr>ref_tbl := (ref_tbl d)(t := ref_tbl d t @ [r]),
                          ref_seq := (ref_seq d)(t := k), ref_last := k\<rparr>)
           else (Inl ''constraint failed'', d)))"
| "ref_exec d (UpdateSet t cs ws) vs =
     (case ref_sch d t of
        None \<Rightarrow> (Inl ''no such table'', d)
      | Some sc \<Rightarrow>
          (Inr (int (length (filter (row_matches ws (drop (length cs) vs)) (ref_tbl d t)))),
           d\<lparr>ref_tbl := (ref_tbl d)(t := update_rows cs ws vs (ref_tbl d t))\<rparr>))"
| "ref_exec d (CreateTable t sc tcs) vs =
     (case ref_sch d t of
        Some _ \<Rightarrow> (Inl ''table already exists'', d)
      | None \<Rightarrow> (Inr 0, d\<lparr>ref_sch := (ref_sch d)(t \<mapsto> sc), ref_tbl := (ref_tbl d)(t := [])\<rparr>))"

definition ref_engine :: "refdb sqlite" where
  "ref_engine = \<lparr>
     sql_prepare = (\<lambda>d s. None),
     sql_step = ref_step,
     sql_exec = ref_exec,
     sql_tableExists = (\<lambda>d t. Inr (ref_sch d t \<noteq> None)),
     sql_lastInsertRowid = ref_last,
     sql_getInt = (\<lambda>v. case v of SqlInt i \<Rightarrow> to_int32 i | _ \<Rightarrow> 0),
     sql_getString = (\<lambda>v. case v of SqlText s \<Rightarrow> s | _ \<Rightarrow> '''')\<rparr>"

lemma foldr_max_upper: "x \<in> set xs \<Longrightarrow> x \<le> foldr max xs (b :: int)"
  by (induction xs) auto

lemma foldr_max_base: "b \<le> foldr max xs (b :: int)"
  by (induction xs) auto

lemma next_key_fresh: "fresh_key sc rows (next_key sc rows seq)"
proof -
  have "max 0 seq \<le> foldr max (auto_keys sc rows) (max 0 seq)"
    by (rule foldr_max_base)
  then have "1 \<le> next_key sc rows seq" by (simp add: next_key_def)
  moreover have "j < next_key sc rows seq" if "j \<in> set (auto_keys sc rows)" for j
    using foldr_max_upper [OF that, of "max 0 seq"] by (simp add: next_key_def)
  ultimately show ?thesis by (simp add: fresh_key_def list_all_iff)
qed

lemma ref_insert_cases:
  assumes "ref_sch d t = Some sc" and "ref_exec d (InsertInto t cs) vs = (r, d')"
  obtains (ok) k where "r = Inr 1" "k = next_key sc (ref_tbl d t) (ref_seq d t)"
      "row_ok sc (ref_tbl d t) (new_row sc cs vs k)"
      "d' = d\<lparr>ref_tbl := (ref_tbl d)(t := ref_tbl d t @ [new_row sc cs vs k]),
             ref_seq := (ref_seq d)(t := k), ref_last := k\<rparr>"
    | (failed) e where "r = Inl e" "d' = d"
  using assms by (auto simp: Let_def split: if_splits)

interpretation refsql: sqlite_laws ref_engine ref_tbl ref_sch
proof (unfold_locales, goal_cases)
  case (3 d t cs vs r d')
  then obtain sc where sc: "ref_sch d t = Some sc" by blast
  from 3 have "ref_exec d (InsertInto t cs) vs = (r, d')" by (simp add: ref_engine_def)
  then show ?case by (cases rule: ref_insert_cases [OF sc]) auto
next
  case (4 d t cs vs e d')
  then obtain sc where sc: "ref_sch d t = Some sc" by blast
  from 4 have "ref_exec d (InsertInto t cs) vs = (Inl e, d')" by (simp add: ref_engine_def)
  then show ?case by (cases rule: ref_insert_cases [OF sc]) auto
next
  case (5 d t sc cs vs n d')
  then have "ref_exec d (InsertInto t cs) vs = (Inr n, d')" by (simp add: ref_engine_def)
  with 5(1) show ?case
  proof (cases rule: ref_insert_cases)
    case (ok k)
    then have "fresh_key sc (ref_tbl d t) k" using next_key_fresh by simp
    with ok show ?thesis by (intro conjI exI [of _ k]) (auto simp: ref_engine_def)
  qed simp
qed (auto simp: ref_engine_def split: option.splits)

end
