(* ===== verification/Db_Properties.thy ===== *)
theory Db_Properties
  imports Db_Stores Sql_Reference
begin

text \<open>
  The properties of the database accesses, for every engine that satisfies \<open>sqlite_laws\<close> and every
  database that satisfies \<open>store_inv\<close>, with examples on the reference engine.
\<close>

subsection \<open>An example database\<close>

definition fresh_db :: refdb where
  "fresh_db = \<lparr>ref_sch = map_of app_tables, ref_tbl = (\<lambda>_. []), ref_seq = (\<lambda>_. 0), ref_last = 0\<rparr>"

lemma fresh_db_sel [simp]:
  "ref_sch fresh_db = map_of app_tables" "ref_tbl fresh_db t = []" "ref_seq fresh_db t = 0"
  "ref_last fresh_db = 0"
  by (simp_all add: fresh_db_def)

lemma fresh_db_created: "checkAndCreateTables ref_engine empty_refdb = Inr fresh_db"
  by (simp add: checkAndCreateTables_def ensure_table_def ref_engine_def empty_refdb_def fresh_db_def
      app_tables_def fun_eq_iff)

lemma store_inv_fresh_db: "store_inv ref_tbl ref_sch fresh_db"
  by (simp add: store_inv_def db_ok_iff app_tables_def conv_rows_def numbered_rows_def)

lemmas ref_eval = ref_engine_def Let_def next_key_def auto_keys_def new_row_def row_ok_def
  app_tables_def users_columns_def messages_columns_def files_columns_def column_flags

definition bob :: User where "bob = make_User 0 ''bob'' ''pw''"

lemma bob_sel [simp]: "usr_username bob = ''bob''" "usr_password bob = ''pw''"
  by (simp_all add: bob_def make_User_def c_str_def)

definition bob_db :: refdb where "bob_db = snd (createUser ref_engine fresh_db bob)"

lemma createUser_bob: "createUser ref_engine fresh_db bob = (True, bob_db)"
  by (simp add: bob_db_def createUser_def ref_eval)

lemma store_inv_bob_db: "store_inv ref_tbl ref_sch bob_db"
  by (rule sqlite_laws.createUser_store_inv [OF refsql.sqlite_laws_axioms store_inv_fresh_db createUser_bob])

subsection \<open>Opening\<close>

text \<open>
  If opening the database succeeds, every table of the program exists with its columns and
  constraint-satisfying rows, whatever table existed before is untouched, and when the messages
  table is new the invariant \<open>store_inv\<close> of the whole store holds.
\<close>

theorem open_database:
  assumes laws: "sqlite_laws eng tbl sch"
    and c: "checkAndCreateTables eng d = Inr d'"
    and ex: "\<forall>(t, sc) \<in> set app_tables.
      sch d t = None \<or> (sch d t = Some sc \<and> table_ok sc (tbl d t))"
  shows "db_ok tbl sch d' \<and>
    (\<forall>t. sch d t \<noteq> None \<longrightarrow> sch d' t = sch d t \<and> tbl d' t = tbl d t) \<and>
    (sch d ''messages'' = None \<longrightarrow> store_inv tbl sch d')"
proof -
  have m: "(''messages'', messages_columns) \<in> set app_tables" by (simp add: app_tables_def)
  show ?thesis
    using sqlite_laws.checkAndCreateTables_Inr [OF laws c ex] m
    by (auto simp: store_inv_def conv_rows_def numbered_rows_def)
qed

theorem open_database_witness: "store_inv ref_tbl ref_sch fresh_db"
proof -
  have "\<forall>(t, sc) \<in> set app_tables. ref_sch empty_refdb t = None \<or>
      (ref_sch empty_refdb t = Some sc \<and> table_ok sc (ref_tbl empty_refdb t))"
    by (simp add: empty_refdb_def)
  from open_database [OF refsql.sqlite_laws_axioms fresh_db_created this]
  show ?thesis by (simp add: empty_refdb_def)
qed

subsection \<open>Accounts\<close>

text \<open>
  Creating an account never breaks the store; it reports success exactly by adding one account
  under a name nobody had, with the given password, and otherwise changes no account.
\<close>

theorem createUser_correct:
  assumes laws: "sqlite_laws eng tbl sch" and inv: "store_inv tbl sch d"
    and c: "createUser eng d u = (b, d')"
  shows "store_inv tbl sch d' \<and>
    (b \<longrightarrow> accounts_of tbl d (usr_username u) = None \<and>
       (\<exists>i. accounts_of tbl d' =
          (accounts_of tbl d)(usr_username u \<mapsto> make_User i (usr_username u) (usr_password u)))) \<and>
    (\<not> b \<longrightarrow> accounts_of tbl d' = accounts_of tbl d)"
proof -
  note acc = sqlite_laws.account_contract [OF laws]
  show ?thesis
    using account_store.create_inv [OF acc inv c] account_store.create_accepted [OF acc inv, of u d']
      account_store.create_refused [OF acc inv, of u d'] c
    by (cases b) auto
qed

theorem createUser_correct_witness:
  "createUser ref_engine fresh_db bob = (True, bob_db) \<and>
   (\<exists>i. accounts_of ref_tbl bob_db ''bob'' = Some (make_User i ''bob'' ''pw''))"
proof -
  obtain i where "accounts_of ref_tbl bob_db =
      (accounts_of ref_tbl fresh_db)(''bob'' \<mapsto> make_User i ''bob'' ''pw'')"
    using createUser_correct [OF refsql.sqlite_laws_axioms store_inv_fresh_db createUser_bob] by auto
  then show ?thesis using createUser_bob by auto
qed

text \<open>
  After an account was created, looking its name up (and not getting an exception) finds exactly
  that account, looking up another name finds what it found before, and a second creation under
  the same name is refused.
\<close>

theorem createUser_then_getUser:
  assumes laws: "sqlite_laws eng tbl sch" and inv: "store_inv tbl sch d"
    and c: "createUser eng d u = (True, d')" and g: "getUser_name eng d' n = Inr r"
    and c2: "createUser eng d' v = (b, d'')" and v: "usr_username v = usr_username u"
  shows "(c_str n = usr_username u \<longrightarrow>
      (\<exists>i. r = Some (make_User i (usr_username u) (usr_password u)))) \<and>
    (c_str n \<noteq> usr_username u \<longrightarrow> r = accounts_of tbl d (c_str n)) \<and> \<not> b"
proof -
  note acc = sqlite_laws.account_contract [OF laws]
  have "r = accounts_of tbl d' (c_str n)"
    by (rule account_store.get_accounts [OF acc account_store.create_inv [OF acc inv c] g])
  then show ?thesis
    using account_store.create_then_get [OF acc inv c g]
      account_store.create_frame [OF acc inv c, of "c_str n"]
      account_store.create_twice [OF acc inv c c2 v] by simp
qed

theorem createUser_then_getUser_witness:
  "(\<exists>i. getUser_name ref_engine bob_db ''bob'' = Inr (Some (make_User i ''bob'' ''pw''))) \<and>
   fst (createUser ref_engine bob_db bob) = False"
proof -
  obtain r where r: "getUser_name ref_engine bob_db ''bob'' = Inr r"
    by (auto simp: getUser_name_def fetch_first_def bob_db_def createUser_def ref_eval c_str_def
        read_User_def getColumn_def)
  obtain b d'' where c2: "createUser ref_engine bob_db bob = (b, d'')" by fastforce
  show ?thesis
    using createUser_then_getUser [OF refsql.sqlite_laws_axioms store_inv_fresh_db createUser_bob r c2]
    by (simp add: r c2 c_str_def)
qed

subsection \<open>Messages\<close>

text \<open>
  C15: Storing a raw message that succeeds appends it, unchanged and with the current time, at the end
  of the conversation from its sender to its receiver, under the number one larger than the
  conversation's length; no other conversation changes, and no account; and every conversation
  stays numbered from 1 without gaps or repetitions.
\<close>

theorem createMsg_numbered:
  assumes laws: "sqlite_laws eng tbl sch" and inv: "store_inv tbl sch d"
    and c: "createMsgByRawMsg eng d rm now = Inr (Some m, d')"
  shows "msg_message m = rm \<and> msg_timestamp m = getTimestamp now \<and>
    sint (msg_internalId m) = int (length (conv_of tbl d (raw_from rm) (raw_to rm))) + 1 \<and>
    conv_of tbl d' = (\<lambda>a b. if a = raw_from rm \<and> b = raw_to rm
                            then conv_of tbl d a b @ [m] else conv_of tbl d a b) \<and>
    (\<forall>a b. numbered (conv_of tbl d' a b)) \<and>
    accounts_of tbl d' = accounts_of tbl d \<and> store_inv tbl sch d'"
proof -
  note con = sqlite_laws.conversation_contract [OF laws]
  have inv': "store_inv tbl sch d'" by (rule conversation_store.append_inv [OF con inv c])
  have "tbl d' ''users'' = tbl d ''users''"
    by (rule sqlite_laws.accounts_only_users(3) [OF laws inv c])
  then have "accounts_of tbl d' = accounts_of tbl d"
    by (rule sqlite_laws.accounts_frame [OF laws])
  then show ?thesis
    using conversation_store.append_some [OF con inv c] conversation_store.append_number [OF con inv c]
      conversation_store.inv_numbered [OF con inv'] inv'
    by (auto simp: fun_eq_iff)
qed

definition hello :: RawMessage where
  "hello = \<lparr>raw_from = 1, raw_to = 1, raw_type = TEXT, raw_content = ''hi''\<rparr>"

lemma hello_sel [simp]: "raw_from hello = 1" "raw_to hello = 1" "raw_content hello = ''hi''"
  by (simp_all add: hello_def)

lemma createMsg_hello: "\<exists>m d'. createMsgByRawMsg ref_engine fresh_db hello 100 = Inr (Some m, d')"
  by (simp add: createMsgByRawMsg_def getAllMessages_def fetch_all_def createMsg_def ref_eval
      bind_int_def int32_succ_def hello_def)

theorem createMsg_numbered_witness:
  "\<exists>m d'. createMsgByRawMsg ref_engine fresh_db hello 100 = Inr (Some m, d') \<and>
     sint (msg_internalId m) = 1 \<and> conv_of ref_tbl d' 1 1 = [m]"
proof -
  obtain m d' where c: "createMsgByRawMsg ref_engine fresh_db hello 100 = Inr (Some m, d')"
    using createMsg_hello by blast
  have "conv_of ref_tbl fresh_db 1 1 = []" by (simp add: conv_of_def conv_rows_def)
  then show ?thesis
    using createMsg_numbered [OF refsql.sqlite_laws_axioms store_inv_fresh_db c] c by auto
qed

text \<open>
  A stored message is found under its sender, receiver and internal id (unless the query throws),
  and a lookup finds nothing but a message of that conversation with that number, or nothing when
  there is none.
\<close>

theorem getMessage_correct:
  assumes laws: "sqlite_laws eng tbl sch" and inv: "store_inv tbl sch d"
    and g: "getMessage eng d a b i = Inr r"
  shows "(\<forall>m. r = Some m \<longleftrightarrow> m \<in> set (conv_of tbl d a b) \<and> msg_internalId m = i) \<and>
    (r = None \<longleftrightarrow> (\<forall>m \<in> set (conv_of tbl d a b). msg_internalId m \<noteq> i))"
proof -
  note con = sqlite_laws.conversation_contract [OF laws]
  show ?thesis
  proof (cases r)
    case None
    then show ?thesis using conversation_store.get_none [OF con inv] g by blast
  next
    case (Some m)
    then have m: "m \<in> set (conv_of tbl d a b)" "msg_internalId m = i"
      using conversation_store.get_member [OF con inv] g by blast+
    have "m' = m" if "m' \<in> set (conv_of tbl d a b)" "msg_internalId m' = i" for m'
      by (rule conversation_store.internal_id_unique [OF con inv that(1) m(1)]) (simp add: m(2) that(2))
    then show ?thesis using Some m by blast
  qed
qed

theorem getMessage_correct_witness:
  "\<exists>r. getMessage ref_engine fresh_db 1 2 1 = Inr r \<and> r = None"
proof -
  obtain r where r: "getMessage ref_engine fresh_db 1 2 1 = Inr r"
    by (simp add: getMessage_def fetch_first_def ref_engine_def)
  have "conv_of ref_tbl fresh_db 1 2 = []" by (simp add: conv_of_def conv_rows_def)
  then show ?thesis
    using getMessage_correct [OF refsql.sqlite_laws_axioms store_inv_fresh_db r] r by auto
qed

text \<open>
  The two queries for messages agree: looking a message up by its number gives what scanning
  the list of the whole conversation for that number gives; and the size of that list, which the
  contact list reports, is the largest internal id in it.
\<close>

theorem message_queries_agree:
  assumes laws: "sqlite_laws eng tbl sch" and inv: "store_inv tbl sch d"
    and g: "getMessage eng d a b i = Inr r" and all: "getAllMessages eng d a b = Inr ms"
  shows "r = find (\<lambda>m. msg_internalId m = i) ms \<and> sint (max_internal_id ms 0) = int (length ms)"
proof
  note con = sqlite_laws.conversation_contract [OF laws]
  have ms: "mset ms = mset (conv_of tbl d a b)" by (rule conversation_store.get_all_conv [OF con inv all])
  then have set: "set ms = set (conv_of tbl d a b)" by (metis set_mset_mset)
  show "r = find (\<lambda>m. msg_internalId m = i) ms"
  proof (cases r)
    case None
    then have "find (\<lambda>m. msg_internalId m = i) ms = None"
      using conversation_store.get_none [OF con inv] g by (auto simp: find_None_iff set)
    then show ?thesis using None by simp
  next
    case (Some m)
    then have m: "m \<in> set (conv_of tbl d a b)" "msg_internalId m = i"
      using conversation_store.get_member [OF con inv] g by blast+
    then have "find (\<lambda>m. msg_internalId m = i) ms \<noteq> None" by (auto simp: find_None_iff set)
    then obtain m' where f: "find (\<lambda>m. msg_internalId m = i) ms = Some m'" by blast
    then have "m' \<in> set (conv_of tbl d a b)" "msg_internalId m' = i"
      by (auto simp: find_Some_iff set [symmetric])
    then have "m' = m" by (intro conversation_store.internal_id_unique [OF con inv _ m(1)]) (simp_all add: m(2))
    then show ?thesis using f Some by simp
  qed
  have len: "length ms = length (conv_of tbl d a b)"
    by (rule conversation_store.get_all_length [OF con inv all])
  show "sint (max_internal_id ms 0) = int (length ms)"
    using numbered_ids [OF conversation_store.inv_numbered [OF con inv, of a b]] set
    by (intro max_internal_id_numbered) (simp add: len)
qed

theorem message_queries_agree_witness:
  "\<exists>r ms. getMessage ref_engine fresh_db 1 2 1 = Inr r \<and> getAllMessages ref_engine fresh_db 1 2 = Inr ms \<and>
     r = find (\<lambda>m. msg_internalId m = 1) ms"
proof -
  obtain r ms where r: "getMessage ref_engine fresh_db 1 2 1 = Inr r"
      "getAllMessages ref_engine fresh_db 1 2 = Inr ms"
    by (simp add: getMessage_def getAllMessages_def fetch_first_def fetch_all_def ref_engine_def)
  show ?thesis
    using message_queries_agree [OF refsql.sqlite_laws_axioms store_inv_fresh_db r] r by blast
qed

subsection \<open>Files\<close>

text \<open>
  Registering a file succeeds only for an id that is not in use and records it without name and
  hash; updating a file succeeds exactly by overwriting the name and hash of a registered id; and
  looking an id up gives the last metadata written for it. Neither changes an account.
\<close>

theorem file_metadata_correct:
  assumes laws: "sqlite_laws eng tbl sch" and inv: "store_inv tbl sch d"
    and c: "createFile eng d u = Inr (Some i, d1)"
    and up: "updateFile eng d1 \<lparr>fs_id = i, fs_name = n, fs_hash = h\<rparr> = Inr (True, d2)"
    and g: "getFile eng d2 i = Inr r"
  shows "i = getUUID u \<and> files_of tbl d i = None \<and>
    files_of tbl d1 i = Some \<lparr>fs_id = i, fs_name = [], fs_hash = []\<rparr> \<and>
    r = Some \<lparr>fs_id = i, fs_name = n, fs_hash = h\<rparr> \<and>
    (\<forall>j. j \<noteq> i \<longrightarrow> files_of tbl d2 j = files_of tbl d j) \<and>
    accounts_of tbl d2 = accounts_of tbl d \<and> store_inv tbl sch d2"
proof -
  note fil = sqlite_laws.files_contract [OF laws]
  have inv1: "store_inv tbl sch d1" by (rule file_store.create_inv [OF fil inv c])
  have inv2: "store_inv tbl sch d2" by (rule file_store.update_inv [OF fil inv1 up])
  have cr: "i = getUUID u" "files_of tbl d i = None"
      "files_of tbl d1 = (files_of tbl d)(i \<mapsto> \<lparr>fs_id = i, fs_name = [], fs_hash = []\<rparr>)"
    using file_store.create_some [OF fil inv c] by blast+
  have "c_str i = i" by (simp add: cr(1) getUUID_def)
  then have "r = Some \<lparr>fs_id = i, fs_name = n, fs_hash = h\<rparr>"
    using file_store.update_then_get [OF fil inv1 up g] by simp
  moreover have "files_of tbl d2 = (files_of tbl d1)(i \<mapsto> \<lparr>fs_id = i, fs_name = n, fs_hash = h\<rparr>)"
    using file_store.update_true [OF fil inv1 up] by simp
  moreover have "tbl d2 ''users'' = tbl d ''users''"
    using sqlite_laws.accounts_only_users(1) [OF laws inv c]
      sqlite_laws.accounts_only_users(2) [OF laws inv1 up] by simp
  then have "accounts_of tbl d2 = accounts_of tbl d"
    by (rule sqlite_laws.accounts_frame [OF laws])
  ultimately show ?thesis using cr inv2 by simp
qed

theorem file_metadata_correct_witness:
  "\<exists>d1 d2. createFile ref_engine fresh_db ''u1'' = Inr (Some ''u1'', d1) \<and>
     updateFile ref_engine d1 \<lparr>fs_id = ''u1'', fs_name = ''a'', fs_hash = ''h''\<rparr> = Inr (True, d2) \<and>
     getFile ref_engine d2 ''u1'' = Inr (Some \<lparr>fs_id = ''u1'', fs_name = ''a'', fs_hash = ''h''\<rparr>)"
proof -
  let ?f = "\<lparr>fs_id = ''u1'', fs_name = ''a'', fs_hash = ''h''\<rparr>"
  let ?d1 = "fresh_db\<lparr>ref_tbl := (\<lambda>_. [])(''files'' :=
        [[(''file_id'', SqlText ''u1''), (''filename'', SqlNull), (''hash'', SqlNull)]]),
        ref_seq := (\<lambda>_. 0)(''files'' := 1), ref_last := 1\<rparr>"
  let ?d2 = "?d1\<lparr>ref_tbl := (\<lambda>_. [])(''files'' :=
        [[(''file_id'', SqlText ''u1''), (''filename'', SqlText ''a''), (''hash'', SqlText ''h'')]])\<rparr>"
  have c: "createFile ref_engine fresh_db ''u1'' = Inr (Some ''u1'', ?d1)"
    by (simp add: createFile_def getUUID_def c_str_def ref_eval fresh_db_def)
  have up: "updateFile ref_engine ?d1 ?f = Inr (True, ?d2)"
    by (simp add: updateFile_def ref_engine_def app_tables_def update_rows_def set_cells_def)
  have "\<exists>r. getFile ref_engine ?d2 ''u1'' = Inr r"
    by (simp add: getFile_def fetch_first_def ref_engine_def c_str_def read_File_def getColumn_def)
  then obtain r where g: "getFile ref_engine ?d2 ''u1'' = Inr r" by blast
  show ?thesis
    using c up file_metadata_correct [OF refsql.sqlite_laws_axioms store_inv_fresh_db c up g] g
    by (intro exI conjI) simp_all
qed

end
