(* ===== verification/Server_Linked.thy ===== *)
theory Server_Linked
  imports Server_Handlers Db_Properties
begin

text \<open>
  The server linked with libraries that behave as documented: the locale \<open>linked_server\<close>, what each
  handler does to a store that satisfies \<open>store_inv\<close>, and the interpretation of the locale on the
  reference libraries.
\<close>

locale linked_server =
  sql: sqlite_laws "env_sql env" tbl sch +
  any: any_codec_laws "env_any env" +
  crypto: crypto_lib_laws "env_crypto env"
  for env :: "('a, 'd) env"
    and tbl :: "'d \<Rightarrow> string \<Rightarrow> sql_row list"
    and sch :: "'d \<Rightarrow> string \<Rightarrow> column list option"

definition ref_env :: "(string, refdb) env" where
  "ref_env = \<lparr>env_sql = ref_engine, env_any = text_codec, env_wire = plain_wire,
              env_crypto = plain_crypto\<rparr>"

lemma ref_env_sel [simp]:
  "env_sql ref_env = ref_engine" "env_any ref_env = text_codec" "env_wire ref_env = plain_wire"
  "env_crypto ref_env = plain_crypto"
  by (simp_all add: ref_env_def)

interpretation ref_server: linked_server ref_env ref_tbl ref_sch
  by (simp add: linked_server_def refsql.sqlite_laws_axioms text_any.any_codec_laws_axioms
      plain_cl.crypto_lib_laws_axioms)

text \<open>A user the database knows by id.\<close>

definition known_user :: "('d \<Rightarrow> string \<Rightarrow> sql_row list) \<Rightarrow> 'd \<Rightarrow> int32 \<Rightarrow> bool" where
  "known_user tbl d i \<longleftrightarrow> (\<exists>n u. accounts_of tbl d n = Some u \<and> usr_id u = i)"

lemma new_packet_sel [simp]:
  "packetId (new_packet env t b) = packet_type_id t"
  "packet_content (new_packet env t b) = Some (PackFrom (env_any env) b)"
  by (simp_all add: new_packet_def)

lemma unpacked_new [simp]: "unpacked f d env (new_packet env t b) = f (env_any env) (PackFrom (env_any env) b)"
  by (simp add: unpacked_def)

context linked_server
begin

lemmas accounts_contract = sql.account_contract
lemmas convs_contract = sql.conversation_contract
lemmas files_contract = sql.files_contract

lemma new_packet_inj: "new_packet env t b = new_packet env t' b' \<longleftrightarrow> t = t' \<and> b = b'"
proof
  assume e: "new_packet env t b = new_packet env t' b'"
  have "packet_type_id t = packet_type_id t'" using arg_cong [OF e, of packetId] by simp
  moreover have "PackFrom (env_any env) b = PackFrom (env_any env) b'"
    using arg_cong [OF e, of packet_content] by simp
  ultimately show "t = t' \<and> b = b'" using packet_type_id_inj any.pack_inj by blast
qed simp

subsection \<open>Users by id\<close>

lemma getUser_id_known:
  assumes ok: "db_ok tbl sch d" and g: "getUser_id (env_sql env) d i = Inr (Some u)"
  shows "known_user tbl d i"
proof -
  have s: "sch d ''users'' \<noteq> None" and uq: "unique_ok users_columns (tbl d ''users'')"
    using ok by (auto simp: db_ok_iff table_ok_def)
  have rd: "\<And>r. r \<in> set (tbl d ''users'') \<Longrightarrow> read_User (env_sql env) r = Inr (row_user r)"
    using sql.db_rows(1) [OF ok] sql.read_User_row by blast
  from g have f: "fetch_first (env_sql env) d (SelectAll ''users'' [''user_id'']) [bind_int i]
      (read_User (env_sql env)) = Inr (Some u)" by (simp only: getUser_id_def)
  obtain x where x: "u = row_user x" "x \<in> set (tbl d ''users'')" "cell x ''user_id'' = bind_int i"
    using sql.fetch_first_Inr [OF s rd f] by auto
  obtain k n p where n: "cell x ''username'' = SqlText n"
    using users_cells [OF sql.db_rows(1) [OF ok x(2)]] by metis
  obtain y where y: "find (\<lambda>r. cell r ''username'' = SqlText n) (tbl d ''users'') = Some y"
    using x(2) n by (cases "find (\<lambda>r. cell r ''username'' = SqlText n) (tbl d ''users'')")
      (auto simp: find_None_iff)
  then have "y \<in> set (tbl d ''users'')" "cell y ''username'' = SqlText n"
    by (auto simp: find_Some_iff)
  then have "y = x"
    using unique_row [OF uq, of "column_of ''username'' TEXT_type [NOT_NULL, UNIQUE]" y x] x(2) n
    by (simp add: users_columns_def is_unique_def)
  then have "accounts_of tbl d n = Some u" by (simp add: accounts_of_def y x(1))
  moreover have "usr_id u = i" using x(1,3) by (simp add: row_user_def make_User_def)
  ultimately show ?thesis by (auto simp: known_user_def)
qed

subsection \<open>What each access leaves alone\<close>

lemma createUser_frame:
  assumes "store_inv tbl sch d" and "createUser (env_sql env) d u = (b, d')"
  shows "conv_of tbl d' = conv_of tbl d" and "files_of tbl d' = files_of tbl d"
proof -
  have ok: "db_ok tbl sch d" by (rule sql.store_inv_ok [OF assms(1)])
  have t: "tbl d' t = tbl d t" if "t \<noteq> ''users''" for t
  proof (cases b)
    case True
    with assms(2) have c: "createUser (env_sql env) d u = (True, d')" by simp
    show ?thesis by (rule sql.createUser_True [OF ok c]) (use that in blast)
  next
    case False
    then show ?thesis using sql.createUser_False [OF ok] assms(2) by simp
  qed
  show "conv_of tbl d' = conv_of tbl d" "files_of tbl d' = files_of tbl d"
    by (rule frames_of_tables, rule t, simp)+
qed

lemma createMsg_frame:
  assumes "store_inv tbl sch d" and "createMsgByRawMsg (env_sql env) d rm now = Inr (om, d')"
  shows "accounts_of tbl d' = accounts_of tbl d" and "files_of tbl d' = files_of tbl d"
proof -
  have t: "tbl d' t = tbl d t" if "t \<noteq> ''messages''" for t
    by (rule sql.createMsgByRawMsg_Inr [OF assms]) (use that in blast)
  show "accounts_of tbl d' = accounts_of tbl d" "files_of tbl d' = files_of tbl d"
    by (rule frames_of_tables, rule t, simp)+
qed

lemma createFile_frame:
  assumes "store_inv tbl sch d" and "createFile (env_sql env) d u = Inr (oi, d')"
  shows "accounts_of tbl d' = accounts_of tbl d" and "conv_of tbl d' = conv_of tbl d"
proof -
  have t: "tbl d' t = tbl d t" if "t \<noteq> ''files''" for t
    by (rule sql.createFile_Inr [OF assms]) (use that in auto)
  show "accounts_of tbl d' = accounts_of tbl d" "conv_of tbl d' = conv_of tbl d"
    by (rule frames_of_tables, rule t, simp)+
qed

lemma updateFile_frame:
  assumes "store_inv tbl sch d" and "updateFile (env_sql env) d f = Inr (b, d')"
  shows "accounts_of tbl d' = accounts_of tbl d" and "conv_of tbl d' = conv_of tbl d"
proof -
  obtain x where e: "sql_exec (env_sql env) d (UpdateSet ''files'' [''filename'', ''hash''] [''file_id''])
      [SqlText (fs_name f), SqlText (fs_hash f), SqlText (fs_id f)] = (x, d')"
    using assms(2) by (auto simp: updateFile_def Let_def split: option.splits prod.splits sum.splits)
  have "sch d ''files'' \<noteq> None" using sql.store_inv_ok [OF assms(1)] by (simp add: db_ok_iff)
  then have t: "tbl d' t = tbl d t" if "t \<noteq> ''files''" for t
    using sql.update_frame [OF _ e] that by blast
  show "accounts_of tbl d' = accounts_of tbl d" "conv_of tbl d' = conv_of tbl d"
    by (rule frames_of_tables, rule t, simp)+
qed

end

end
