(* ===== verification/Server_Accounts.thy ===== *)
theory Server_Accounts
  imports Server_Linked
begin

text \<open>
  Registration and login: what the three handlers do to the accounts, the challenges and the tokens,
  and the protocol they make up.
\<close>

definition credentials_ok :: "register_request \<Rightarrow> bool" where
  "credentials_ok r \<longleftrightarrow>
     3 \<le> length (rq_username r) \<and> length (rq_username r) \<le> 32 \<and>
     6 \<le> length (rq_rawPassword r) \<and> length (rq_rawPassword r) \<le> 32"

context linked_server
begin

lemma sha_c_str: "SHA256 (env_crypto env) s = Inr h \<Longrightarrow> c_str h = h"
  by (auto simp: crypto.SHA256_eq hex_c_str simp del: map_concat)

lemma on_RegisterRequest_refused:
  "\<not> credentials_ok r \<Longrightarrow>
   on_RegisterRequest env (new_packet env t (RegisterRequest_body r)) w =
     Inr (new_packet env RegisterResponse (RegisterResponse_body False), NoCallback, w)"
  by (auto simp: on_RegisterRequest_def credentials_ok_def any.register Let_def)

lemma on_RegisterRequest_tried:
  assumes "credentials_ok r" and "SHA256 (env_crypto env) (rq_rawPassword r) = Inr h"
    and "createUser (env_sql env) (w_db w) (make_User 0 (rq_username r) h) = (b, db)"
  shows "on_RegisterRequest env (new_packet env t (RegisterRequest_body r)) w =
     Inr (new_packet env RegisterResponse (RegisterResponse_body b), NoCallback, w\<lparr>w_db := db\<rparr>)"
  using assms by (simp add: on_RegisterRequest_def credentials_ok_def any.register Let_def)

lemma on_LoginPreRequest_Inr:
  assumes inv: "store_inv tbl sch (w_db w)"
    and h: "on_LoginPreRequest env io (new_packet env t (LoginPreRequest_body r)) w = Inr (reply, cb, w')"
  shows "cb = NoCallback \<and>
    (case accounts_of tbl (w_db w) (c_str (lpq_username r)) of
       None \<Rightarrow> reply = new_packet env LoginPreResponse (LoginPreResponse_body []) \<and> w' = w
     | Some u \<Rightarrow>
         reply = new_packet env LoginPreResponse
           (LoginPreResponse_body (genChallenge (env_crypto env) (io_rand io) (io_now io))) \<and>
         w' = w\<lparr>w_server := setChallengeMp (usr_id u) (genChallenge (env_crypto env) (io_rand io) (io_now io))
                  (w_server w)\<rparr>)"
proof -
  obtain res where g: "getUser_name (env_sql env) (w_db w) (lpq_username r) = Inr res"
    using h by (auto simp: on_LoginPreRequest_def any.login_pre)
  then have "res = accounts_of tbl (w_db w) (c_str (lpq_username r))"
    by (rule account_store.get_accounts [OF accounts_contract inv])
  with h g show ?thesis
    by (auto simp: on_LoginPreRequest_def any.login_pre Let_def split: option.splits)
qed

lemma on_LoginRequest_Inr:
  assumes inv: "store_inv tbl sch (w_db w)"
    and h: "on_LoginRequest env io (new_packet env t (LoginRequest_body r)) w = Inr (reply, cb, w')"
  shows "cb = NoCallback \<and>
    (case accounts_of tbl (w_db w) (c_str (lq_username r)) of
       None \<Rightarrow> reply = new_packet env LoginResponse (LoginResponse_body False (-1) ''illegal user'') \<and> w' = w
     | Some u \<Rightarrow>
         if SHA256 (env_crypto env) (usr_password u @ getChallengeMp (w_server w) (usr_id u)) =
            Inr (lq_hashPassword r)
         then reply = new_packet env LoginResponse
                (LoginResponse_body True (usr_id u) (getUUID (io_uuid io))) \<and>
              w' = w\<lparr>w_server := delChallengeMp (usr_id u)
                       (setUserIdByToken (getUUID (io_uuid io)) (usr_id u) (w_server w))\<rparr>
         else reply = new_packet env LoginResponse
                (LoginResponse_body False (-1) ''wrong password'') \<and>
              w' = w\<lparr>w_server := delChallengeMp (usr_id u) (w_server w)\<rparr>)"
proof -
  obtain res where g: "getUser_name (env_sql env) (w_db w) (lq_username r) = Inr res"
    using h by (auto simp: on_LoginRequest_def any.login)
  then have res: "res = accounts_of tbl (w_db w) (c_str (lq_username r))"
    by (rule account_store.get_accounts [OF accounts_contract inv])
  show ?thesis
  proof (cases res)
    case None
    with h g res show ?thesis by (simp add: on_LoginRequest_def any.login Let_def)
  next
    case (Some u)
    obtain s where s: "SHA256 (env_crypto env) (usr_password u @ getChallengeMp (w_server w) (usr_id u)) = Inr s"
      using crypto.SHA256_total by blast
    have acc: "accounts_of tbl (w_db w) (c_str (lq_username r)) = Some u" using res Some by simp
    show ?thesis
      using h g [unfolded Some] s
      by (auto simp: on_LoginRequest_def any.login Let_def acc split: if_splits)
  qed
qed

lemma SHA256_inv: "\<exists>h. SHA256 (env_crypto env) s = Inr h"
  by (rule crypto.SHA256_total)

lemma login_total:
  assumes "getUser_name (env_sql env) (w_db w) (lq_username r) = Inr res"
  shows "\<exists>reply cb w'. on_LoginRequest env io (new_packet env t (LoginRequest_body r)) w =
    Inr (reply, cb, w')"
proof (cases res)
  case None
  with assms show ?thesis by (simp add: on_LoginRequest_def any.login Let_def)
next
  case (Some u)
  obtain s where "SHA256 (env_crypto env) (usr_password u @ getChallengeMp (w_server w) (usr_id u)) = Inr s"
    using SHA256_inv by blast
  with assms Some show ?thesis by (simp add: on_LoginRequest_def any.login Let_def)
qed

lemma login_pre_total:
  assumes "getUser_name (env_sql env) (w_db w) (lpq_username r) = Inr res"
  shows "\<exists>reply cb w'. on_LoginPreRequest env io (new_packet env t (LoginPreRequest_body r)) w =
    Inr (reply, cb, w')"
  using assms by (auto simp: on_LoginPreRequest_def any.login_pre Let_def split: option.split)

lemma register_success:
  assumes inv: "store_inv tbl sch (w_db w)"
    and reg: "on_RegisterRequest env (new_packet env t (RegisterRequest_body r)) w =
      Inr (new_packet env RegisterResponse (RegisterResponse_body True), cb, w')"
  obtains h i where "SHA256 (env_crypto env) (rq_rawPassword r) = Inr h"
    "accounts_of tbl (w_db w') (c_str (rq_username r)) =
       Some \<lparr>usr_id = i, usr_username = c_str (rq_username r), usr_password = h\<rparr>"
    "store_inv tbl sch (w_db w')"
proof -
  have ok: "credentials_ok r"
  proof (rule ccontr)
    assume "\<not> credentials_ok r"
    from on_RegisterRequest_refused [OF this, of t w] reg show False
      by (simp add: new_packet_inj)
  qed
  obtain h where h: "SHA256 (env_crypto env) (rq_rawPassword r) = Inr h" using SHA256_inv by blast
  obtain b db where c: "createUser (env_sql env) (w_db w) (make_User 0 (rq_username r) h) = (b, db)"
    by fastforce
  have "b" "w_db w' = db"
    using on_RegisterRequest_tried [OF ok h c, of t] reg by (auto simp: new_packet_inj)
  with c have c': "createUser (env_sql env) (w_db w) (make_User 0 (rq_username r) h) = (True, w_db w')"
    by simp
  obtain i where "accounts_of tbl (w_db w') = (accounts_of tbl (w_db w))(c_str (rq_username r) \<mapsto>
      make_User i (c_str (rq_username r)) (c_str h))"
    using account_store.create_accepted [OF accounts_contract inv c'] by (auto simp: make_User_def)
  then show thesis
    using that [OF h] account_store.create_inv [OF accounts_contract inv c'] sha_c_str [OF h]
    by (simp add: make_User_def)
qed

end

subsection \<open>Properties\<close>

text \<open>
  C23: Registering always answers. It succeeds only for a user name of 3 to 32 bytes and a password
  of 6 to 32 bytes, and only when the name (up to its first NUL) has no account yet; it then adds
  exactly the account with that name and the SHA-256 of the password. Otherwise the accounts are
  unchanged, and in no case does anything but the database change.
\<close>

theorem register_correct:
  assumes laws: "linked_server env tbl sch" and inv: "store_inv tbl sch (w_db w)"
  shows "\<exists>b db. on_RegisterRequest env (new_packet env RegisterRequest (RegisterRequest_body r)) w =
      Inr (new_packet env RegisterResponse (RegisterResponse_body b), NoCallback, w\<lparr>w_db := db\<rparr>) \<and>
    store_inv tbl sch db \<and>
    (\<not> b \<longrightarrow> accounts_of tbl db = accounts_of tbl (w_db w)) \<and>
    (b \<longrightarrow> length (rq_username r) \<in> {3..32} \<and> length (rq_rawPassword r) \<in> {6..32} \<and>
       accounts_of tbl (w_db w) (c_str (rq_username r)) = None \<and>
       (\<exists>i h. SHA256 (env_crypto env) (rq_rawPassword r) = Inr h \<and>
          accounts_of tbl db = (accounts_of tbl (w_db w))(c_str (rq_username r) \<mapsto>
            \<lparr>usr_id = i, usr_username = c_str (rq_username r), usr_password = h\<rparr>)))"
proof (cases "credentials_ok r")
  case False
  from linked_server.on_RegisterRequest_refused [OF laws False] inv show ?thesis
    by (intro exI [of _ False] exI [of _ "w_db w"]) simp
next
  case True
  note acc = linked_server.accounts_contract [OF laws]
  obtain h where h: "SHA256 (env_crypto env) (rq_rawPassword r) = Inr h"
    using linked_server.SHA256_inv [OF laws] by blast
  obtain b db where c: "createUser (env_sql env) (w_db w) (make_User 0 (rq_username r) h) = (b, db)"
    by fastforce
  have "c_str h = h" by (rule linked_server.sha_c_str [OF laws h])
  then show ?thesis
    using linked_server.on_RegisterRequest_tried [OF laws True h c] h True
      account_store.create_inv [OF acc inv c]
      account_store.create_refused [OF acc inv, of "make_User 0 (rq_username r) h" db]
      account_store.create_accepted [OF acc inv, of "make_User 0 (rq_username r) h" db] c
    by (intro exI [of _ b] exI [of _ db], cases b) (auto simp: make_User_def credentials_ok_def)
qed

definition start_world :: "(string, refdb) world" where
  "start_world =
     \<lparr>w_server = empty_Server, w_db = fresh_db, w_disk = [''files'' \<mapsto> Directory],
      w_van = \<lparr>van_socket = 3, epoll_fd = 4, send_bytes = 0, recv_bytes = 0,
               RecvSocketQueue = empty_queue, KeepAliveQueue = empty_queue, van_calls = []\<rparr>\<rparr>"

lemma start_world_sel [simp]: "w_db start_world = fresh_db" "w_server start_world = empty_Server"
  by (simp_all add: start_world_def)

definition bob_world :: "(string, refdb) world" where
  "bob_world = start_world\<lparr>w_db := bob_db\<rparr>"

lemma bob_world_sel [simp]: "w_db bob_world = bob_db" "w_server bob_world = empty_Server"
  by (simp_all add: bob_world_def)

definition example_io_now :: io where
  "example_io_now = \<lparr>io_recv = [], io_send = [], io_del_ok = True, io_close_ret = 0, io_now = 100,
     io_rand = None, io_uuid = ''u1'', io_disk = example_io, io_thread_ok = True, io_locals_kept = True\<rparr>"

definition bob_answer :: string where
  "bob_answer = (case SHA256 plain_crypto ''pw'' of Inr h \<Rightarrow> h | Inl e \<Rightarrow> [])"

lemma bob_answer: "SHA256 plain_crypto ''pw'' = Inr bob_answer"
  using ref_server.SHA256_inv [of "''pw''"] by (auto simp: bob_answer_def)

lemma bob_account: "\<exists>u. accounts_of ref_tbl bob_db ''bob'' = Some u \<and> usr_password u = ''pw''"
proof -
  obtain i where "accounts_of ref_tbl bob_db =
      (accounts_of ref_tbl fresh_db)(''bob'' \<mapsto> make_User i ''bob'' ''pw'')"
    using account_store.create_accepted [OF ref_server.accounts_contract store_inv_fresh_db
        createUser_bob [folded ref_env_sel(1)]] by auto
  then show ?thesis by (simp add: make_User_def c_str_def)
qed

lemma bob_found: "\<exists>res. getUser_name ref_engine bob_db ''bob'' = Inr res"
  by (auto simp: getUser_name_def fetch_first_def bob_db_def createUser_def ref_eval c_str_def
      read_User_def getColumn_def)

theorem register_correct_witness:
  "\<exists>b db. on_RegisterRequest ref_env (new_packet ref_env RegisterRequest
       (RegisterRequest_body \<lparr>rq_username = ''bob'', rq_rawPassword = ''secret''\<rparr>)) start_world =
     Inr (new_packet ref_env RegisterResponse (RegisterResponse_body b), NoCallback,
       start_world\<lparr>w_db := db\<rparr>) \<and> store_inv ref_tbl ref_sch db"
  using register_correct [OF ref_server.linked_server_axioms, of start_world
      "\<lparr>rq_username = ''bob'', rq_rawPassword = ''secret''\<rparr>"] store_inv_fresh_db
  by auto

text \<open>
  The user name's length is checked before it is cut at its first NUL byte: a name whose bytes
  are \<open>a\<close> and two NULs passes the check and registers the account \<open>a\<close>, which is shorter than any name
  the check admits.
\<close>

theorem register_nul_bypass:
  "\<exists>db i h. on_RegisterRequest ref_env (new_packet ref_env RegisterRequest (RegisterRequest_body
       \<lparr>rq_username = [CHR ''a'', CHR 0x00, CHR 0x00], rq_rawPassword = ''secret''\<rparr>)) start_world =
     Inr (new_packet ref_env RegisterResponse (RegisterResponse_body True), NoCallback,
       start_world\<lparr>w_db := db\<rparr>) \<and>
     accounts_of ref_tbl db ''a'' = Some \<lparr>usr_id = i, usr_username = ''a'', usr_password = h\<rparr>"
proof -
  let ?r = "\<lparr>rq_username = [CHR ''a'', CHR 0x00, CHR 0x00], rq_rawPassword = ''secret''\<rparr>"
  obtain h where h: "SHA256 plain_crypto (rq_rawPassword ?r) = Inr h"
    using ref_server.SHA256_inv by auto
  obtain db where c: "createUser ref_engine fresh_db (make_User 0 (rq_username ?r) h) = (True, db)"
    by (simp add: createUser_def ref_eval)
  obtain i where "accounts_of ref_tbl db = (accounts_of ref_tbl fresh_db)(''a'' \<mapsto>
      make_User i ''a'' (c_str h))"
    using account_store.create_accepted [OF ref_server.accounts_contract store_inv_fresh_db c [folded ref_env_sel(1)]]
    by (auto simp: make_User_def c_str_def)
  moreover have "credentials_ok ?r" by (simp add: credentials_ok_def)
  ultimately show ?thesis
    using ref_server.on_RegisterRequest_tried [of ?r h start_world True db] h c
    by (auto simp: make_User_def c_str_def)
qed

text \<open>
  C12: A login request is accepted exactly when the account exists and the client sent the SHA-256
  of the stored password hash followed by the user's pending challenge. An accepted request issues
  a token that identifies the user and changes no other token; a refused one issues none. After any
  attempt on an existing account its challenge is gone, and no other user's challenge changes; an
  attempt on a name without an account is refused with its own message and changes nothing at all.
\<close>

theorem login_correct:
  assumes laws: "linked_server env tbl sch" and inv: "store_inv tbl sch (w_db w)"
    and h: "on_LoginRequest env io (new_packet env LoginRequest (LoginRequest_body r)) w =
      Inr (reply, cb, w')"
  shows "cb = NoCallback \<and> w_db w' = w_db w \<and> w_disk w' = w_disk w \<and> w_van w' = w_van w \<and>
    (case accounts_of tbl (w_db w) (c_str (lq_username r)) of
       None \<Rightarrow> reply = new_packet env LoginResponse (LoginResponse_body False (-1) ''illegal user'') \<and> w' = w
     | Some u \<Rightarrow>
         (\<forall>i. getChallengeMp (w_server w') i =
            (if i = usr_id u then [] else getChallengeMp (w_server w) i)) \<and>
         (if SHA256 (env_crypto env) (usr_password u @ getChallengeMp (w_server w) (usr_id u)) =
             Inr (lq_hashPassword r)
          then reply = new_packet env LoginResponse
                 (LoginResponse_body True (usr_id u) (getUUID (io_uuid io))) \<and>
               (\<forall>t. getUserIdByToken (w_server w') t =
                  (if t = getUUID (io_uuid io) \<and> t \<noteq> [] then usr_id u else getUserIdByToken (w_server w) t))
          else reply = new_packet env LoginResponse (LoginResponse_body False (-1) ''wrong password'') \<and>
               getUserIdByToken (w_server w') = getUserIdByToken (w_server w)))"
proof -
  note w' = linked_server.on_LoginRequest_Inr [OF laws inv h]
  have frame: "getChallengeMp (setUserIdByToken t i s) = getChallengeMp s"
      "getUserIdByToken (delChallengeMp i s) = getUserIdByToken s" for t i s
    by (rule getChallengeMp_frame getUserIdByToken_frame, simp add: frame_simps)+
  show ?thesis
  proof (cases "accounts_of tbl (w_db w) (c_str (lq_username r))")
    case None
    with w' show ?thesis by simp
  next
    case (Some u)
    show ?thesis
    proof (cases "SHA256 (env_crypto env) (usr_password u @ getChallengeMp (w_server w) (usr_id u)) =
        Inr (lq_hashPassword r)")
      case True
      with w' Some show ?thesis by (simp add: challenges.get_erase tokens.get_put frame)
    next
      case False
      with w' Some show ?thesis by (simp add: challenges.get_erase frame)
    qed
  qed
qed

theorem login_correct_witness:
  "\<exists>reply w'. on_LoginRequest ref_env example_io_now (new_packet ref_env LoginRequest (LoginRequest_body
       \<lparr>lq_username = ''bob'', lq_hashPassword = ''x''\<rparr>)) bob_world = Inr (reply, NoCallback, w')"
proof -
  let ?r = "\<lparr>lq_username = ''bob'', lq_hashPassword = ''x''\<rparr>"
  obtain u where u: "accounts_of ref_tbl bob_db ''bob'' = Some u" using bob_account by blast
  obtain res where "getUser_name ref_engine bob_db ''bob'' = Inr res" using bob_found by blast
  then obtain reply cb w' where h: "on_LoginRequest ref_env example_io_now
      (new_packet ref_env LoginRequest (LoginRequest_body ?r)) bob_world = Inr (reply, cb, w')"
    using ref_server.login_total [of bob_world ?r res example_io_now LoginRequest] by auto
  then show ?thesis
    using login_correct [OF ref_server.linked_server_axioms _ h] u store_inv_bob_db
    by (auto simp: c_str_def)
qed

text \<open>
  C1: The login protocol works, and only with the right answer: after a successful registration of
  \<open>n\<close> with password \<open>p\<close> and a challenge request for \<open>n\<close>, the server has sent a challenge \<open>c\<close> of 32
  characters, and the login request that follows is accepted exactly when its answer is
  \<open>SHA256 (SHA256 p @ c)\<close>; the token it is answered with then identifies \<open>n\<close>'s account.
\<close>

theorem login_protocol:
  assumes laws: "linked_server env tbl sch" and inv: "store_inv tbl sch (w_db w)"
    and reg: "on_RegisterRequest env (new_packet env RegisterRequest
        (RegisterRequest_body \<lparr>rq_username = n, rq_rawPassword = p\<rparr>)) w =
      Inr (new_packet env RegisterResponse (RegisterResponse_body True), cb, w1)"
    and pre: "on_LoginPreRequest env io1 (new_packet env LoginPreRequest
        (LoginPreRequest_body \<lparr>lpq_username = n\<rparr>)) w1 = Inr (reply1, cb1, w2)"
    and log: "on_LoginRequest env io2 (new_packet env LoginRequest
        (LoginRequest_body \<lparr>lq_username = n, lq_hashPassword = answer\<rparr>)) w2 = Inr (reply2, cb2, w3)"
  shows "\<exists>c hp u. reply1 = new_packet env LoginPreResponse (LoginPreResponse_body c) \<and>
    length c = kChallengeSize \<and> SHA256 (env_crypto env) p = Inr hp \<and>
    accounts_of tbl (w_db w3) (c_str n) = Some u \<and> usr_password u = hp \<and>
    (if SHA256 (env_crypto env) (hp @ c) = Inr answer
     then reply2 = new_packet env LoginResponse
            (LoginResponse_body True (usr_id u) (getUUID (io_uuid io2))) \<and>
          (getUUID (io_uuid io2) \<noteq> [] \<longrightarrow>
             getUserIdByToken (w_server w3) (getUUID (io_uuid io2)) = usr_id u)
     else reply2 = new_packet env LoginResponse (LoginResponse_body False (-1) ''wrong password''))"
proof -
  obtain hp i where hp: "SHA256 (env_crypto env) p = Inr hp"
    and acc1: "accounts_of tbl (w_db w1) (c_str n) =
      Some \<lparr>usr_id = i, usr_username = c_str n, usr_password = hp\<rparr>"
    and inv1: "store_inv tbl sch (w_db w1)"
    using linked_server.register_success [OF laws inv reg] by auto
  let ?u = "\<lparr>usr_id = i, usr_username = c_str n, usr_password = hp\<rparr>"
  let ?c = "genChallenge (env_crypto env) (io_rand io1) (io_now io1)"
  have pre': "reply1 = new_packet env LoginPreResponse (LoginPreResponse_body ?c)"
      "w2 = w1\<lparr>w_server := setChallengeMp i ?c (w_server w1)\<rparr>"
    using linked_server.on_LoginPreRequest_Inr [OF laws inv1 pre] acc1 by auto
  have inv2: "store_inv tbl sch (w_db w2)" and acc2: "accounts_of tbl (w_db w2) (c_str n) = Some ?u"
    using inv1 acc1 pre'(2) by simp_all
  have ch: "getChallengeMp (w_server w2) i = ?c" using pre'(2) by (simp add: challenges.get_put)
  have log': "if SHA256 (env_crypto env) (hp @ ?c) = Inr answer
     then reply2 = new_packet env LoginResponse
            (LoginResponse_body True i (getUUID (io_uuid io2))) \<and>
          w3 = w2\<lparr>w_server := delChallengeMp i
                   (setUserIdByToken (getUUID (io_uuid io2)) i (w_server w2))\<rparr>
     else reply2 = new_packet env LoginResponse (LoginResponse_body False (-1) ''wrong password'') \<and>
          w3 = w2\<lparr>w_server := delChallengeMp i (w_server w2)\<rparr>"
    using linked_server.on_LoginRequest_Inr [OF laws inv2 log] acc2 ch by simp
  have acc3: "accounts_of tbl (w_db w3) (c_str n) = Some ?u"
    using log' acc2 by (simp split: if_splits)
  have tok: "getUserIdByToken (delChallengeMp i s) = getUserIdByToken s" for s
    by (rule getUserIdByToken_frame) (simp add: frame_simps)
  show ?thesis
    using pre'(1) hp acc3 log'
    by (intro exI [of _ ?c] exI [of _ hp] exI [of _ ?u])
      (simp add: kChallengeSize_def tokens.get_put tok split: if_splits)
qed

theorem login_protocol_witness:
  "\<exists>w1 w2 w3 reply1 c answer i.
     on_RegisterRequest ref_env (new_packet ref_env RegisterRequest
        (RegisterRequest_body \<lparr>rq_username = ''bob'', rq_rawPassword = ''secret''\<rparr>)) start_world =
      Inr (new_packet ref_env RegisterResponse (RegisterResponse_body True), NoCallback, w1) \<and>
     on_LoginPreRequest ref_env example_io_now (new_packet ref_env LoginPreRequest
        (LoginPreRequest_body \<lparr>lpq_username = ''bob''\<rparr>)) w1 =
      Inr (new_packet ref_env LoginPreResponse (LoginPreResponse_body c), NoCallback, w2) \<and>
     on_LoginRequest ref_env example_io_now (new_packet ref_env LoginRequest
        (LoginRequest_body \<lparr>lq_username = ''bob'', lq_hashPassword = answer\<rparr>)) w2 =
      Inr (new_packet ref_env LoginResponse (LoginResponse_body True i ''u1''), NoCallback, w3) \<and>
     getUserIdByToken (w_server w3) ''u1'' = i"
proof -
  let ?r = "\<lparr>rq_username = ''bob'', rq_rawPassword = ''secret''\<rparr>"
  obtain h where h: "SHA256 plain_crypto ''secret'' = Inr h"
    using ref_server.SHA256_inv [of "''secret''"] by auto
  obtain db where c: "createUser ref_engine fresh_db (make_User 0 ''bob'' h) = (True, db)"
    and g: "\<exists>res. getUser_name ref_engine db ''bob'' = Inr res"
    by (simp add: createUser_def ref_eval make_User_def c_str_def getUser_name_def fetch_first_def
        read_User_def getColumn_def)
  let ?w1 = "start_world\<lparr>w_db := db\<rparr>"
  have reg: "on_RegisterRequest ref_env (new_packet ref_env RegisterRequest (RegisterRequest_body ?r))
      start_world = Inr (new_packet ref_env RegisterResponse (RegisterResponse_body True), NoCallback, ?w1)"
    using ref_server.on_RegisterRequest_tried [of ?r h start_world True db] h c
    by (simp add: credentials_ok_def)
  have inv: "store_inv ref_tbl ref_sch (w_db start_world)" using store_inv_fresh_db by simp
  have inv1: "store_inv ref_tbl ref_sch (w_db ?w1)"
    using account_store.create_inv [OF ref_server.accounts_contract store_inv_fresh_db
        c [folded ref_env_sel(1)]] by simp
  obtain res where res: "getUser_name ref_engine db ''bob'' = Inr res" using g by blast
  obtain reply1 cb1 w2 where pre: "on_LoginPreRequest ref_env example_io_now
      (new_packet ref_env LoginPreRequest (LoginPreRequest_body \<lparr>lpq_username = ''bob''\<rparr>)) ?w1 =
      Inr (reply1, cb1, w2)"
    using ref_server.login_pre_total [of ?w1 "\<lparr>lpq_username = ''bob''\<rparr>" res example_io_now LoginPreRequest] res by auto
  have p: "w_db w2 = db" "cb1 = NoCallback"
    using ref_server.on_LoginPreRequest_Inr [OF inv1 pre] by (auto split: option.splits)
  obtain answer where a: "SHA256 plain_crypto (h @ genChallenge plain_crypto None 100) = Inr answer"
    using ref_server.SHA256_inv by auto
  let ?r2 = "\<lparr>lq_username = ''bob'', lq_hashPassword = answer\<rparr>"
  obtain reply2 cb2 w3 where log: "on_LoginRequest ref_env example_io_now
      (new_packet ref_env LoginRequest (LoginRequest_body ?r2)) w2 = Inr (reply2, cb2, w3)"
    using ref_server.login_total [of w2 ?r2 res example_io_now LoginRequest] res p by auto
  have cb2: "cb2 = NoCallback"
    using ref_server.on_LoginRequest_Inr [OF _ log] inv1 p by (simp split: option.splits if_splits)
  have uuid: "getUUID (io_uuid example_io_now) = ''u1''"
    by (simp add: getUUID_def c_str_def example_io_now_def)
  obtain ch hp and u :: User where chu: "reply1 = new_packet ref_env LoginPreResponse (LoginPreResponse_body ch)"
    "SHA256 plain_crypto ''secret'' = Inr hp"
    "if SHA256 plain_crypto (hp @ ch) = Inr answer
     then reply2 = new_packet ref_env LoginResponse (LoginResponse_body True (usr_id u) ''u1'') \<and>
       (''u1'' \<noteq> [] \<longrightarrow> getUserIdByToken (w_server w3) ''u1'' = usr_id u)
     else reply2 = new_packet ref_env LoginResponse (LoginResponse_body False (-1) ''wrong password'')"
    using login_protocol [OF ref_server.linked_server_axioms inv reg pre log]
    unfolding uuid ref_env_sel by blast
  have "hp = h" using chu(2) h by simp
  have "\<exists>u. accounts_of ref_tbl (w_db ?w1) (c_str ''bob'') = Some u"
    by (rule ref_server.register_success [OF inv reg]) simp
  then obtain u1 where "accounts_of ref_tbl (w_db ?w1) (c_str ''bob'') = Some u1" by blast
  then have "reply1 = new_packet ref_env LoginPreResponse
      (LoginPreResponse_body (genChallenge plain_crypto (io_rand example_io_now) (io_now example_io_now)))"
    using ref_server.on_LoginPreRequest_Inr [OF inv1 pre] by simp
  then have "ch = genChallenge plain_crypto None 100"
    using chu(1) by (simp add: ref_server.new_packet_inj example_io_now_def)
  then have "reply2 = new_packet ref_env LoginResponse (LoginResponse_body True (usr_id u) ''u1'')"
      "getUserIdByToken (w_server w3) ''u1'' = usr_id u"
    using chu(3) a \<open>hp = h\<close> by (auto split: if_splits)
  then show ?thesis using reg pre log chu(1) p(2) cb2 by blast
qed

text \<open>
  C17: A challenge serves one attempt: when a login request for an existing account is followed by
  another one without a new challenge request, the second is accepted exactly when it answers the
  empty challenge. So the recorded answer of an earlier login is not accepted again (unless the two
  hashes collide), but the SHA-256 of the stored hash alone is accepted at any time a challenge is
  not pending.
\<close>

theorem challenge_one_shot:
  assumes laws: "linked_server env tbl sch" and inv: "store_inv tbl sch (w_db w)"
    and acc: "accounts_of tbl (w_db w) (c_str n) = Some u"
    and first: "on_LoginRequest env io1 (new_packet env LoginRequest
        (LoginRequest_body \<lparr>lq_username = n, lq_hashPassword = a1\<rparr>)) w = Inr (reply1, cb1, w1)"
    and second: "on_LoginRequest env io2 (new_packet env LoginRequest
        (LoginRequest_body \<lparr>lq_username = n, lq_hashPassword = a2\<rparr>)) w1 = Inr (reply2, cb2, w2)"
  shows "(\<exists>t. reply2 = new_packet env LoginResponse (LoginResponse_body True (usr_id u) t)) \<longleftrightarrow>
    SHA256 (env_crypto env) (usr_password u) = Inr a2"
proof -
  have w1: "w_db w1 = w_db w" "getChallengeMp (w_server w1) (usr_id u) = []"
    using linked_server.on_LoginRequest_Inr [OF laws inv first] acc
    by (auto simp: challenges.get_erase split: if_splits)
  have "if SHA256 (env_crypto env) (usr_password u) = Inr a2
     then reply2 = new_packet env LoginResponse
            (LoginResponse_body True (usr_id u) (getUUID (io_uuid io2)))
     else reply2 = new_packet env LoginResponse (LoginResponse_body False (-1) ''wrong password'')"
    using linked_server.on_LoginRequest_Inr [OF laws _ second] inv acc w1 by (auto split: if_splits)
  then show ?thesis
    by (auto simp: linked_server.new_packet_inj [OF laws] split: if_splits)
qed

theorem challenge_one_shot_witness:
  "\<exists>w1 w2 reply1 reply2. on_LoginRequest ref_env example_io_now (new_packet ref_env LoginRequest
       (LoginRequest_body \<lparr>lq_username = ''bob'', lq_hashPassword = ''x''\<rparr>)) bob_world =
       Inr (reply1, NoCallback, w1) \<and>
     on_LoginRequest ref_env example_io_now (new_packet ref_env LoginRequest
       (LoginRequest_body \<lparr>lq_username = ''bob'', lq_hashPassword = bob_answer\<rparr>)) w1 =
       Inr (reply2, NoCallback, w2) \<and>
     (\<exists>i t. reply2 = new_packet ref_env LoginResponse (LoginResponse_body True i t))"
proof -
  let ?r1 = "\<lparr>lq_username = ''bob'', lq_hashPassword = ''x''\<rparr>"
  let ?r2 = "\<lparr>lq_username = ''bob'', lq_hashPassword = bob_answer\<rparr>"
  obtain u where u: "accounts_of ref_tbl bob_db ''bob'' = Some u" "usr_password u = ''pw''"
    using bob_account by blast
  have inv: "store_inv ref_tbl ref_sch (w_db bob_world)" using store_inv_bob_db by simp
  obtain res where res: "getUser_name ref_engine bob_db ''bob'' = Inr res" using bob_found by blast
  then obtain reply1 cb1 w1 where h1: "on_LoginRequest ref_env example_io_now
      (new_packet ref_env LoginRequest (LoginRequest_body ?r1)) bob_world = Inr (reply1, cb1, w1)"
    using ref_server.login_total [of bob_world ?r1 res example_io_now LoginRequest] by auto
  have l1: "cb1 = NoCallback" "w_db w1 = bob_db"
    using ref_server.on_LoginRequest_Inr [OF inv h1] u by (auto simp: c_str_def split: if_splits)
  then obtain reply2 cb2 w2 where h2: "on_LoginRequest ref_env example_io_now
      (new_packet ref_env LoginRequest (LoginRequest_body ?r2)) w1 = Inr (reply2, cb2, w2)"
    using ref_server.login_total [of w1 ?r2 res example_io_now LoginRequest] res by auto
  have "cb2 = NoCallback"
    using ref_server.on_LoginRequest_Inr [OF _ h2] l1 inv by (simp split: option.splits if_splits)
  moreover have "\<exists>t. reply2 = new_packet ref_env LoginResponse (LoginResponse_body True (usr_id u) t)"
    using challenge_one_shot [OF ref_server.linked_server_axioms inv _ h1 h2] u bob_answer
    by (simp add: c_str_def)
  ultimately show ?thesis using h1 h2 l1 by blast
qed

end
