(* ===== verification/Server_Messages.thy ===== *)
theory Server_Messages
  imports Server_Accounts
begin

text \<open>
  Sending and fetching messages: who may send, what is stored, and what is queued for the receiver's
  channel.
\<close>

definition is_file_type :: "RawMessage \<Rightarrow> bool" where
  "is_file_type m \<longleftrightarrow> raw_type m = IMAGE \<or> raw_type m = FILE"

definition with_file_id :: "string \<Rightarrow> Message \<Rightarrow> Message" where
  "with_file_id i m = m\<lparr>msg_message := (msg_message m)\<lparr>raw_content := i\<rparr>\<rparr>"

context linked_server
begin

lemma createMsg_not_None:
  "store_inv tbl sch d \<Longrightarrow> createMsgByRawMsg (env_sql env) d rm now \<noteq> Inr (None, d')"
  by (auto elim!: sql.createMsgByRawMsg_Inr)

lemma on_SendMessageRequest_Inr:
  assumes inv: "store_inv tbl sch (w_db w)"
    and h: "on_SendMessageRequest env io (new_packet env t (SendMessageRequest_body r)) w =
      Inr (reply, cb, w')"
  obtains
    (refused) "reply = new_packet env SendMessageResponse (SendMessageResponse_body failed_message)"
      "cb = NoCallback" "w' = w"
      "getUserIdByToken (w_server w) (smq_token r) \<noteq> raw_from (smq_message r) \<or>
       getUser_id (env_sql env) (w_db w) (raw_to (smq_message r)) = Inr None"
  | (plain) m db where
      "reply = new_packet env SendMessageResponse (SendMessageResponse_body m)"
      "cb = ForwardCallback (raw_to (smq_message r)) m" "w' = w\<lparr>w_db := db\<rparr>"
      "getUserIdByToken (w_server w) (smq_token r) = raw_from (smq_message r)"
      "known_user tbl (w_db w) (raw_to (smq_message r))" "\<not> is_file_type (smq_message r)"
      "createMsgByRawMsg (env_sql env) (w_db w) (smq_message r) (io_now io) = Inr (Some m, db)"
  | (stored) m db i db' where
      "reply = new_packet env SendMessageResponse (SendMessageResponse_body (with_file_id i m))"
      "cb = FileMsgCallback i (raw_to (smq_message r)) (with_file_id i m)" "w' = w\<lparr>w_db := db'\<rparr>"
      "getUserIdByToken (w_server w) (smq_token r) = raw_from (smq_message r)"
      "known_user tbl (w_db w) (raw_to (smq_message r))" "is_file_type (smq_message r)"
      "createMsgByRawMsg (env_sql env) (w_db w) (smq_message r) (io_now io) = Inr (Some m, db)"
      "createFile (env_sql env) db (io_uuid io) = Inr (Some i, db')"
  | (no_file) m db db' where
      "reply = new_packet env SendMessageResponse (SendMessageResponse_body failed_message)"
      "cb = NoCallback" "w' = w\<lparr>w_db := db'\<rparr>"
      "getUserIdByToken (w_server w) (smq_token r) = raw_from (smq_message r)"
      "known_user tbl (w_db w) (raw_to (smq_message r))" "is_file_type (smq_message r)"
      "createMsgByRawMsg (env_sql env) (w_db w) (smq_message r) (io_now io) = Inr (Some m, db)"
      "createFile (env_sql env) db (io_uuid io) = Inr (None, db')"
proof (cases "getUserIdByToken (w_server w) (smq_token r) = raw_from (smq_message r)")
  case False
  with h refused show thesis by (simp add: on_SendMessageRequest_def any.send_message Let_def)
next
  case uid: True
  obtain rc where rc: "getUser_id (env_sql env) (w_db w) (raw_to (smq_message r)) = Inr rc"
    using h uid by (auto simp: on_SendMessageRequest_def any.send_message Let_def)
  show thesis
  proof (cases rc)
    case None
    with h uid rc refused show thesis by (simp add: on_SendMessageRequest_def any.send_message Let_def)
  next
    case (Some u)
    have known: "known_user tbl (w_db w) (raw_to (smq_message r))"
      by (rule getUser_id_known [OF sql.store_inv_ok [OF inv]]) (simp add: rc Some)
    obtain om db where c: "createMsgByRawMsg (env_sql env) (w_db w) (smq_message r) (io_now io) = Inr (om, db)"
      using h uid rc Some by (auto simp: on_SendMessageRequest_def any.send_message Let_def)
    obtain m where m: "om = Some m" using createMsg_not_None [OF inv] c by (cases om) auto
    show thesis
    proof (cases "is_file_type (smq_message r)")
      case False
      with h uid rc Some c m show thesis
        by (intro plain [OF _ _ _ uid known False])
          (auto simp: on_SendMessageRequest_def any.send_message Let_def is_file_type_def)
    next
      case True
      obtain oi db' where f: "createFile (env_sql env) db (io_uuid io) = Inr (oi, db')"
        using h uid rc Some c m True
        by (auto simp: on_SendMessageRequest_def any.send_message Let_def is_file_type_def)
      show thesis
      proof (cases oi)
        case None
        with h uid rc Some c m True f show thesis
          by (intro no_file [OF _ _ _ uid known True])
            (auto simp: on_SendMessageRequest_def any.send_message Let_def is_file_type_def)
      next
        case oi: (Some i)
        with h uid rc Some c m True f show thesis
          by (intro stored [OF _ _ _ uid known True])
            (auto simp: on_SendMessageRequest_def any.send_message Let_def is_file_type_def with_file_id_def)
      qed
    qed
  qed
qed

lemma send_append:
  assumes inv: "store_inv tbl sch d"
    and c: "createMsgByRawMsg (env_sql env) d rm now = Inr (Some m, d')"
  shows "msg_message m = rm" and "store_inv tbl sch d'"
    and "conv_of tbl d' = (\<lambda>a b. if a = raw_from rm \<and> b = raw_to rm
           then conv_of tbl d a b @ [m] else conv_of tbl d a b)"
  using conversation_store.append_some [OF convs_contract inv c]
    conversation_store.append_inv [OF convs_contract inv c] by (auto simp: fun_eq_iff)

lemma on_ContactMessageRequest_Inr:
  assumes "on_ContactMessageRequest env (new_packet env t (ContactMessageRequest_body r)) w =
      Inr (reply, cb, w')"
  obtains om where "cb = NoCallback" "w' = w"
    "getMessage (env_sql env) (w_db w) (getUserIdByToken (w_server w) (cmq_token r)) (cmq_id r)
       (cmq_internalId r) = Inr om"
    "reply = new_packet env ContactMessageResponse
       (ContactMessageResponse_body (case om of Some m \<Rightarrow> m | None \<Rightarrow> failed_message))"
  using assms
  by (auto simp: on_ContactMessageRequest_def any.contact_message Let_def split: option.splits)

lemma fetch_total:
  assumes "getMessage (env_sql env) (w_db w) (getUserIdByToken (w_server w) (cmq_token r)) (cmq_id r)
     (cmq_internalId r) = Inr om"
  shows "\<exists>reply cb w'. on_ContactMessageRequest env (new_packet env t (ContactMessageRequest_body r)) w =
    Inr (reply, cb, w')"
  using assms
  by (cases om) (simp_all add: on_ContactMessageRequest_def any.contact_message Let_def)

text \<open>What a successful send stores, and what fetching a stored message gives.\<close>

lemma sent_message_stored:
  assumes inv: "store_inv tbl sch (w_db w)"
    and send: "on_SendMessageRequest env io (new_packet env ty
        (SendMessageRequest_body \<lparr>smq_token = t, smq_message = rm\<rparr>)) w =
      Inr (new_packet env SendMessageResponse (SendMessageResponse_body m), cb, w')"
    and sent: "cb \<noteq> NoCallback"
  obtains m0 where "msg_message m0 = rm" "m0 \<in> set (conv_of tbl (w_db w') (raw_from rm) (raw_to rm))"
    "msg_internalId m = msg_internalId m0"
    "if is_file_type rm then \<exists>i. cb = FileMsgCallback i (raw_to rm) m \<and> m = with_file_id i m0 else m = m0"
proof (cases rule: on_SendMessageRequest_Inr [OF inv send])
  case (2 m' db)
  then have "createMsgByRawMsg (env_sql env) (w_db w) rm (io_now io) = Inr (Some m, db)"
    by (simp add: new_packet_inj)
  from send_append [OF inv this] 2 show thesis by (intro that [of m]) simp_all
next
  case (3 m' db i db')
  then have c: "createMsgByRawMsg (env_sql env) (w_db w) rm (io_now io) = Inr (Some m', db)" by simp
  note a = send_append [OF inv c]
  have "conv_of tbl db' = conv_of tbl db" by (rule createFile_frame(2) [OF a(2) 3(8)])
  moreover have "m = with_file_id i m'" using 3(1) by (simp add: new_packet_inj)
  ultimately show thesis
    using 3(2,3,6) a(1,3) by (intro that [of m']) (simp_all add: with_file_id_def)
qed (use sent in simp_all)

lemma stored_message_fetched:
  assumes inv: "store_inv tbl sch (w_db w)" and m: "m \<in> set (conv_of tbl (w_db w) uid c)"
    and uid: "getUserIdByToken (w_server w) t = uid"
    and fetch: "on_ContactMessageRequest env (new_packet env ty (ContactMessageRequest_body
        \<lparr>cmq_token = t, cmq_id = c, cmq_internalId = msg_internalId m\<rparr>)) w = Inr (reply, cb, w')"
  shows "reply = new_packet env ContactMessageResponse (ContactMessageResponse_body m)"
proof (rule on_ContactMessageRequest_Inr [OF fetch])
  fix om
  assume "getMessage (env_sql env) (w_db w) (getUserIdByToken (w_server w)
         (cmq_token \<lparr>cmq_token = t, cmq_id = c, cmq_internalId = msg_internalId m\<rparr>))
       (cmq_id \<lparr>cmq_token = t, cmq_id = c, cmq_internalId = msg_internalId m\<rparr>)
       (cmq_internalId \<lparr>cmq_token = t, cmq_id = c, cmq_internalId = msg_internalId m\<rparr>) = Inr om"
    and r: "reply = new_packet env ContactMessageResponse
       (ContactMessageResponse_body (case om of Some m \<Rightarrow> m | None \<Rightarrow> failed_message))"
  then have "getMessage (env_sql env) (w_db w) uid c (msg_internalId m) = Inr om" by (simp add: uid)
  then have "om = Some m" by (rule conversation_store.get_stored [OF convs_contract inv m])
  with r show ?thesis by simp
qed

lemma run_forward:
  assumes "run_callback env io fd (ForwardCallback u m) w = Inr w'"
  shows "w' = w\<lparr>w_server := post_to u (new_packet env ContactMessageListRequest
           (ContactMessageListRequest_body [m])) (w_server w)\<rparr>"
  using assms post_to_offline [of "w_server w" u]
  by (auto simp: run_callback_defs Let_def split: if_splits)

end

subsection \<open>Properties\<close>

text \<open>
  C13: A send request touches nothing but the database, keeps the store's invariant and no account
  changes. When it leads to a notification, the token identified the sender that the message names
  and the receiver exists; the message was appended, unchanged, to that one conversation; and the
  reply is the stored message, where for a file or an image the content is replaced by the id of a
  newly registered file. Without a notification the reply is the failure message with id -1 and no
  file is registered: either the token did not identify the sender or there is no such receiver, and
  then nothing has changed; or the announced file could not be registered, and then the message is
  stored all the same, appended to its conversation as the client sent it.
\<close>

theorem send_message_correct:
  assumes laws: "linked_server env tbl sch" and inv: "store_inv tbl sch (w_db w)"
    and h: "on_SendMessageRequest env io (new_packet env SendMessageRequest
        (SendMessageRequest_body \<lparr>smq_token = t, smq_message = rm\<rparr>)) w = Inr (reply, cb, w')"
  shows "w' = w\<lparr>w_db := w_db w'\<rparr> \<and> store_inv tbl sch (w_db w') \<and>
    accounts_of tbl (w_db w') = accounts_of tbl (w_db w) \<and>
    (cb = NoCallback \<longrightarrow>
       reply = new_packet env SendMessageResponse (SendMessageResponse_body failed_message) \<and>
       files_of tbl (w_db w') = files_of tbl (w_db w) \<and>
       ((getUserIdByToken (w_server w) t \<noteq> raw_from rm \<or>
           getUser_id (env_sql env) (w_db w) (raw_to rm) = Inr None) \<and> w' = w \<or>
        getUserIdByToken (w_server w) t = raw_from rm \<and> known_user tbl (w_db w) (raw_to rm) \<and>
        is_file_type rm \<and>
        (\<exists>m0. msg_message m0 = rm \<and> conv_of tbl (w_db w') = (\<lambda>a b. if a = raw_from rm \<and> b = raw_to rm
           then conv_of tbl (w_db w) a b @ [m0] else conv_of tbl (w_db w) a b)))) \<and>
    (cb \<noteq> NoCallback \<longrightarrow>
       getUserIdByToken (w_server w) t = raw_from rm \<and> known_user tbl (w_db w) (raw_to rm) \<and>
       (\<exists>m m0. reply = new_packet env SendMessageResponse (SendMessageResponse_body m) \<and>
          msg_message m0 = rm \<and>
          conv_of tbl (w_db w') = (\<lambda>a b. if a = raw_from rm \<and> b = raw_to rm
             then conv_of tbl (w_db w) a b @ [m0] else conv_of tbl (w_db w) a b) \<and>
          (if is_file_type rm
           then \<exists>i. m = with_file_id i m0 \<and> cb = FileMsgCallback i (raw_to rm) m \<and>
                  files_of tbl (w_db w) i = None \<and> files_of tbl (w_db w') =
                    (files_of tbl (w_db w))(i \<mapsto> \<lparr>fs_id = i, fs_name = [], fs_hash = []\<rparr>)
           else m = m0 \<and> cb = ForwardCallback (raw_to rm) m \<and>
                files_of tbl (w_db w') = files_of tbl (w_db w))))"
proof (cases rule: linked_server.on_SendMessageRequest_Inr [OF laws inv h])
  case 1
  then show ?thesis using inv by simp
next
  case (2 m db)
  then have c: "createMsgByRawMsg (env_sql env) (w_db w) rm (io_now io) = Inr (Some m, db)" by simp
  show ?thesis
    using 2 linked_server.send_append [OF laws inv c] linked_server.createMsg_frame [OF laws inv c]
    by simp
next
  case (3 m db i db')
  then have c: "createMsgByRawMsg (env_sql env) (w_db w) rm (io_now io) = Inr (Some m, db)" by simp
  note a = linked_server.send_append [OF laws inv c]
  note f = file_store.create_some [OF linked_server.files_contract [OF laws] a(2) 3(8)]
    file_store.create_inv [OF linked_server.files_contract [OF laws] a(2) 3(8)]
  have "\<exists>m1 m0. reply = new_packet env SendMessageResponse (SendMessageResponse_body m1) \<and>
      msg_message m0 = rm \<and> conv_of tbl db = (\<lambda>a b. if a = raw_from rm \<and> b = raw_to rm
         then conv_of tbl (w_db w) a b @ [m0] else conv_of tbl (w_db w) a b) \<and>
      (\<exists>i. m1 = with_file_id i m0 \<and> cb = FileMsgCallback i (raw_to rm) m1 \<and>
         files_of tbl db i = None \<and>
         files_of tbl db' = (files_of tbl db)(i \<mapsto> \<lparr>fs_id = i, fs_name = [], fs_hash = []\<rparr>))"
    by (rule exI [of _ "with_file_id i m"], rule exI [of _ m])
      (use 3(1,2) a(1,3) f(1) in auto)
  then show ?thesis
    using 3(2-6) f(2) linked_server.createMsg_frame [OF laws inv c]
      linked_server.createFile_frame [OF laws a(2) 3(8)]
    by simp
next
  case (4 m db db')
  then have c: "createMsgByRawMsg (env_sql env) (w_db w) rm (io_now io) = Inr (Some m, db)" by simp
  note a = linked_server.send_append [OF laws inv c]
  have f: "files_of tbl db' = files_of tbl (w_db w)"
    using file_store.create_none [OF linked_server.files_contract [OF laws] a(2) 4(8)]
      linked_server.createMsg_frame [OF laws inv c] by simp
  have "\<exists>m0. msg_message m0 = rm \<and> conv_of tbl db' = (\<lambda>a b. if a = raw_from rm \<and> b = raw_to rm
      then conv_of tbl (w_db w) a b @ [m0] else conv_of tbl (w_db w) a b)"
    by (rule exI [of _ m]) (simp add: a(1,3) linked_server.createFile_frame(2) [OF laws a(2) 4(8)])
  then show ?thesis
    using 4 a f linked_server.createMsg_frame [OF laws inv c]
      file_store.create_inv [OF linked_server.files_contract [OF laws] a(2) 4(8)]
      linked_server.createFile_frame [OF laws a(2) 4(8)]
    by simp
qed

text \<open>An example: user 1 is logged in with the token \<open>t\<close> and has a channel on socket 9.\<close>

definition online_world :: "(string, refdb) world" where
  "online_world = bob_world\<lparr>w_server :=
     setKpAliveSender 1 9 (setUserIdByToken ''t'' 1 empty_Server)\<rparr>"

lemma online_world_sel [simp]:
  "w_db online_world = bob_db" "w_van online_world = w_van start_world"
  "w_disk online_world = [''files'' \<mapsto> Directory]"
  "getUserIdByToken (w_server online_world) ''t'' = 1"
  "pending_packets (w_server online_world) 1 = Some []"
  by (simp_all add: online_world_def bob_world_def start_world_def channels.pending_connect
      getUserIdByToken_def frame_simps setUserIdByToken_def)

lemma bob_by_id: "\<exists>u. getUser_id ref_engine bob_db 1 = Inr (Some u)"
  by (simp add: getUser_id_def fetch_first_def bob_db_def createUser_def ref_eval bind_int_def
      read_User_def getColumn_def)

lemma createMsg_bob_db:
  "\<exists>m d'. createMsgByRawMsg ref_engine bob_db rm 100 = Inr (Some m, d')"
  by (simp add: createMsgByRawMsg_def getAllMessages_def fetch_all_def createMsg_def ref_eval
      bind_int_def int32_succ_def bob_db_def createUser_def)

abbreviation send_hello :: "string Packet" where
  "send_hello \<equiv> new_packet ref_env SendMessageRequest
     (SendMessageRequest_body \<lparr>smq_token = ''t'', smq_message = hello\<rparr>)"

lemma send_hello_runs:
  "\<exists>m db. on_SendMessageRequest ref_env example_io_now send_hello online_world =
     Inr (new_packet ref_env SendMessageResponse (SendMessageResponse_body m), ForwardCallback 1 m,
          online_world\<lparr>w_db := db\<rparr>) \<and>
     createMsgByRawMsg ref_engine bob_db hello 100 = Inr (Some m, db)"
proof -
  obtain u where u: "getUser_id ref_engine bob_db 1 = Inr (Some u)" using bob_by_id by blast
  obtain m db where c: "createMsgByRawMsg ref_engine bob_db hello 100 = Inr (Some m, db)"
    using createMsg_bob_db by blast
  have "raw_type hello = TEXT" by (simp add: hello_def)
  then show ?thesis
    using u c by (simp add: on_SendMessageRequest_def ref_server.any.send_message [simplified]
        example_io_now_def Let_def)
qed

theorem send_message_correct_witness:
  "\<exists>m w'. on_SendMessageRequest ref_env example_io_now send_hello online_world =
     Inr (new_packet ref_env SendMessageResponse (SendMessageResponse_body m), ForwardCallback 1 m, w') \<and>
     msg_message m = hello \<and> conv_of ref_tbl (w_db w') 1 1 = [m]"
proof -
  obtain m db where h: "on_SendMessageRequest ref_env example_io_now send_hello online_world =
     Inr (new_packet ref_env SendMessageResponse (SendMessageResponse_body m), ForwardCallback 1 m,
          online_world\<lparr>w_db := db\<rparr>)" using send_hello_runs by blast
  have "conv_of ref_tbl bob_db 1 1 = []"
    by (simp add: conv_of_def conv_rows_def bob_db_def createUser_def ref_eval)
  moreover have "\<not> is_file_type hello" by (simp add: is_file_type_def hello_def)
  ultimately show ?thesis
    using send_message_correct [OF ref_server.linked_server_axioms _ h] h store_inv_bob_db
    by (auto simp: ref_server.new_packet_inj)
qed

text \<open>
  Nobody can put a message into a conversation of a sender that their token does not identify,
  or to a receiver who does not exist: such a request changes nothing.
\<close>

theorem send_needs_identity:
  assumes laws: "linked_server env tbl sch" and inv: "store_inv tbl sch (w_db w)"
    and h: "on_SendMessageRequest env io (new_packet env SendMessageRequest
        (SendMessageRequest_body \<lparr>smq_token = t, smq_message = rm\<rparr>)) w = Inr (reply, cb, w')"
    and bad: "getUserIdByToken (w_server w) t \<noteq> raw_from rm \<or> \<not> known_user tbl (w_db w) (raw_to rm)"
  shows "w' = w \<and> cb = NoCallback \<and>
    reply = new_packet env SendMessageResponse (SendMessageResponse_body failed_message)"
  using bad by (cases rule: linked_server.on_SendMessageRequest_Inr [OF laws inv h]) auto

theorem send_needs_identity_witness:
  "\<exists>reply. on_SendMessageRequest ref_env example_io_now (new_packet ref_env SendMessageRequest
       (SendMessageRequest_body \<lparr>smq_token = ''x'', smq_message = hello\<rparr>)) online_world =
     Inr (reply, NoCallback, online_world) \<and>
     reply = new_packet ref_env SendMessageResponse (SendMessageResponse_body failed_message)"
proof -
  have bad: "getUserIdByToken (w_server online_world) ''x'' \<noteq> raw_from hello"
    by (simp add: online_world_def getUserIdByToken_def frame_simps setUserIdByToken_def
        empty_Server_def)
  obtain reply cb w' where h: "on_SendMessageRequest ref_env example_io_now
      (new_packet ref_env SendMessageRequest
       (SendMessageRequest_body \<lparr>smq_token = ''x'', smq_message = hello\<rparr>)) online_world =
      Inr (reply, cb, w')"
    using bad by (simp add: on_SendMessageRequest_def ref_server.any.send_message [simplified])
  show ?thesis
    using send_needs_identity [OF ref_server.linked_server_axioms _ h] bad h store_inv_bob_db by simp
qed

text \<open>
  But the check compares the sender with the user id 0 that every unknown token gives: a client
  who never logged in, with an empty token, gets a message from sender 0 stored and forwarded.
\<close>

definition anonymous :: RawMessage where
  "anonymous = \<lparr>raw_from = 0, raw_to = 1, raw_type = TEXT, raw_content = ''hi''\<rparr>"

theorem send_without_login:
  "\<exists>m w'. on_SendMessageRequest ref_env example_io_now (new_packet ref_env SendMessageRequest
       (SendMessageRequest_body \<lparr>smq_token = [], smq_message = anonymous\<rparr>)) bob_world =
     Inr (new_packet ref_env SendMessageResponse (SendMessageResponse_body m), ForwardCallback 1 m, w') \<and>
     token_pool (w_server bob_world) = Map.empty \<and> msg_message m = anonymous \<and>
     m \<in> set (conv_of ref_tbl (w_db w') 0 1)"
proof -
  obtain u where u: "getUser_id ref_engine bob_db 1 = Inr (Some u)" using bob_by_id by blast
  obtain m db where c: "createMsgByRawMsg ref_engine bob_db anonymous 100 = Inr (Some m, db)"
    using createMsg_bob_db by blast
  show ?thesis
    using u c ref_server.send_append [OF store_inv_bob_db c [folded ref_env_sel(1)]]
    by (auto simp: on_SendMessageRequest_def ref_server.any.send_message [simplified] anonymous_def
        getUserIdByToken_def empty_Server_def example_io_now_def bob_world_def start_world_def)
qed

text \<open>
  When the id for a file message cannot be registered, the sender is told that the message
  failed (id -1), but the message stays stored in the conversation under the next number, with the
  content the client sent.
\<close>

theorem failed_file_message_is_stored:
  assumes laws: "linked_server env tbl sch" and inv: "store_inv tbl sch (w_db w)"
    and h: "on_SendMessageRequest env io (new_packet env SendMessageRequest
        (SendMessageRequest_body \<lparr>smq_token = t, smq_message = rm\<rparr>)) w = Inr (reply, NoCallback, w')"
    and uid: "getUserIdByToken (w_server w) t = raw_from rm"
    and rc: "getUser_id (env_sql env) (w_db w) (raw_to rm) = Inr (Some u)"
  shows "reply = new_packet env SendMessageResponse (SendMessageResponse_body failed_message) \<and>
    (\<exists>m. msg_message m = rm \<and>
       conv_of tbl (w_db w') (raw_from rm) (raw_to rm) =
         conv_of tbl (w_db w) (raw_from rm) (raw_to rm) @ [m])"
proof (cases rule: linked_server.on_SendMessageRequest_Inr [OF laws inv h])
  case (4 m db db')
  then have c: "createMsgByRawMsg (env_sql env) (w_db w) rm (io_now io) = Inr (Some m, db)" by simp
  note a = linked_server.send_append [OF laws inv c]
  have "conv_of tbl (w_db w') = conv_of tbl db"
    using 4(3) linked_server.createFile_frame [OF laws a(2) 4(8)] by simp
  then have "conv_of tbl (w_db w') (raw_from rm) (raw_to rm) =
      conv_of tbl (w_db w) (raw_from rm) (raw_to rm) @ [m]" by (simp add: a(3))
  with 4(1) a(1) show ?thesis by blast
qed (use uid rc in simp_all)

definition image_message :: RawMessage where
  "image_message = \<lparr>raw_from = 1, raw_to = 1, raw_type = IMAGE, raw_content = ''x''\<rparr>"

theorem failed_file_message_is_stored_witness:
  "\<exists>db w' m. store_inv ref_tbl ref_sch db \<and>
     on_SendMessageRequest ref_env example_io_now (new_packet ref_env SendMessageRequest
       (SendMessageRequest_body \<lparr>smq_token = ''t'', smq_message = image_message\<rparr>))
       (online_world\<lparr>w_db := db\<rparr>) =
       Inr (new_packet ref_env SendMessageResponse (SendMessageResponse_body failed_message),
            NoCallback, w') \<and> m \<in> set (conv_of ref_tbl (w_db w') 1 1)"
proof -
  obtain db where f: "createFile ref_engine bob_db ''u1'' = Inr (Some ''u1'', db)"
    and u: "\<exists>u. getUser_id ref_engine db 1 = Inr (Some u)"
    and m: "\<exists>m db'. createMsgByRawMsg ref_engine db image_message 100 = Inr (Some m, db') \<and>
        (\<exists>db''. createFile ref_engine db' ''u1'' = Inr (None, db''))"
    by (simp add: createFile_def getUUID_def c_str_def ref_eval bob_db_def createUser_def
        getUser_id_def fetch_first_def bind_int_def read_User_def getColumn_def
        createMsgByRawMsg_def getAllMessages_def fetch_all_def createMsg_def int32_succ_def
        image_message_def)
  have inv: "store_inv ref_tbl ref_sch (w_db (online_world\<lparr>w_db := db\<rparr>))"
    using file_store.create_inv [OF ref_server.files_contract store_inv_bob_db f [folded ref_env_sel(1)]]
    by simp
  obtain us where us: "getUser_id ref_engine db 1 = Inr (Some us)" using u by blast
  obtain mm d1 d2 where "createMsgByRawMsg ref_engine db image_message 100 = Inr (Some mm, d1)"
    "createFile ref_engine d1 ''u1'' = Inr (None, d2)" using m by blast
  with us obtain reply w' where h: "on_SendMessageRequest ref_env example_io_now
      (new_packet ref_env SendMessageRequest
       (SendMessageRequest_body \<lparr>smq_token = ''t'', smq_message = image_message\<rparr>))
       (online_world\<lparr>w_db := db\<rparr>) = Inr (reply, NoCallback, w')"
    by (simp add: on_SendMessageRequest_def ref_server.any.send_message [simplified]
        example_io_now_def Let_def image_message_def)
  obtain mx where r: "reply = new_packet ref_env SendMessageResponse (SendMessageResponse_body failed_message)"
    and mx: "conv_of ref_tbl (w_db w') 1 1 = conv_of ref_tbl db 1 1 @ [mx]"
    using failed_file_message_is_stored [OF ref_server.linked_server_axioms inv h _ , of us] us
    by (auto simp: image_message_def)
  have "mx \<in> set (conv_of ref_tbl (w_db w') 1 1)" by (simp add: mx)
  moreover have "store_inv ref_tbl ref_sch db" using inv by simp
  ultimately show ?thesis using h unfolding r by blast
qed

text \<open>
  After the reply to a text message was sent, exactly one notification with the stored message
  is queued at the end of the receiver's channel when the receiver is online, and nothing is queued
  when they are not; no other channel, no database and no file changes.
\<close>

theorem text_message_forwarded:
  assumes laws: "linked_server env tbl sch"
    and cb: "run_callback env io fd (ForwardCallback u m) w = Inr w'"
  shows "w' = w\<lparr>w_server := w_server w'\<rparr> \<and>
    (\<forall>v. pending_packets (w_server w') v =
       (if v = u \<and> isOnline (w_server w) u
        then map_option (\<lambda>q. q @ [new_packet env ContactMessageListRequest
               (ContactMessageListRequest_body [m])]) (pending_packets (w_server w) v)
        else pending_packets (w_server w) v))"
  using linked_server.run_forward [OF laws cb]
  by (auto simp: channels.pending_post isOnline_iff)

theorem text_message_forwarded_witness:
  "\<exists>m w'. on_SendMessageRequest ref_env example_io_now send_hello online_world =
     Inr (new_packet ref_env SendMessageResponse (SendMessageResponse_body m), ForwardCallback 1 m, w') \<and>
     (\<exists>w''. run_callback ref_env example_io_now 5 (ForwardCallback 1 m) w' = Inr w'' \<and>
       pending_packets (w_server w'') 1 = Some [new_packet ref_env ContactMessageListRequest
         (ContactMessageListRequest_body [m])])"
proof -
  obtain m db where h: "on_SendMessageRequest ref_env example_io_now send_hello online_world =
     Inr (new_packet ref_env SendMessageResponse (SendMessageResponse_body m), ForwardCallback 1 m,
          online_world\<lparr>w_db := db\<rparr>)" using send_hello_runs by blast
  obtain w'' where r: "run_callback ref_env example_io_now 5 (ForwardCallback 1 m)
      (online_world\<lparr>w_db := db\<rparr>) = Inr w''"
    by (simp add: run_callback_defs read_captured_def example_io_now_def Let_def isOnline_iff)
  have "isOnline (w_server (online_world\<lparr>w_db := db\<rparr>)) 1" by (simp add: isOnline_iff)
  then have "pending_packets (w_server w'') 1 = Some [new_packet ref_env ContactMessageListRequest
      (ContactMessageListRequest_body [m])]"
    using text_message_forwarded [OF ref_server.linked_server_axioms r] by simp
  then show ?thesis using h r by blast
qed

text \<open>
  Fetching a message answers with a stored message that the user of the token sent to the
  contact they name, under the number they ask for, or with the failure message when there is none;
  nothing changes. So a user can fetch only what they sent, never what was sent to them.
\<close>

theorem fetch_message_correct:
  assumes laws: "linked_server env tbl sch" and inv: "store_inv tbl sch (w_db w)"
    and h: "on_ContactMessageRequest env (new_packet env ContactMessageRequest
        (ContactMessageRequest_body \<lparr>cmq_token = t, cmq_id = c, cmq_internalId = i\<rparr>)) w =
      Inr (reply, cb, w')"
    and uid: "uid = getUserIdByToken (w_server w) t"
  shows "cb = NoCallback \<and> w' = w \<and>
    (\<exists>m. reply = new_packet env ContactMessageResponse (ContactMessageResponse_body m) \<and>
       (m \<in> set (conv_of tbl (w_db w) uid c) \<and> msg_internalId m = i \<and>
          raw_from (msg_message m) = uid \<and> raw_to (msg_message m) = c \<or>
        m = failed_message \<and> (\<forall>m \<in> set (conv_of tbl (w_db w) uid c). msg_internalId m \<noteq> i)))"
proof (rule linked_server.on_ContactMessageRequest_Inr [OF laws h])
  fix om
  note con = linked_server.convs_contract [OF laws]
  assume *: "cb = NoCallback" "w' = w"
    and "getMessage (env_sql env) (w_db w) (getUserIdByToken (w_server w)
           (cmq_token \<lparr>cmq_token = t, cmq_id = c, cmq_internalId = i\<rparr>))
         (cmq_id \<lparr>cmq_token = t, cmq_id = c, cmq_internalId = i\<rparr>)
         (cmq_internalId \<lparr>cmq_token = t, cmq_id = c, cmq_internalId = i\<rparr>) = Inr om"
    and r: "reply = new_packet env ContactMessageResponse
         (ContactMessageResponse_body (case om of Some m \<Rightarrow> m | None \<Rightarrow> failed_message))"
  then have g: "getMessage (env_sql env) (w_db w) uid c i = Inr om" by (simp add: uid)
  show ?thesis
  proof (cases om)
    case None
    with g conversation_store.get_none [OF con inv] r * show ?thesis by auto
  next
    case (Some m)
    with g have m: "m \<in> set (conv_of tbl (w_db w) uid c)" "msg_internalId m = i"
      using conversation_store.get_member [OF con inv] by blast+
    with conversation_store.conv_key [OF con inv] r * Some show ?thesis by auto
  qed
qed

text \<open>
  C25: A message of any type that was sent successfully is fetched back by its sender, then or at any
  later time at which its conversation has only grown, under the number that the reply to the send
  request carries, and with the content that was sent. For a text message it is the message of that
  reply. For a file or an image it is not: the reply carries the id of the file that was registered,
  the stored message what the client sent in its place.
\<close>

theorem send_then_fetch:
  assumes laws: "linked_server env tbl sch" and inv: "store_inv tbl sch (w_db w)"
    and send: "on_SendMessageRequest env io (new_packet env SendMessageRequest
        (SendMessageRequest_body \<lparr>smq_token = t, smq_message = rm\<rparr>)) w =
      Inr (new_packet env SendMessageResponse (SendMessageResponse_body m), cb, w')"
    and sent: "cb \<noteq> NoCallback"
    and later: "store_inv tbl sch (w_db w1)" "getUserIdByToken (w_server w1) t1 = raw_from rm"
      "prefix (conv_of tbl (w_db w') (raw_from rm) (raw_to rm)) (conv_of tbl (w_db w1) (raw_from rm) (raw_to rm))"
    and fetch: "on_ContactMessageRequest env (new_packet env ContactMessageRequest (ContactMessageRequest_body
        \<lparr>cmq_token = t1, cmq_id = raw_to rm, cmq_internalId = msg_internalId m\<rparr>)) w1 = Inr (reply, cb1, w2)"
  shows "\<exists>m0. reply = new_packet env ContactMessageResponse (ContactMessageResponse_body m0) \<and>
    msg_message m0 = rm \<and>
    (if is_file_type rm then \<exists>i. cb = FileMsgCallback i (raw_to rm) m \<and> m = with_file_id i m0 else m = m0)"
proof -
  obtain m0 where m0: "msg_message m0 = rm" "m0 \<in> set (conv_of tbl (w_db w') (raw_from rm) (raw_to rm))"
      "msg_internalId m = msg_internalId m0"
      "if is_file_type rm then \<exists>i. cb = FileMsgCallback i (raw_to rm) m \<and> m = with_file_id i m0 else m = m0"
    by (rule linked_server.sent_message_stored [OF laws inv send sent])
  have "m0 \<in> set (conv_of tbl (w_db w1) (raw_from rm) (raw_to rm))"
    using m0(2) set_mono_prefix [OF later(3)] by blast
  from linked_server.stored_message_fetched [OF laws later(1) this later(2) fetch [unfolded m0(3)]] m0(1,4)
  show ?thesis by blast
qed

theorem fetch_message_correct_witness:
  "\<exists>reply. on_ContactMessageRequest ref_env (new_packet ref_env ContactMessageRequest
       (ContactMessageRequest_body \<lparr>cmq_token = ''t'', cmq_id = 1, cmq_internalId = 1\<rparr>)) online_world =
     Inr (reply, NoCallback, online_world)"
proof -
  obtain om where "getMessage ref_engine bob_db 1 1 1 = Inr om"
    by (simp add: getMessage_def fetch_first_def ref_eval bob_db_def createUser_def)
  then obtain reply cb w' where h: "on_ContactMessageRequest ref_env (new_packet ref_env ContactMessageRequest
       (ContactMessageRequest_body \<lparr>cmq_token = ''t'', cmq_id = 1, cmq_internalId = 1\<rparr>)) online_world =
     Inr (reply, cb, w')"
    using ref_server.fetch_total [of online_world
        "\<lparr>cmq_token = ''t'', cmq_id = 1, cmq_internalId = 1\<rparr>" om ContactMessageRequest] by auto
  show ?thesis
    using fetch_message_correct [OF ref_server.linked_server_axioms _ h refl] h store_inv_bob_db by simp
qed

theorem send_then_fetch_witness:
  "\<exists>m w'. on_SendMessageRequest ref_env example_io_now send_hello online_world =
     Inr (new_packet ref_env SendMessageResponse (SendMessageResponse_body m), ForwardCallback 1 m, w') \<and>
     (\<exists>cb w''. on_ContactMessageRequest ref_env (new_packet ref_env ContactMessageRequest
       (ContactMessageRequest_body \<lparr>cmq_token = ''t'', cmq_id = 1, cmq_internalId = msg_internalId m\<rparr>))
       w' = Inr (new_packet ref_env ContactMessageResponse (ContactMessageResponse_body m), cb, w''))"
proof -
  obtain m db where h: "on_SendMessageRequest ref_env example_io_now send_hello online_world =
     Inr (new_packet ref_env SendMessageResponse (SendMessageResponse_body m), ForwardCallback 1 m,
          online_world\<lparr>w_db := db\<rparr>)"
    and c: "createMsgByRawMsg ref_engine bob_db hello 100 = Inr (Some m, db)"
    using send_hello_runs by blast
  have "\<exists>om. getMessage ref_engine db 1 1 (msg_internalId m) = Inr om"
    using c by (auto simp: createMsgByRawMsg_def getAllMessages_def fetch_all_def createMsg_def ref_eval
      bind_int_def int32_succ_def bob_db_def createUser_def getMessage_def fetch_first_def
      read_Message_def getColumn_def hello_def row_matches_def)
  then obtain om where om: "getMessage ref_engine db 1 1 (msg_internalId m) = Inr om" by blast
  obtain reply cb w'' where f: "on_ContactMessageRequest ref_env (new_packet ref_env ContactMessageRequest
       (ContactMessageRequest_body \<lparr>cmq_token = ''t'', cmq_id = 1, cmq_internalId = msg_internalId m\<rparr>))
       (online_world\<lparr>w_db := db\<rparr>) = Inr (reply, cb, w'')"
    using ref_server.fetch_total [of "online_world\<lparr>w_db := db\<rparr>"
        "\<lparr>cmq_token = ''t'', cmq_id = 1, cmq_internalId = msg_internalId m\<rparr>" om
        ContactMessageRequest] om by auto
  have inv': "store_inv ref_tbl ref_sch (w_db (online_world\<lparr>w_db := db\<rparr>))"
    using ref_server.send_append(2) [OF store_inv_bob_db c [folded ref_env_sel(1)]] by simp
  have to: "raw_to hello = 1" by (simp add: hello_def)
  show ?thesis
    using send_then_fetch [OF ref_server.linked_server_axioms _ h _ inv' _ _ f [folded to]] h f store_inv_bob_db
    by (auto simp: hello_def is_file_type_def)
qed

end
