(* ===== verification/Server_Files.thy ===== *)
theory Server_Files
  imports Server_Messages
begin

text \<open>
  Uploading and downloading files, and the notification of the receiver of a file message, which is
  deferred until the file has been uploaded.
\<close>

context linked_server
begin

lemma getFile_known:
  assumes "store_inv tbl sch d" and "getFile (env_sql env) d i = Inr r"
  shows "r = files_of tbl d (c_str i)" and "r = Some f \<Longrightarrow> fs_id f = c_str i"
  using file_store.get_files [OF files_contract assms] file_store.files_key [OF files_contract assms(1)]
  by auto

lemma on_FileUploadRequest_Inr:
  assumes inv: "store_inv tbl sch (w_db w)"
    and h: "on_FileUploadRequest env io (new_packet env t (FileUploadRequest_body r)) w =
      Inr (reply, cb, w')"
  obtains
    (refused) "reply = new_packet env FileUploadResponse (FileUploadResponse_body False)"
      "cb = NoCallback" "w' = w"
      "getUserIdByToken (w_server w) (fuq_token r) = 0 \<or>
       files_of tbl (w_db w) (c_str (fuq_id r)) = None"
  | (tried) f ex dsk success dsk' updated db where
      "getUserIdByToken (w_server w) (fuq_token r) \<noteq> 0"
      "files_of tbl (w_db w) (c_str (fuq_id r)) \<noteq> None"
      "f = \<lparr>fs_id = c_str (fuq_id r), fs_name = file_name (fuq_file r), fs_hash = fuq_hash r\<rparr>"
      "checkDiskExistence (io_disk io) f (w_disk w) = Inr (ex, dsk)"
      "(success, dsk') = (if ex then (False, dsk) else saveToDisk (io_disk io) f (fuq_file r) dsk)"
      "updateFile (env_sql env) (w_db w) f = Inr (updated, db)"
      "w' = w\<lparr>w_disk := dsk', w_db := db\<rparr>"
      "reply = new_packet env FileUploadResponse (FileUploadResponse_body (updated \<and> success))"
      "cb = (if updated \<and> success then FileUploadedCallback (fuq_id r) else NoCallback)"
proof (cases "getUserIdByToken (w_server w) (fuq_token r) = 0")
  case True
  with h refused show thesis by (simp add: on_FileUploadRequest_def any.file_upload Let_def)
next
  case uid: False
  obtain rs where g: "getFile (env_sql env) (w_db w) (fuq_id r) = Inr rs"
    using h uid by (auto simp: on_FileUploadRequest_def any.file_upload Let_def)
  show thesis
  proof (cases rs)
    case None
    with h uid g getFile_known [OF inv g] refused show thesis
      by (simp add: on_FileUploadRequest_def any.file_upload Let_def)
  next
    case (Some f0)
    let ?f = "\<lparr>fs_id = c_str (fuq_id r), fs_name = file_name (fuq_file r), fs_hash = fuq_hash r\<rparr>"
    have f: "setName (setHash f0 (fuq_hash r)) (file_name (fuq_file r)) = ?f"
      using getFile_known(2) [OF inv g Some] by (cases f0) (simp add: setName_def setHash_def)
    have fo: "files_of tbl (w_db w) (c_str (fuq_id r)) \<noteq> None"
      using getFile_known(1) [OF inv g] Some by (metis option.distinct(1))
    obtain ex dsk where ck: "checkDiskExistence (io_disk io) ?f (w_disk w) = Inr (ex, dsk)"
      using h uid g Some f by (auto simp: on_FileUploadRequest_def any.file_upload Let_def)
    obtain success dsk' where sv: "(success, dsk') =
        (if ex then (False, dsk) else saveToDisk (io_disk io) ?f (fuq_file r) dsk)"
      by (metis surj_pair)
    obtain updated db where up: "updateFile (env_sql env) (w_db w) ?f = Inr (updated, db)"
      using h uid g Some f ck
      by (auto simp: on_FileUploadRequest_def any.file_upload Let_def simp flip: sv cong: if_cong)
    show thesis
      using h uid g Some f ck up
      by (intro tried [OF uid fo refl ck sv up])
        (auto simp: on_FileUploadRequest_def any.file_upload Let_def simp flip: sv cong: if_cong split: if_splits)
  qed
qed

lemma on_FileDownloadRequest_Inr:
  assumes inv: "store_inv tbl sch (w_db w)"
    and h: "on_FileDownloadRequest env io (new_packet env t (FileDownloadRequest_body r)) w =
      Inr (reply, cb, w')"
  obtains
    (refused) "reply = new_packet env FileDownloadResponse (FileDownloadResponse_body default_File [])"
      "cb = NoCallback" "w' = w"
      "getUserIdByToken (w_server w) (fdq_token r) = 0 \<or>
       files_of tbl (w_db w) (c_str (fdq_id r)) = None"
  | (tried) f ex dsk loaded fl where
      "getUserIdByToken (w_server w) (fdq_token r) \<noteq> 0"
      "files_of tbl (w_db w) (c_str (fdq_id r)) = Some f" "fs_id f = c_str (fdq_id r)"
      "checkDiskExistence (io_disk io) f (w_disk w) = Inr (ex, dsk)"
      "(loaded, fl) = (if ex then loadIntoProto (io_disk io) f default_File dsk else (False, default_File))"
      "w' = w\<lparr>w_disk := dsk\<rparr>" "cb = NoCallback"
      "reply = new_packet env FileDownloadResponse
         (FileDownloadResponse_body (if loaded then fl else fl\<lparr>file_name := []\<rparr>) (fs_hash f))"
proof (cases "getUserIdByToken (w_server w) (fdq_token r) = 0")
  case True
  with h refused show thesis
    by (simp add: on_FileDownloadRequest_def any.file_download Let_def default_File_def)
next
  case uid: False
  obtain rs where g: "getFile (env_sql env) (w_db w) (fdq_id r) = Inr rs"
    using h uid by (auto simp: on_FileDownloadRequest_def any.file_download Let_def)
  show thesis
  proof (cases rs)
    case None
    with h uid g getFile_known [OF inv g] refused show thesis
      by (simp add: on_FileDownloadRequest_def any.file_download Let_def default_File_def)
  next
    case (Some f)
    have fo: "files_of tbl (w_db w) (c_str (fdq_id r)) = Some f" "fs_id f = c_str (fdq_id r)"
      using getFile_known [OF inv g] Some by auto
    obtain ex dsk where ck: "checkDiskExistence (io_disk io) f (w_disk w) = Inr (ex, dsk)"
      using h uid g Some by (auto simp: on_FileDownloadRequest_def any.file_download Let_def)
    obtain loaded fl where ld: "(loaded, fl) =
        (if ex then loadIntoProto (io_disk io) f default_File dsk else (False, default_File))"
      by (metis surj_pair)
    show thesis
      using h uid g Some ck
      by (intro tried [OF uid fo ck ld])
        (auto simp: on_FileDownloadRequest_def any.file_download Let_def simp flip: ld split: if_splits)
  qed
qed

lemma update_results:
  assumes inv: "store_inv tbl sch d" and up: "updateFile (env_sql env) d f = Inr (updated, d')"
  shows "store_inv tbl sch d'" and "accounts_of tbl d' = accounts_of tbl d"
    and "conv_of tbl d' = conv_of tbl d"
    and "files_of tbl d' = (if updated then (files_of tbl d)(fs_id f \<mapsto> f) else files_of tbl d)"
  using file_store.update_true [OF files_contract inv, of f d']
    file_store.update_false [OF files_contract inv, of f d']
    file_store.update_inv [OF files_contract inv up] updateFile_frame [OF inv up] up
  by (cases updated; simp)+

end

lemma storage_path_id: "fs_id f = i \<Longrightarrow> storage_path f = path_append path_prefix i"
  by (simp add: storage_path_def)

subsection \<open>Properties\<close>

text \<open>An example: a file \<open>u1\<close> that is registered and not yet uploaded, and its upload and download.\<close>

definition file_db :: refdb where
  "file_db = (case createFile ref_engine bob_db ''u1'' of Inr (i, d) \<Rightarrow> d | Inl e \<Rightarrow> bob_db)"

lemma file_db_created: "createFile ref_engine bob_db ''u1'' = Inr (Some ''u1'', file_db)"
proof -
  have "\<exists>d. createFile ref_engine bob_db ''u1'' = Inr (Some ''u1'', d)"
    by (simp add: createFile_def getUUID_def c_str_def ref_eval bob_db_def createUser_def)
  then show ?thesis by (auto simp: file_db_def)
qed

lemma store_inv_file_db: "store_inv ref_tbl ref_sch file_db"
  using file_store.create_inv [OF ref_server.files_contract store_inv_bob_db
      file_db_created [folded ref_env_sel(1)]] .

lemma files_of_file_db: "files_of ref_tbl file_db ''u1'' \<noteq> None"
  using file_store.create_some [OF ref_server.files_contract store_inv_bob_db
      file_db_created [folded ref_env_sel(1)]] by simp

definition file_world :: "(string, refdb) world" where
  "file_world = online_world\<lparr>w_db := file_db\<rparr>"

definition example_upload :: file_upload_request where
  "example_upload = \<lparr>fuq_token = ''t'', fuq_id = ''u1'',
     fuq_file = \<lparr>file_name = ''a'', file_content = ''data''\<rparr>, fuq_hash = ''h''\<rparr>"

lemma example_upload_sel [simp]:
  "fuq_token example_upload = ''t''" "fuq_id example_upload = ''u1''" "fuq_hash example_upload = ''h''"
  "fuq_file example_upload = \<lparr>file_name = ''a'', file_content = ''data''\<rparr>"
  by (simp_all add: example_upload_def)

abbreviation upload_packet :: "string Packet" where
  "upload_packet \<equiv> new_packet ref_env FileUploadRequest (FileUploadRequest_body example_upload)"

abbreviation download_packet :: "string Packet" where
  "download_packet \<equiv> new_packet ref_env FileDownloadRequest
     (FileDownloadRequest_body \<lparr>fdq_token = ''t'', fdq_id = ''u1''\<rparr>)"

lemma file_world_sel [simp]:
  "w_db file_world = file_db" "w_disk file_world = [''files'' \<mapsto> Directory]"
  "getUserIdByToken (w_server file_world) ''t'' = 1"
  using online_world_sel by (simp_all add: file_world_def)

lemma file_world_inv: "store_inv ref_tbl ref_sch (w_db file_world)"
    "store_inv ref_tbl ref_sch (w_db (file_world\<lparr>w_disk := dsk\<rparr>))"
  using store_inv_file_db by simp_all

lemma example_io_sel [simp]: "io_disk example_io_now = example_io" "io_open_read example_io"
  "io_flushed example_io = 1000000"
  by (simp_all add: example_io_now_def example_io_def)

lemma file_db_queries:
  "\<exists>r. getFile ref_engine file_db ''u1'' = Inr (Some r)"
  "\<exists>d. updateFile ref_engine file_db \<lparr>fs_id = ''u1'', fs_name = ''a'', fs_hash = ''h''\<rparr> = Inr (True, d) \<and>
     (\<exists>r. getFile ref_engine d ''u1'' = Inr (Some r))"
  by (simp_all add: file_db_def createFile_def getUUID_def c_str_def ref_eval bob_db_def createUser_def
      getFile_def fetch_first_def read_File_def getColumn_def updateFile_def update_rows_def
      set_cells_def)

lemma upload_runs:
  "\<exists>cb w'. on_FileUploadRequest ref_env example_io_now upload_packet file_world =
     Inr (new_packet ref_env FileUploadResponse (FileUploadResponse_body True), cb, w') \<and>
     getUserIdByToken (w_server w') ''t'' = 1 \<and>
     (\<exists>reply cb2 w2. on_FileDownloadRequest ref_env example_io_now download_packet w' = Inr (reply, cb2, w2))"
proof -
  obtain f0 where g: "getFile ref_engine file_db ''u1'' = Inr (Some f0)" using file_db_queries by blast
  obtain d f1 where up: "updateFile ref_engine file_db
      \<lparr>fs_id = ''u1'', fs_name = ''a'', fs_hash = ''h''\<rparr> = Inr (True, d)"
    and g2: "getFile ref_engine d ''u1'' = Inr (Some f1)" using file_db_queries by blast
  have id0: "fs_id f0 = ''u1''"
    using ref_server.getFile_known(2) [OF store_inv_file_db g [folded ref_env_sel(1)] refl]
    by (simp add: c_str_def)
  then have f0: "setName (setHash f0 ''h'') ''a'' = \<lparr>fs_id = ''u1'', fs_name = ''a'', fs_hash = ''h''\<rparr>"
    by (cases f0) (simp add: setName_def setHash_def)
  show ?thesis
    using g up g2 f0
    by (auto simp: on_FileUploadRequest_def on_FileDownloadRequest_def Let_def
        ref_server.any.file_upload [simplified] ref_server.any.file_download [simplified]
        checkDiskExistence_def saveToDisk_def storage_path_def path_append_def path_prefix_def
        example_io_def split: prod.splits)
qed

text \<open>
  C27: An upload is answered with success only to a logged-in user, for a registered file that was
  not on disk yet. Then the uploaded bytes that reached the disk are the file's content there, no
  other file on disk changed, the database holds the uploaded name and hash for it and for no other
  file something new, and accounts and messages are as before.
\<close>

theorem upload_correct:
  assumes laws: "linked_server env tbl sch" and inv: "store_inv tbl sch (w_db w)"
    and h: "on_FileUploadRequest env io (new_packet env FileUploadRequest (FileUploadRequest_body r)) w =
      Inr (new_packet env FileUploadResponse (FileUploadResponse_body True), cb, w')"
  shows "getUserIdByToken (w_server w) (fuq_token r) \<noteq> 0 \<and> cb = FileUploadedCallback (fuq_id r) \<and>
    files_of tbl (w_db w) (c_str (fuq_id r)) \<noteq> None \<and>
    w_disk w (path_append path_prefix (c_str (fuq_id r))) = None \<and>
    w_disk w' (path_append path_prefix (c_str (fuq_id r))) =
      Some (RegularFile (take (io_flushed (io_disk io)) (file_content (fuq_file r)))) \<and>
    (\<forall>p. p \<noteq> path_append path_prefix (c_str (fuq_id r)) \<and> p \<noteq> path_prefix \<longrightarrow>
       w_disk w' p = w_disk w p) \<and>
    files_of tbl (w_db w') = (files_of tbl (w_db w))(c_str (fuq_id r) \<mapsto>
      \<lparr>fs_id = c_str (fuq_id r), fs_name = file_name (fuq_file r), fs_hash = fuq_hash r\<rparr>) \<and>
    accounts_of tbl (w_db w') = accounts_of tbl (w_db w) \<and>
    conv_of tbl (w_db w') = conv_of tbl (w_db w) \<and> store_inv tbl sch (w_db w')"
proof (cases rule: linked_server.on_FileUploadRequest_Inr [OF laws inv h])
  case 1
  then show ?thesis by (simp add: linked_server.new_packet_inj [OF laws])
next
  case (2 f ex dsk success dsk' updated db)
  let ?p = "path_append path_prefix (c_str (fuq_id r))"
  have su: "success" "updated" using 2(8) by (auto simp: linked_server.new_packet_inj [OF laws])
  then have ex: "\<not> ex" using 2(5) by (auto split: if_splits)
  with 2(5) su have sv: "saveToDisk (io_disk io) f (fuq_file r) dsk = (True, dsk')" by simp
  have p: "storage_path f = ?p" by (rule storage_path_id) (simp add: 2(3))
  have d: "w_disk w ?p = None" using checkDiskExistence_Inr(1) [OF 2(4)] ex p by simp
  have "dsk q = w_disk w q" if "q \<noteq> path_prefix" for q
    using checkDiskExistence_Inr(2) [OF 2(4)] that by (simp split: if_splits)
  then have fr: "dsk' q = w_disk w q" if "q \<noteq> ?p" "q \<noteq> path_prefix" for q
    using saveToDisk_frame [OF sv] p that by simp
  show ?thesis
    using 2 su d fr p saveToDisk_True [OF sv] linked_server.update_results [OF laws inv 2(6)]
    by simp
qed

theorem upload_correct_witness:
  "\<exists>w'. on_FileUploadRequest ref_env example_io_now upload_packet file_world =
     Inr (new_packet ref_env FileUploadResponse (FileUploadResponse_body True),
          FileUploadedCallback ''u1'', w') \<and>
     w_disk w' (path_append path_prefix ''u1'') = Some (RegularFile ''data'')"
proof -
  obtain cb w' where h: "on_FileUploadRequest ref_env example_io_now upload_packet file_world =
     Inr (new_packet ref_env FileUploadResponse (FileUploadResponse_body True), cb, w')"
    using upload_runs by blast
  show ?thesis
    using upload_correct [OF ref_server.linked_server_axioms file_world_inv(1) h] h by (auto simp: c_str_def)
qed

text \<open>
  C16: What was uploaded is what is downloaded: after a successful upload whose bytes all reached the
  disk, a download of the same id by any logged-in user is answered with the uploaded content, name
  and hash.
\<close>

theorem upload_then_download:
  assumes laws: "linked_server env tbl sch" and inv: "store_inv tbl sch (w_db w)"
    and up: "on_FileUploadRequest env io (new_packet env FileUploadRequest (FileUploadRequest_body r)) w =
      Inr (new_packet env FileUploadResponse (FileUploadResponse_body True), cb, w')"
    and flushed: "length (file_content (fuq_file r)) \<le> io_flushed (io_disk io)"
    and down: "on_FileDownloadRequest env io' (new_packet env FileDownloadRequest
        (FileDownloadRequest_body \<lparr>fdq_token = t, fdq_id = fuq_id r\<rparr>)) w' = Inr (reply, cb', w'')"
    and uid: "getUserIdByToken (w_server w') t \<noteq> 0" and readable: "io_open_read (io_disk io')"
  shows "reply = new_packet env FileDownloadResponse (FileDownloadResponse_body
    \<lparr>file_name = file_name (fuq_file r), file_content = file_content (fuq_file r)\<rparr> (fuq_hash r))"
proof (cases rule: linked_server.on_FileUploadRequest_Inr [OF laws inv up])
  case 1
  then show ?thesis by (simp add: linked_server.new_packet_inj [OF laws])
next
  case (2 f ex dsk success dsk' updated db)
  have su: "success" "updated" using 2(8) by (auto simp: linked_server.new_packet_inj [OF laws])
  with 2(5) have sv: "saveToDisk (io_disk io) f (fuq_file r) dsk = (True, dsk')"
    by (auto split: if_splits)
  note u = linked_server.update_results [OF laws inv 2(6)]
  have inv': "store_inv tbl sch (w_db w')" using u(1) 2(7) by simp
  have stored: "dsk' (storage_path f) = Some (RegularFile (file_content (fuq_file r)))"
    using saveToDisk_True [OF sv] flushed by simp
  have fo: "files_of tbl (w_db w') (c_str (fuq_id r)) = Some f" using u(4) su 2(3,7) by simp
  show ?thesis
  proof (cases rule: linked_server.on_FileDownloadRequest_Inr [OF laws inv' down])
    case 1
    then show ?thesis using uid fo by simp
  next
    case (2 g ex2 dsk2 loaded fl)
    have g: "g = f" using 2(2) fo by simp
    have d2: "dsk2 (storage_path f) = Some (RegularFile (file_content (fuq_file r)))"
      using checkDiskExistence_Inr [OF 2(4)] stored \<open>w' = _\<close> storage_path_not_prefix [of f]
      by (auto simp: g split: if_splits)
    have "ex2" using checkDiskExistence_Inr(1) [OF 2(4)] stored \<open>w' = _\<close> by (simp add: g)
    then have "loaded" "fl = \<lparr>file_name = fs_name f, file_content = file_content (fuq_file r)\<rparr>"
      using 2(5) d2 readable by (simp_all add: g loadIntoProto_def default_File_def)
    then show ?thesis using 2(8) \<open>f = _\<close> by (simp add: g)
  qed
qed

theorem upload_then_download_witness:
  "\<exists>cb w' cb2 w2. on_FileUploadRequest ref_env example_io_now upload_packet file_world =
     Inr (new_packet ref_env FileUploadResponse (FileUploadResponse_body True), cb, w') \<and>
     on_FileDownloadRequest ref_env example_io_now download_packet w' =
       Inr (new_packet ref_env FileDownloadResponse (FileDownloadResponse_body
         \<lparr>file_name = ''a'', file_content = ''data''\<rparr> ''h''), cb2, w2)"
proof -
  obtain cb w' reply cb2 w2 where h: "on_FileUploadRequest ref_env example_io_now upload_packet file_world =
     Inr (new_packet ref_env FileUploadResponse (FileUploadResponse_body True), cb, w')"
    and t: "getUserIdByToken (w_server w') ''t'' = 1"
    and d: "on_FileDownloadRequest ref_env example_io_now download_packet w' = Inr (reply, cb2, w2)"
    using upload_runs by blast
  have d': "on_FileDownloadRequest ref_env example_io_now (new_packet ref_env FileDownloadRequest
     (FileDownloadRequest_body \<lparr>fdq_token = ''t'', fdq_id = fuq_id example_upload\<rparr>)) w' =
     Inr (reply, cb2, w2)" using d by simp
  show ?thesis
    using upload_then_download [OF ref_server.linked_server_axioms file_world_inv(1) h _ d'] h d t by auto
qed

text \<open>
  An upload for a file that is already on disk is answered with failure and leaves every file on
  disk as it is; but when the database update succeeds, the stored name and hash are overwritten by
  those of the refused upload, whoever of the logged-in users sent it.
\<close>

theorem reupload_overwrites_metadata:
  assumes laws: "linked_server env tbl sch" and inv: "store_inv tbl sch (w_db w)"
    and h: "on_FileUploadRequest env io (new_packet env FileUploadRequest (FileUploadRequest_body r)) w =
      Inr (reply, cb, w')"
    and uid: "getUserIdByToken (w_server w) (fuq_token r) \<noteq> 0"
    and reg: "files_of tbl (w_db w) (c_str (fuq_id r)) \<noteq> None"
    and disk: "w_disk w (path_append path_prefix (c_str (fuq_id r))) \<noteq> None"
    and dir: "w_disk w path_prefix \<noteq> None"
  shows "reply = new_packet env FileUploadResponse (FileUploadResponse_body False) \<and>
    cb = NoCallback \<and> w_disk w' = w_disk w \<and>
    (files_of tbl (w_db w') = (files_of tbl (w_db w))(c_str (fuq_id r) \<mapsto>
       \<lparr>fs_id = c_str (fuq_id r), fs_name = file_name (fuq_file r), fs_hash = fuq_hash r\<rparr>) \<or>
     files_of tbl (w_db w') = files_of tbl (w_db w) \<and>
       (\<exists>d. updateFile (env_sql env) (w_db w) \<lparr>fs_id = c_str (fuq_id r),
          fs_name = file_name (fuq_file r), fs_hash = fuq_hash r\<rparr> = Inr (False, d)))"
proof (cases rule: linked_server.on_FileUploadRequest_Inr [OF laws inv h])
  case 1
  then show ?thesis using uid reg by simp
next
  case (2 f ex dsk success dsk' updated db)
  have p: "storage_path f = path_append path_prefix (c_str (fuq_id r))"
    by (rule storage_path_id) (simp add: 2(3))
  have "ex" "dsk = w_disk w"
    using checkDiskExistence_Inr [OF 2(4)] disk dir p by simp_all
  then have "\<not> success" "dsk' = w_disk w" using 2(5) by simp_all
  then show ?thesis
    using 2(3,6,7,8,9) linked_server.update_results(4) [OF laws inv 2(6)] by (cases updated) auto
qed

theorem reupload_overwrites_metadata_witness:
  "\<exists>w'. on_FileUploadRequest ref_env example_io_now upload_packet
       (file_world\<lparr>w_disk := [''files'' \<mapsto> Directory, ''files/u1'' \<mapsto> RegularFile ''old'']\<rparr>) =
     Inr (new_packet ref_env FileUploadResponse (FileUploadResponse_body False), NoCallback, w') \<and>
     files_of ref_tbl (w_db w') ''u1'' = Some \<lparr>fs_id = ''u1'', fs_name = ''a'', fs_hash = ''h''\<rparr>"
proof -
  let ?w = "file_world\<lparr>w_disk := [''files'' \<mapsto> Directory, ''files/u1'' \<mapsto> RegularFile ''old'']\<rparr>"
  obtain f0 d where g: "getFile ref_engine file_db ''u1'' = Inr (Some f0)"
    and up: "updateFile ref_engine file_db
      \<lparr>fs_id = ''u1'', fs_name = ''a'', fs_hash = ''h''\<rparr> = Inr (True, d)"
    using file_db_queries by blast
  have "fs_id f0 = ''u1''"
    using ref_server.getFile_known(2) [OF store_inv_file_db g [folded ref_env_sel(1)] refl]
    by (simp add: c_str_def)
  then have f0: "setName (setHash f0 ''h'') ''a'' = \<lparr>fs_id = ''u1'', fs_name = ''a'', fs_hash = ''h''\<rparr>"
    by (cases f0) (simp add: setName_def setHash_def)
  have "checkDiskExistence example_io \<lparr>fs_id = ''u1'', fs_name = ''a'', fs_hash = ''h''\<rparr> (w_disk ?w) =
      Inr (True, w_disk ?w)"
    by (simp add: checkDiskExistence_def example_io_def storage_path_def path_append_def path_prefix_def)
  then obtain reply cb w' where h: "on_FileUploadRequest ref_env example_io_now upload_packet ?w = Inr (reply, cb, w')"
    using g up f0
    by (simp add: on_FileUploadRequest_def Let_def ref_server.any.file_upload [simplified])
  have id: "c_str ''u1'' = ''u1''" by (simp add: c_str_def)
  have "reply = new_packet ref_env FileUploadResponse (FileUploadResponse_body False) \<and> cb = NoCallback \<and>
      files_of ref_tbl (w_db w') = (files_of ref_tbl file_db)(''u1'' \<mapsto>
        \<lparr>fs_id = ''u1'', fs_name = ''a'', fs_hash = ''h''\<rparr>)"
    using reupload_overwrites_metadata [OF ref_server.linked_server_axioms file_world_inv(2) h] up files_of_file_db
    by (auto simp: id path_append_def path_prefix_def)
  then show ?thesis using h by simp
qed

text \<open>
  C28: What a download request answers on every branch. Without a token of a logged-in user, and for an
  id under which no file is registered, the answer is a file without a name, without content and
  without a hash. For a registered file it carries the recorded hash, and the recorded name with
  exactly the content on disk when there is a regular file under the id that can be opened, or else a
  file without a name and content. At most the directory of the files is made; no file on disk and
  nothing else changes.
\<close>

theorem download_correct:
  assumes laws: "linked_server env tbl sch" and inv: "store_inv tbl sch (w_db w)"
    and h: "on_FileDownloadRequest env io (new_packet env FileDownloadRequest
        (FileDownloadRequest_body \<lparr>fdq_token = t, fdq_id = i\<rparr>)) w = Inr (reply, cb, w')"
  shows "cb = NoCallback \<and> w' = w\<lparr>w_disk := w_disk w'\<rparr> \<and>
    (\<forall>p. p \<noteq> path_prefix \<longrightarrow> w_disk w' p = w_disk w p) \<and>
    reply = new_packet env FileDownloadResponse
      (if getUserIdByToken (w_server w) t = 0 then FileDownloadResponse_body \<lparr>file_name = [], file_content = []\<rparr> []
       else case files_of tbl (w_db w) (c_str i) of
              None \<Rightarrow> FileDownloadResponse_body \<lparr>file_name = [], file_content = []\<rparr> []
            | Some f \<Rightarrow> FileDownloadResponse_body
                (case w_disk w (path_append path_prefix (c_str i)) of
                   Some (RegularFile content) \<Rightarrow>
                     if io_open_read (io_disk io) then \<lparr>file_name = fs_name f, file_content = content\<rparr>
                     else \<lparr>file_name = [], file_content = []\<rparr>
                 | _ \<Rightarrow> \<lparr>file_name = [], file_content = []\<rparr>) (fs_hash f))"
proof (cases rule: linked_server.on_FileDownloadRequest_Inr [OF laws inv h])
  case 1
  then show ?thesis by (auto simp: default_File_def)
next
  case (2 f ex dsk loaded fl)
  have p: "storage_path f = path_append path_prefix (c_str i)"
    by (rule storage_path_id) (simp add: 2(3))
  have fr: "dsk q = w_disk w q" if "q \<noteq> path_prefix" for q
    using checkDiskExistence_Inr(2) [OF 2(4)] that by (simp split: if_splits)
  have np: "path_append path_prefix (c_str i) \<noteq> path_prefix"
    using storage_path_not_prefix [of f] p by simp
  have ex: "ex \<longleftrightarrow> w_disk w (path_append path_prefix (c_str i)) \<noteq> None"
    using checkDiskExistence_Inr [OF 2(4)] fr [OF np] p np by (auto split: if_splits)
  have "(if loaded then fl else fl\<lparr>file_name := []\<rparr>) =
      (case w_disk w (path_append path_prefix (c_str i)) of
         Some (RegularFile content) \<Rightarrow>
           if io_open_read (io_disk io) then \<lparr>file_name = fs_name f, file_content = content\<rparr>
           else \<lparr>file_name = [], file_content = []\<rparr>
       | _ \<Rightarrow> \<lparr>file_name = [], file_content = []\<rparr>)"
    using 2(5) fr [OF np] ex
    by (auto simp: loadIntoProto_def p default_File_def split: option.splits node.splits if_splits)
  then show ?thesis using 2 fr by (cases loaded) auto
qed

theorem download_correct_witness:
  "\<exists>w' f. files_of ref_tbl file_db ''u1'' = Some f \<and> on_FileDownloadRequest ref_env example_io_now download_packet
       (file_world\<lparr>w_disk := [''files'' \<mapsto> Directory, ''files/u1'' \<mapsto> RegularFile ''old'']\<rparr>) =
     Inr (new_packet ref_env FileDownloadResponse (FileDownloadResponse_body
       \<lparr>file_name = fs_name f, file_content = ''old''\<rparr> (fs_hash f)), NoCallback, w')"
proof -
  let ?w = "file_world\<lparr>w_disk := [''files'' \<mapsto> Directory, ''files/u1'' \<mapsto> RegularFile ''old'']\<rparr>"
  obtain f0 where g: "getFile ref_engine file_db ''u1'' = Inr (Some f0)" using file_db_queries by blast
  obtain f where f: "files_of ref_tbl file_db ''u1'' = Some f" using files_of_file_db by blast
  have "\<exists>reply cb w'. on_FileDownloadRequest ref_env example_io_now download_packet ?w = Inr (reply, cb, w')"
    using g by (simp add: on_FileDownloadRequest_def Let_def ref_server.any.file_download [simplified]
        checkDiskExistence_def path_prefix_def example_io_def split: prod.split)
  then obtain reply cb w' where h: "on_FileDownloadRequest ref_env example_io_now download_packet ?w =
      Inr (reply, cb, w')" by blast
  have id: "c_str ''u1'' = ''u1''" by (simp add: c_str_def)
  show ?thesis
    using download_correct [OF ref_server.linked_server_axioms file_world_inv(2) h] h f
    by (auto simp: id path_append_def path_prefix_def example_io_def)
qed

text \<open>Only the two callbacks of a file's own message touch its entry.\<close>

lemma run_callback_file_msg:
  assumes "run_callback env io fd cb w = Inr w'"
    and "\<forall>u m. cb \<noteq> FileMsgCallback i u m" and "cb \<noteq> FileUploadedCallback i"
  shows "file_msg_pool (w_server w') i = file_msg_pool (w_server w) i"
  using assms
  by (cases cb) (auto simp: run_callback_defs Let_def frame_simps post_to_def delFileMsg_eq setFileMsg_def setKpAliveSender_eq
      split: if_splits prod.splits option.splits)

text \<open>
  C24: As long as the callbacks do not overlap, the receiver of a file message is notified at most once.
  The callback of the message queues nothing, it only records the message. The callback of an upload
  that finds the record, whatever happened since, forgets it and queues one notification with the
  message at the end of the receiver's channel, if the receiver has one then, and none otherwise: who
  is offline at that moment is never notified. The callback of any later upload that finds no record
  does nothing. No other callback changes the record. (Callbacks that overlap, and an upload whose
  callback runs before the record is made, are in the theories of the threads: the receiver is then
  notified twice, or not at all.)
\<close>

theorem file_message_notified_once:
  assumes reg: "run_callback env io1 fd1 (FileMsgCallback i u m) w = Inr w1" and u: "u \<noteq> 0"
    and waits: "file_msg_pool (w_server w2) i = file_msg_pool (w_server w1) i"
    and up: "run_callback env io2 fd2 (FileUploadedCallback i) w2 = Inr w3"
    and gone: "file_msg_pool (w_server w4) i = file_msg_pool (w_server w3) i"
    and again: "run_callback env io3 fd3 (FileUploadedCallback i) w4 = Inr w5"
  shows "pending_packets (w_server w1) = pending_packets (w_server w) \<and>
    (\<forall>v. pending_packets (w_server w3) v =
       (if v = u \<and> isOnline (w_server w2) u
        then map_option (\<lambda>q. q @ [new_packet env ContactMessageListRequest
            (ContactMessageListRequest_body [m])]) (pending_packets (w_server w2) v)
        else pending_packets (w_server w2) v)) \<and>
    file_msg_pool (w_server w3) i = None \<and> w5 = w4 \<and>
    (\<forall>io fd cb x y. run_callback env io fd cb x = Inr y \<and> (\<forall>u m. cb \<noteq> FileMsgCallback i u m) \<and>
       cb \<noteq> FileUploadedCallback i \<longrightarrow> file_msg_pool (w_server y) i = file_msg_pool (w_server x) i)"
proof -
  have w1: "w1 = w\<lparr>w_server := setFileMsg i u m (w_server w)\<rparr>"
    using reg by (simp add: run_callback_defs)
  then have g: "getFileMsg (w_server w2) i = (u, m)"
    using waits by (simp add: getFileMsg_def setFileMsg_def)
  let ?p = "new_packet env ContactMessageListRequest (ContactMessageListRequest_body [m])"
  have w3: "w3 = w2\<lparr>w_server := post_to u ?p (delFileMsg i (w_server w2))\<rparr>"
    using up g u by (auto simp: run_callback_defs Let_def post_to_def split: if_splits)
  have pend: "pending_packets (setFileMsg i u m s) = pending_packets s"
      "pending_packets (delFileMsg i s) = pending_packets s" for s
    by (simp_all add: pending_packets_def fun_eq_iff frame_simps)
  have none: "file_msg_pool (w_server w3) i = None"
    by (simp add: w3 frame_simps delFileMsg_eq)
  then have "w5 = w4"
    using again gone by (simp add: run_callback_defs getFileMsg_def)
  moreover have "pending_packets (w_server w3) v = (if v = u \<and> isOnline (w_server w2) u
      then map_option (\<lambda>q. q @ [?p]) (pending_packets (w_server w2) v) else pending_packets (w_server w2) v)" for v
    using u by (auto simp: w3 pend channels.pending_post isOnline_iff)
  ultimately show ?thesis using none run_callback_file_msg [of env _ _ _ _ _ i] by (auto simp: w1 pend)
qed

theorem file_message_notified_once_witness:
  "\<exists>w1 w2. run_callback ref_env example_io_now 5 (FileMsgCallback ''u1'' 1 failed_message) online_world = Inr w1 \<and>
     run_callback ref_env example_io_now 6 (FileUploadedCallback ''u1'') w1 = Inr w2 \<and>
     pending_packets (w_server w2) 1 = Some [new_packet ref_env ContactMessageListRequest
       (ContactMessageListRequest_body [failed_message])]"
proof -
  have total: "\<exists>w'. run_callback ref_env example_io_now fd (FileUploadedCallback ''u1'') w = Inr w'" for fd w
    by (simp add: run_callback_defs Let_def split: prod.split)
  obtain w1 where 1: "run_callback ref_env example_io_now 5 (FileMsgCallback ''u1'' 1 failed_message)
      online_world = Inr w1" by (simp add: run_callback_defs)
  obtain w2 where 2: "run_callback ref_env example_io_now 6 (FileUploadedCallback ''u1'') w1 = Inr w2"
    using total by blast
  obtain w3 where 3: "run_callback ref_env example_io_now 6 (FileUploadedCallback ''u1'') w2 = Inr w3"
    using total by blast
  have "isOnline (w_server w1) 1 = isOnline (w_server online_world) 1"
    using 1 by (auto simp: run_callback_defs isOnline_def getSender_def frame_simps)
  then have online: "isOnline (w_server w1) 1" by (simp add: isOnline_iff)
  show ?thesis using file_message_notified_once [OF 1 _ refl 2 refl 3] 1 2 by (simp add: online)
qed

end
