(* ===== verification/Server_Requests.thy ===== *)
theory Server_Requests
  imports Server_Files
begin

text \<open>
  Whole requests: which reply answers which request, and every way in which \<open>processRecvSocket\<close> can
  end, with the calls it has made on the client's socket.
\<close>

subsection \<open>The protocol of replies\<close>

fun response_type :: "PacketType \<Rightarrow> PacketType option" where
  "response_type ServerStatusRequest = Some ServerStatusResponse"
| "response_type ServerStatusUpdateRequest = Some ServerStatusUpdateResponse"
| "response_type RegisterRequest = Some RegisterResponse"
| "response_type LoginPreRequest = Some LoginPreResponse"
| "response_type LoginRequest = Some LoginResponse"
| "response_type SetupChannelRequest = Some ServerAckResponse"
| "response_type SendMessageRequest = Some SendMessageResponse"
| "response_type FileUploadRequest = Some FileUploadResponse"
| "response_type FileDownloadRequest = Some FileDownloadResponse"
| "response_type ContactMessageRequest = Some ContactMessageResponse"
| "response_type _ = None"

definition is_reply :: "('a, 'd) env \<Rightarrow> PacketType \<Rightarrow> 'a Packet \<Rightarrow> bool" where
  "is_reply env t p \<longleftrightarrow> (\<exists>b. p = new_packet env t b)"

lemma is_reply_new [simp]: "is_reply env t (new_packet env t b)"
  by (auto simp: is_reply_def)

definition answers :: "('a, 'd) env \<Rightarrow> PacketType \<Rightarrow> ('a, 'd) world \<Rightarrow> ('a, 'd) handled \<Rightarrow> bool" where
  "answers env t w h \<longleftrightarrow> (\<forall>reply cb w'. h = Inr (reply, cb, w') \<longrightarrow>
     is_reply env t reply \<and> w_van w' = w_van w \<and>
     ((\<exists>uid. cb = SetupChannelCallback uid) \<longrightarrow> t = ServerAckResponse))"

lemma status_answers:
  "answers env ServerStatusResponse w (on_ServerStatusRequest env w)"
  "answers env ServerStatusUpdateResponse w (on_ServerStatusUpdateRequest env w)"
  by (simp_all add: answers_def on_ServerStatusRequest_def on_ServerStatusUpdateRequest_def)

lemma register_answers: "answers env RegisterResponse w (on_RegisterRequest env pkt w)"
  by (auto simp: answers_def Let_def on_RegisterRequest_def split: prod.splits)

lemma login_pre_answers: "answers env LoginPreResponse w (on_LoginPreRequest env io pkt w)"
  by (auto simp: answers_def Let_def on_LoginPreRequest_def split: option.splits)

lemma login_answers: "answers env LoginResponse w (on_LoginRequest env io pkt w)"
  by (auto simp: answers_def Let_def on_LoginRequest_def split: option.splits if_splits)

lemma channel_answers: "answers env ServerAckResponse w (on_SetupChannelRequest env pkt w)"
  by (simp add: answers_def Let_def on_SetupChannelRequest_def)

lemma send_answers: "answers env SendMessageResponse w (on_SendMessageRequest env io pkt w)"
  by (auto simp: answers_def Let_def on_SendMessageRequest_def split: option.splits if_splits)

lemma upload_answers: "answers env FileUploadResponse w (on_FileUploadRequest env io pkt w)"
  by (auto simp: answers_def Let_def on_FileUploadRequest_def split: option.splits prod.splits if_splits)

lemma download_answers: "answers env FileDownloadResponse w (on_FileDownloadRequest env io pkt w)"
  by (auto simp: answers_def Let_def on_FileDownloadRequest_def
      split: option.splits prod.splits if_splits)

lemma contact_answers: "answers env ContactMessageResponse w (on_ContactMessageRequest env pkt w)"
  by (auto simp: answers_def Let_def on_ContactMessageRequest_def split: option.splits)

lemmas handlers_answer = status_answers register_answers login_pre_answers login_answers
  channel_answers send_answers upload_answers download_answers contact_answers

lemma handle_packet_reply:
  assumes "handle_packet env io pkt w = Inr (Some (reply, cb, w'))"
  obtains t rt b where "packet_type_of_id (packetId pkt) = Some t" "response_type t = Some rt"
    "reply = new_packet env rt b" "w_van w' = w_van w"
proof -
  obtain t where t: "packet_type_of_id (packetId pkt) = Some t"
    using assms by (cases "packet_type_of_id (packetId pkt)") (auto simp: handle_packet_def)
  have "\<exists>rt. response_type t = Some rt \<and> is_reply env rt reply \<and> w_van w' = w_van w"
    using assms t
    by (cases t) (auto simp: handle_packet_def dest!: handlers_answer [unfolded answers_def, rule_format])
  with t that show thesis by (auto simp: is_reply_def)
qed

lemma handle_packet_silent:
  assumes "handle_packet env io pkt w = Inr None"
  shows "case packet_type_of_id (packetId pkt) of None \<Rightarrow> True | Some t \<Rightarrow> response_type t = None"
  using assms by (auto simp: handle_packet_def split: option.splits PacketType.splits)

subsection \<open>Ways to end\<close>

lemma Van_Recv_van:
  assumes "Van_Recv wc ks v = Inr (n, msg, v')"
  shows "\<exists>r. RecvMesg wc ks = Inr (n, msg) \<and> v' = v\<lparr>recv_bytes := r\<rparr>"
proof (cases "n = -1")
  case True
  with assms show ?thesis
    by (auto simp: Van_Recv_def split: if_splits intro!: exI [of _ "recv_bytes v"])
qed (use assms in \<open>auto simp: Van_Recv_def split: if_splits\<close>)

lemma Van_Send_van:
  assumes "Van_Send wc msg fd ks v = Inr (ret, v')"
  obtains (sent) "0 \<le> ret" "van_calls v' = van_calls v @ [CallSend fd (SerializeToArray wc msg)]"
  | (failed) k where "ret = -1" "k < length (SerializeToArray wc msg)" "SendFails \<in> set ks"
      "van_calls v' = van_calls v @ [CallSend fd (take k (SerializeToArray wc msg))]"
proof -
  obtain out rest where m: "SendMesg wc msg ks = Inr (ret, out, rest)"
    and v: "van_calls v' = van_calls v @ [CallSend fd out]"
    using assms by (auto simp: Van_Send_def log_call_def Let_def split: if_splits)
  show thesis
    by (cases rule: SendMesg_cases [OF m]) (use v sent failed in auto)
qed

lemma run_callback_calls:
  assumes "run_callback env io fd cb w = Inr w'"
  shows "van_calls (w_van w') = van_calls (w_van w) @
    (case cb of SetupChannelCallback _ \<Rightarrow> [CallEpollDel fd] | _ \<Rightarrow> [])"
  using assms
  by (auto simp: run_callback_defs Let_def Control_def controlEpollDel_def log_call_def
      split: callback.splits if_splits prod.splits)

text \<open>How a request can end: \<open>w1\<close> is the state when the reply is sent.\<close>

lemma processRecvSocket_Inr:
  assumes "processRecvSocket env io fd w = Inr w'"
  obtains
    (quiet) n pkt v where "w' = w\<lparr>w_van := v\<rparr>" "van_calls v = van_calls (w_van w)"
      "RecvMesg (env_wire env) (io_recv io) = Inr (n, pkt)"
      "pkt = None \<or> n \<le> 0 \<or> handle_packet env io (the pkt) (w\<lparr>w_van := v\<rparr>) = Inr None"
  | (answered) n pkt v reply cb w1 v1 where
      "RecvMesg (env_wire env) (io_recv io) = Inr (n, Some pkt)" "0 < n"
      "van_calls v = van_calls (w_van w)"
      "handle_packet env io pkt (w\<lparr>w_van := v\<rparr>) = Inr (Some (reply, cb, w1))"
      "van_calls v1 = van_calls (w_van w) @ [CallSend fd (SerializeToArray (env_wire env) reply)]"
      "run_callback env io fd cb (w1\<lparr>w_van := v1\<rparr>) = Inr w'"
  | (send_failed) n pkt v reply cb w1 k v1 where
      "RecvMesg (env_wire env) (io_recv io) = Inr (n, Some pkt)" "0 < n"
      "van_calls v = van_calls (w_van w)"
      "handle_packet env io pkt (w\<lparr>w_van := v\<rparr>) = Inr (Some (reply, cb, w1))"
      "k < length (SerializeToArray (env_wire env) reply)" "SendFails \<in> set (io_send io)"
      "van_calls v1 = van_calls (w_van w) @
         [CallSend fd (take k (SerializeToArray (env_wire env) reply)), CallEpollDel fd, CallClose fd]"
      "w' = w1\<lparr>w_van := v1\<rparr>"
proof -
  obtain n pkt v where rv: "Van_Recv (env_wire env) (io_recv io) (w_van w) = Inr (n, pkt, v)"
    using assms by (auto simp: processRecvSocket_defs)
  then obtain rb where rm: "RecvMesg (env_wire env) (io_recv io) = Inr (n, pkt)"
    and v: "v = (w_van w)\<lparr>recv_bytes := rb\<rparr>" using Van_Recv_van [OF rv] by blast
  have vc: "van_calls v = van_calls (w_van w)" by (simp add: v)
  show thesis
  proof (cases "pkt = None \<or> n \<le> 0")
    case True
    then have w': "w' = w\<lparr>w_van := v\<rparr>" using assms rv by (auto simp: processRecvSocket_defs Let_def split: option.splits)
    have "pkt = None \<or> n \<le> 0 \<or> handle_packet env io (the pkt) (w\<lparr>w_van := v\<rparr>) = Inr None"
      using True by blast
    then show thesis by (rule quiet [OF w' vc rm])
  next
    case False
    then obtain p where p: "pkt = Some p" "0 < n" by auto
    obtain res where h: "handle_packet env io p (w\<lparr>w_van := v\<rparr>) = Inr res"
      using assms rv p by (auto simp: processRecvSocket_defs Let_def)
    show thesis
    proof (cases res)
      case None
      then have w': "w' = w\<lparr>w_van := v\<rparr>" using assms rv p h by (simp add: processRecvSocket_defs Let_def)
      show thesis by (rule quiet [OF w' vc rm]) (use h None p in simp)
    next
      case (Some r)
      obtain reply cb w1 where r: "res = Some (reply, cb, w1)" using Some by (cases r) auto
      note h' = h [unfolded r]
      have content: "packet_content reply \<noteq> None" and van: "w_van w1 = v"
        by (rule handle_packet_reply [OF h'], simp)+
      obtain ret v1 where sd: "Van_Send (env_wire env) reply fd (io_send io) v = Inr (ret, v1)"
        using assms rv p h' content van by (auto simp: processRecvSocket_defs Let_def split: prod.splits)
      show thesis
      proof (cases rule: Van_Send_van [OF sd])
        case 1
        then have "run_callback env io fd cb (w1\<lparr>w_van := v1\<rparr>) = Inr w'"
          using assms rv p h' content van sd by (simp add: processRecvSocket_defs Let_def)
        then show thesis
          using answered [OF rm [unfolded p(1)] p(2) vc h' _ ] 1(2) vc by simp
      next
        case (2 k)
        then have w': "w' = w1\<lparr>w_van := log_call (CallClose fd) (log_call (CallEpollDel fd) v1)\<rparr>"
          using assms rv p h' content van sd
          by (auto simp: processRecvSocket_defs Let_def Control_def controlEpollDel_def split: if_splits)
        show thesis
          by (rule send_failed [OF rm [unfolded p(1)] p(2) vc h' 2(2,3) _ w'])
            (simp add: log_call_def 2(4) vc)
      qed
    qed
  qed
qed

subsection \<open>Properties\<close>

text \<open>
  C29: Every request type of the protocol is answered by a packet of its response type, which always
  carries a message; an id that is not a request of the protocol (and a delete request) gets no
  reply. Handling a packet makes no call on a socket.
\<close>

theorem reply_matches_request:
  assumes "handle_packet env io pkt w = Inr res"
  shows "case packet_type_of_id (packetId pkt) of
      None \<Rightarrow> res = None
    | Some t \<Rightarrow> (case response_type t of
         None \<Rightarrow> res = None
       | Some rt \<Rightarrow> \<exists>b cb w'. res = Some (new_packet env rt b, cb, w') \<and> w_van w' = w_van w)"
proof (cases res)
  case None
  then show ?thesis
    using handle_packet_silent [of env io pkt w] assms by (auto split: option.splits)
next
  case (Some r)
  then obtain reply cb w' where r: "res = Some (reply, cb, w')" by (cases r) auto
  show ?thesis
    by (rule handle_packet_reply [OF assms [unfolded r]]) (auto simp: r)
qed

theorem reply_matches_request_witness:
  "\<exists>res b cb w'. handle_packet ref_env example_io_now
     (new_packet ref_env ServerStatusRequest ClientAckResponse_body) start_world = Inr res \<and>
     res = Some (new_packet ref_env ServerStatusResponse b, cb, w')"
proof -
  have t: "packet_type_of_id 0 = Some ServerStatusRequest" by (simp add: packet_type_of_id_iff)
  then obtain res where h: "handle_packet ref_env example_io_now
     (new_packet ref_env ServerStatusRequest ClientAckResponse_body) start_world = Inr res"
    by (simp add: handle_packet_def on_ServerStatusRequest_def)
  show ?thesis using reply_matches_request [OF h] h t by auto
qed

text \<open>
  C19: A request that returns ends in one of three ways: nothing readable or nothing to answer, and
  then no call was made on the socket and only the byte counter changed; or the handler's reply was
  sent completely, and the callback ran (which for a channel takes the socket out of the epoll set);
  or sending failed after a part of the reply, and then the socket was taken out of the epoll set
  and closed, the handler's changes remain, and its callback did not run.
\<close>

theorem request_outcomes:
  assumes "processRecvSocket env io fd w = Inr w'"
  shows "w' = w\<lparr>w_van := w_van w'\<rparr> \<and> van_calls (w_van w') = van_calls (w_van w) \<or>
    (\<exists>n pkt v reply cb w1. RecvMesg (env_wire env) (io_recv io) = Inr (n, Some pkt) \<and> 0 < n \<and>
       handle_packet env io pkt (w\<lparr>w_van := v\<rparr>) = Inr (Some (reply, cb, w1)) \<and>
       ((\<exists>v1. run_callback env io fd cb (w1\<lparr>w_van := v1\<rparr>) = Inr w') \<and>
          van_calls (w_van w') = van_calls (w_van w) @
            CallSend fd (SerializeToArray (env_wire env) reply) #
            (case cb of SetupChannelCallback _ \<Rightarrow> [CallEpollDel fd] | _ \<Rightarrow> []) \<or>
        w' = w1\<lparr>w_van := w_van w'\<rparr> \<and>
          (\<exists>k < length (SerializeToArray (env_wire env) reply).
             van_calls (w_van w') = van_calls (w_van w) @
               [CallSend fd (take k (SerializeToArray (env_wire env) reply)), CallEpollDel fd,
                CallClose fd])))"
proof (cases rule: processRecvSocket_Inr [OF assms])
  case (1 n pkt v)
  then show ?thesis by simp
next
  case (2 n pkt v reply cb w1 v1)
  then show ?thesis
    using run_callback_calls [OF 2(6)]
    by (intro disjI2 exI [of _ n] exI [of _ pkt] exI [of _ v] exI [of _ reply] exI [of _ cb]
        exI [of _ w1]) auto
next
  case (3 n pkt v reply cb w1 k v1)
  then show ?thesis
    by (intro disjI2 exI [of _ n] exI [of _ pkt] exI [of _ v] exI [of _ reply] exI [of _ cb]
        exI [of _ w1]) auto
qed

definition status_io :: io where
  "status_io = example_io_now
     \<lparr>io_recv := map RecvData [SerializeToArray plain_wire
        (new_packet ref_env ServerStatusRequest ClientAckResponse_body)] @ RecvWouldBlock # [],
      io_send := replicate 1000 (SendTakes 1000)\<rparr>"

lemma status_length:
  "length (SerializeToArray plain_wire (new_packet ref_env ServerStatusRequest ClientAckResponse_body)) < 100"
  "SerializeToArray plain_wire (new_packet ref_env t b) \<noteq> []"
  by (simp_all add: plain_wire_def plain_serialize_def text_codec_def text_pack_def enc_fields_def
      enc_field_def enc_int_def)

lemma status_io_sel:
  "io_recv status_io = map RecvData [SerializeToArray plain_wire
     (new_packet ref_env ServerStatusRequest ClientAckResponse_body)] @ RecvWouldBlock # []"
  "io_send status_io = replicate 1000 (SendTakes 1000)"
  by (simp_all add: status_io_def)

lemma status_recv:
  "RecvMesg plain_wire (io_recv status_io) =
     Inr (int (length (SerializeToArray plain_wire
        (new_packet ref_env ServerStatusRequest ClientAckResponse_body))),
        Some (new_packet ref_env ServerStatusRequest ClientAckResponse_body))"
  unfolding status_io_sel
  by (rule RecvMesg_chunks [OF plain_w.wire_codec_laws_axioms])
    (use status_length status_length(2) [symmetric] in \<open>simp_all add: kMaxMessageSize_def\<close>)

lemma status_reply_length:
  "length (SerializeToArray plain_wire (new_packet ref_env ServerStatusResponse
     (ServerStatusResponse_body True True))) < 100"
  by (simp add: plain_wire_def plain_serialize_def text_codec_def text_pack_def enc_fields_def
      enc_field_def enc_int_def enc_bool_def)

lemma status_runs: "\<exists>w'. processRecvSocket ref_env status_io 5 start_world = Inr w'"
proof -
  let ?q = "new_packet ref_env ServerStatusRequest ClientAckResponse_body"
  let ?p = "new_packet ref_env ServerStatusResponse (ServerStatusResponse_body True True)"
  have t: "packet_type_of_id 0 = Some ServerStatusRequest" by (simp add: packet_type_of_id_iff)
  have s: "\<exists>rest. SendMesg plain_wire ?p (io_send status_io) =
      Inr (int (length (SerializeToArray plain_wire ?p)), SerializeToArray plain_wire ?p, rest)"
    by (rule SendMesg_ok) (use status_reply_length in \<open>simp_all add: status_io_def kMaxMessageSize_def\<close>)
  show ?thesis
    using s status_recv status_length(2) [of ServerStatusRequest ClientAckResponse_body] t
    by (auto simp: processRecvSocket_defs Van_Recv_def Van_Send_def handle_packet_def Let_def
        on_ServerStatusRequest_def run_callback_defs)
qed

theorem request_outcomes_witness:
  "\<exists>w'. processRecvSocket ref_env status_io 5 start_world = Inr w' \<and>
     (\<exists>c calls. van_calls (w_van w') = c # calls \<or> van_calls (w_van w') = [])"
proof -
  obtain w' where h: "processRecvSocket ref_env status_io 5 start_world = Inr w'"
    using status_runs by blast
  show ?thesis using request_outcomes [OF h] h by (cases "van_calls (w_van w')") auto
qed

text \<open>
  When a client closes its connection without sending anything more, the request that this
  triggers returns and leaves the whole state as it is: the server neither takes the socket out of
  the epoll set nor closes it, so its descriptor is never released.
\<close>

theorem closed_connection_leaks:
  assumes wire: "wire_codec_laws (env_wire env)" and closed: "io_recv io = RecvClosed # later"
  shows "processRecvSocket env io fd w = Inr w"
  using closed
  by (simp add: processRecvSocket_defs Van_Recv_def RecvMesg_def Let_def
      wire_codec_laws.parse_nil [OF wire])

theorem closed_connection_leaks_witness:
  "processRecvSocket ref_env (example_io_now\<lparr>io_recv := [RecvClosed]\<rparr>) 5 start_world = Inr start_world"
  by (rule closed_connection_leaks) (simp_all add: plain_w.wire_codec_laws_axioms)

end
