(* ===== verification/Keepalive.thy ===== *)
theory Keepalive
  imports Server_Requests
begin

text \<open>
  \<open>Server::KeepAliveMsgSender::run\<close> of \<open>src/Server/Server.cpp\<close>: the thread of one user's channel. One
  iteration takes a packet from the sender's queue (or waits), sends it on the sender's socket, and
  waits for an acknowledgement on the same socket. The mutex \<open>mu_\<close> is held from before the send to the
  end of the iteration, so the socket does not change in between. The pauses change nothing.
\<close>

subsection \<open>One iteration\<close>

text \<open>The two sends and closes use \<open>io_send\<close> and \<open>io_recv\<close>; \<open>close_fd\<close> is \<open>Control(fd, "CLOSE_FD")\<close>.\<close>

definition close_fd :: "io \<Rightarrow> int32 \<Rightarrow> 'a ServerVan \<Rightarrow> 'a ServerVan run" where
  "close_fd io fd v =
     rbind (Control (io_del_ok io) (io_close_ret io) fd ''CLOSE_FD'' v) (\<lambda>(ret, v). Inr v)"

definition deliver ::
    "('a, 'd) env \<Rightarrow> io \<Rightarrow> 'a Packet \<Rightarrow> int32 \<Rightarrow> 'a ServerVan \<Rightarrow> 'a ServerVan run" where
  "deliver env io pkt fd v =
     rbind (Van_Send (env_wire env) pkt fd (io_send io) v) (\<lambda>(ret, v).
     rbind (if ret < 0 then close_fd io fd v else Inr v) (\<lambda>v.
     rbind (Van_Recv (env_wire env) (io_recv io) v) (\<lambda>(pkt_bytes, ack, v).
       if pkt_bytes < 0 then close_fd io fd v else Inr v)))"

text \<open>\<open>None\<close>: the queue is empty (or there is no such sender) and the thread waits.\<close>

definition run_once ::
    "('a, 'd) env \<Rightarrow> io \<Rightarrow> int32 \<Rightarrow> ('a, 'd) world \<Rightarrow> ('a, 'd) world option run" where
  "run_once env io uid w =
     (case keepalive_sender_mp (w_server w) uid of
        None \<Rightarrow> Inr None
      | Some sdr \<Rightarrow>
          (case WaitAndPop (msg_queue sdr) of
             None \<Rightarrow> Inr None
           | Some (pkt, q) \<Rightarrow>
               (let s = (w_server w)\<lparr>keepalive_sender_mp :=
                      (keepalive_sender_mp (w_server w))(uid \<mapsto> sdr\<lparr>msg_queue := q\<rparr>)\<rparr> in
                rbind (deliver env io pkt (sender_fd sdr) (w_van w)) (\<lambda>v.
                  Inr (Some (w\<lparr>w_server := s, w_van := v\<rparr>))))))"

text \<open>Iterations in a row, one per \<open>io\<close>, until the thread waits.\<close>

fun run_iterations ::
    "('a, 'd) env \<Rightarrow> io list \<Rightarrow> int32 \<Rightarrow> ('a, 'd) world \<Rightarrow> ('a, 'd) world run" where
  "run_iterations env [] uid w = Inr w"
| "run_iterations env (io # ios) uid w =
     rbind (run_once env io uid w) (\<lambda>r.
       case r of None \<Rightarrow> Inr w | Some w' \<Rightarrow> run_iterations env ios uid w')"

subsection \<open>Lemmas\<close>

lemma close_fd_eq: "close_fd io fd v = Inr (log_call (CallClose fd) v)"
  by (simp add: close_fd_def Control_def)

lemma Van_Recv_calls: "Van_Recv wc ks v = Inr (n, p, v') \<Longrightarrow> van_calls v' = van_calls v"
  using Van_Recv_van [of wc ks v n p v'] by auto

text \<open>The calls of one delivery: a close for a failed send and another one for a failed receive.\<close>

lemma deliver_calls:
  assumes "deliver env io pkt fd v = Inr v'"
  obtains ret out n p where
    "(ret = 0 \<and> out = SerializeToArray (env_wire env) pkt \<or>
      ret = (1 :: nat) \<and> SendFails \<in> set (io_send io) \<and>
        (\<exists>k < length (SerializeToArray (env_wire env) pkt).
           out = take k (SerializeToArray (env_wire env) pkt)))"
    "RecvMesg (env_wire env) (io_recv io) = Inr (n, p)"
    "van_calls v' = van_calls v @ CallSend fd out #
       replicate (ret + (if n < 0 then 1 else 0)) (CallClose fd)"
proof -
  obtain ret v1 where s: "Van_Send (env_wire env) pkt fd (io_send io) v = Inr (ret, v1)"
    using assms by (auto simp: deliver_def)
  let ?v2 = "if ret < 0 then log_call (CallClose fd) v1 else v1"
  have v2: "(if ret < 0 then close_fd io fd v1 else Inr v1) = Inr ?v2" by (simp add: close_fd_eq)
  obtain n p v3 where r: "Van_Recv (env_wire env) (io_recv io) ?v2 = Inr (n, p, v3)"
    and v': "v' = (if n < 0 then log_call (CallClose fd) v3 else v3)"
    using assms s v2 by (auto simp: deliver_def close_fd_eq split: if_splits)
  have rm: "RecvMesg (env_wire env) (io_recv io) = Inr (n, p)" using Van_Recv_van [OF r] by blast
  have c3: "van_calls v3 = van_calls ?v2" by (rule Van_Recv_calls [OF r])
  show thesis
  proof (cases rule: Van_Send_van [OF s])
    case 1
    then have "van_calls v' = van_calls v @ CallSend fd (SerializeToArray (env_wire env) pkt) #
        replicate (0 + (if n < 0 then 1 else 0)) (CallClose fd)"
      using v' c3 by (simp add: log_call_def)
    then show thesis by (rule that [OF _ rm, rotated]) simp
  next
    case (2 k)
    then have "van_calls v' = van_calls v @ CallSend fd (take k (SerializeToArray (env_wire env) pkt)) #
        replicate (1 + (if n < 0 then 1 else 0)) (CallClose fd)"
      using v' c3 by (simp add: log_call_def)
    then show thesis by (rule that [OF _ rm, rotated]) (use 2 in auto)
  qed
qed

lemma run_once_Some:
  assumes "run_once env io uid w = Inr (Some w')"
  obtains sdr pkt q v where "keepalive_sender_mp (w_server w) uid = Some sdr"
    "items (msg_queue sdr) = pkt # items q"
    "deliver env io pkt (sender_fd sdr) (w_van w) = Inr v"
    "w' = w\<lparr>w_server := (w_server w)\<lparr>keepalive_sender_mp :=
        (keepalive_sender_mp (w_server w))(uid \<mapsto> sdr\<lparr>msg_queue := q\<rparr>)\<rparr>, w_van := v\<rparr>"
  using assms
  by (auto simp: run_once_def Let_def WaitAndPop_Some_iff split: option.splits prod.splits)

lemma run_once_None_iff:
  "run_once env io uid w = Inr None \<longleftrightarrow>
     pending_packets (w_server w) uid = None \<or> pending_packets (w_server w) uid = Some []"
  by (auto simp: run_once_def pending_packets_def Let_def WaitAndPop_None_iff WaitAndPop_Some_iff
      rbind_eq_Inr_iff split: option.splits)

definition fd_of :: "'a Server \<Rightarrow> int32 \<Rightarrow> int32 option" where
  "fd_of s uid = map_option sender_fd (keepalive_sender_mp s uid)"

text \<open>Everything one iteration does, with \<open>failed\<close> and \<open>unacked\<close> for the two ways to fail.\<close>

lemma run_once_effect:
  assumes "run_once env io uid w = Inr (Some w')"
  obtains pkt rest fd out failed unacked where
    "pending_packets (w_server w) uid = Some (pkt # rest)"
    "pending_packets (w_server w') = (pending_packets (w_server w))(uid \<mapsto> rest)"
    "fd_of (w_server w) uid = Some fd" "fd_of (w_server w') = fd_of (w_server w)"
    "w' = w\<lparr>w_server := (w_server w)\<lparr>keepalive_sender_mp := keepalive_sender_mp (w_server w')\<rparr>,
            w_van := w_van w'\<rparr>"
    "failed \<longleftrightarrow> out \<noteq> SerializeToArray (env_wire env) pkt"
    "failed \<Longrightarrow> SendFails \<in> set (io_send io) \<and>
       (\<exists>k < length (SerializeToArray (env_wire env) pkt). out = take k (SerializeToArray (env_wire env) pkt))"
    "unacked \<longleftrightarrow> (\<exists>n p. RecvMesg (env_wire env) (io_recv io) = Inr (n, p) \<and> n < 0)"
    "van_calls (w_van w') = van_calls (w_van w) @ CallSend fd out #
       replicate (of_bool failed + of_bool unacked) (CallClose fd)"
proof -
  obtain sdr pkt q v where s: "keepalive_sender_mp (w_server w) uid = Some sdr"
    "items (msg_queue sdr) = pkt # items q"
    "deliver env io pkt (sender_fd sdr) (w_van w) = Inr v"
    "w' = w\<lparr>w_server := (w_server w)\<lparr>keepalive_sender_mp :=
        (keepalive_sender_mp (w_server w))(uid \<mapsto> sdr\<lparr>msg_queue := q\<rparr>)\<rparr>, w_van := v\<rparr>"
    by (rule run_once_Some [OF assms])
  let ?ser = "SerializeToArray (env_wire env) pkt"
  obtain ret out n p where d: "(ret = 0 \<and> out = ?ser \<or> ret = (1 :: nat) \<and>
      SendFails \<in> set (io_send io) \<and> (\<exists>k < length ?ser. out = take k ?ser))"
    "RecvMesg (env_wire env) (io_recv io) = Inr (n, p)"
    "van_calls v = van_calls (w_van w) @ CallSend (sender_fd sdr) out #
       replicate (ret + (if n < 0 then 1 else 0)) (CallClose (sender_fd sdr))"
    by (rule deliver_calls [OF s(3)])
  have full: "out = ?ser \<longleftrightarrow> ret = 0" using d(1) by (auto dest: arg_cong [of _ _ length])
  have n: "n < 0 \<longleftrightarrow> (\<exists>n p. RecvMesg (env_wire env) (io_recv io) = Inr (n, p) \<and> n < 0)"
    by (simp add: d(2))
  show thesis
  proof (rule that [where failed = "ret \<noteq> 0" and unacked = "n < 0"])
    show "pending_packets (w_server w) uid = Some (pkt # items q)"
      "pending_packets (w_server w') = (pending_packets (w_server w))(uid \<mapsto> items q)"
      "fd_of (w_server w) uid = Some (sender_fd sdr)" "fd_of (w_server w') = fd_of (w_server w)"
      using s(1,2) by (auto simp: s(4) fd_of_def pending_packets_def)
    show "w' = w\<lparr>w_server := (w_server w)\<lparr>keepalive_sender_mp := keepalive_sender_mp (w_server w')\<rparr>,
            w_van := w_van w'\<rparr>" by (simp add: s(4))
    show "ret \<noteq> 0 \<longleftrightarrow> out \<noteq> ?ser" using full by simp
    show "SendFails \<in> set (io_send io) \<and> (\<exists>k < length ?ser. out = take k ?ser)" if "ret \<noteq> 0"
      using d(1) that by auto
    show "n < 0 \<longleftrightarrow> (\<exists>n p. RecvMesg (env_wire env) (io_recv io) = Inr (n, p) \<and> n < 0)" by (rule n)
    show "van_calls (w_van w') = van_calls (w_van w) @ CallSend (sender_fd sdr) out #
       replicate (of_bool (ret \<noteq> 0) + of_bool (n < 0)) (CallClose (sender_fd sdr))"
      using d(1,3) by (auto simp: s(4))
  qed
qed

lemma run_iterations_in_order:
  assumes "run_iterations env ios uid w = Inr w'"
    and "pending_packets (w_server w) uid = Some q" and "fd_of (w_server w) uid = Some fd"
    and "\<forall>io \<in> set ios. SendFails \<notin> set (io_send io) \<and>
      (\<forall>n p. RecvMesg (env_wire env) (io_recv io) = Inr (n, p) \<longrightarrow> 0 \<le> n)"
  shows "van_calls (w_van w') = van_calls (w_van w) @
      map (\<lambda>p. CallSend fd (SerializeToArray (env_wire env) p)) (take (length ios) q) \<and>
    pending_packets (w_server w') uid = Some (drop (length ios) q)"
  using assms
proof (induction ios arbitrary: w q)
  case Nil
  then show ?case by simp
next
  case (Cons io ios)
  obtain r where r: "run_once env io uid w = Inr r" using Cons.prems(1) by auto
  show ?case
  proof (cases r)
    case None
    then have "q = []" using run_once_None_iff [of env io uid w] r Cons.prems(2) by simp
    then show ?thesis using Cons.prems r None by simp
  next
    case (Some w1)
    from r [unfolded Some] show ?thesis
    proof (rule run_once_effect)
      fix pkt rest fd1 out failed unacked
      assume e: "pending_packets (w_server w) uid = Some (pkt # rest)"
        "pending_packets (w_server w1) = (pending_packets (w_server w))(uid \<mapsto> rest)"
        "fd_of (w_server w) uid = Some fd1" "fd_of (w_server w1) = fd_of (w_server w)"
        "failed \<longleftrightarrow> out \<noteq> SerializeToArray (env_wire env) pkt"
        "failed \<Longrightarrow> SendFails \<in> set (io_send io) \<and>
          (\<exists>k < length (SerializeToArray (env_wire env) pkt). out = take k (SerializeToArray (env_wire env) pkt))"
        "unacked \<longleftrightarrow> (\<exists>n p. RecvMesg (env_wire env) (io_recv io) = Inr (n, p) \<and> n < 0)"
        "van_calls (w_van w1) = van_calls (w_van w) @ CallSend fd1 out #
          replicate (of_bool failed + of_bool unacked) (CallClose fd1)"
      have ok: "\<not> failed" "\<not> unacked" using e(6,7) Cons.prems(4) by (auto simp: not_less)
      have "run_iterations env ios uid w1 = Inr w'" using Cons.prems(1) r Some by simp
      then have "van_calls (w_van w') = van_calls (w_van w1) @
          map (\<lambda>p. CallSend fd (SerializeToArray (env_wire env) p)) (take (length ios) rest) \<and>
          pending_packets (w_server w') uid = Some (drop (length ios) rest)"
        by (rule Cons.IH) (use e Cons.prems in simp_all)
      then show ?thesis using e ok Cons.prems(2,3) by simp
    qed
  qed
qed

lemma run_once_total:
  assumes "pending_packets (w_server w) uid = Some (pkt # rest)"
    and "SendMesg (env_wire env) pkt (io_send io) = Inr x" and "RecvMesg (env_wire env) (io_recv io) = Inr y"
  shows "\<exists>w'. run_once env io uid w = Inr (Some w')"
proof -
  obtain sdr where sdr: "keepalive_sender_mp (w_server w) uid = Some sdr"
    "items (msg_queue sdr) = pkt # rest"
    using assms(1) by (auto simp: pending_packets_def)
  have pop: "WaitAndPop (msg_queue sdr) = Some (pkt, \<lparr>items = rest\<rparr>)"
    using sdr(2) by (simp add: WaitAndPop_Some_iff)
  have "\<exists>ret v'. Van_Send (env_wire env) pkt fd (io_send io) v = Inr (ret, v')" for fd v
    using assms(2) by (cases x) (auto simp: Van_Send_def Let_def)
  moreover have "\<exists>n p v'. Van_Recv (env_wire env) (io_recv io) v = Inr (n, p, v')" for v
    using assms(3) by (cases y) (auto simp: Van_Recv_def)
  ultimately have "\<exists>v'. deliver env io pkt fd v = Inr v'" for fd v
    unfolding deliver_def close_fd_eq by (auto simp: rbind_eq_Inr_iff) (metis rbind_Inr)
  then show ?thesis using sdr pop by (auto simp: run_once_def Let_def rbind_eq_Inr_iff)
qed

lemma run_iterations_total:
  assumes "pending_packets (w_server w) uid = Some q"
    and "\<forall>io \<in> set ios. (\<forall>p \<in> set q. \<exists>x. SendMesg (env_wire env) p (io_send io) = Inr x) \<and>
      (\<exists>y. RecvMesg (env_wire env) (io_recv io) = Inr y)"
  shows "\<exists>w'. run_iterations env ios uid w = Inr w'"
  using assms
proof (induction ios arbitrary: w q)
  case Nil
  then show ?case by simp
next
  case (Cons io ios)
  show ?case
  proof (cases q)
    case Nil
    then have "run_once env io uid w = Inr None" using Cons.prems(1) by (simp add: run_once_None_iff)
    then show ?thesis by simp
  next
    case q: (Cons p rest)
    obtain x y where "SendMesg (env_wire env) p (io_send io) = Inr x"
      "RecvMesg (env_wire env) (io_recv io) = Inr y"
      using Cons.prems(2) q by fastforce
    then obtain w1 where r: "run_once env io uid w = Inr (Some w1)"
      using run_once_total [of w uid p rest env io] Cons.prems(1) q by blast
    then have "pending_packets (w_server w1) uid = Some rest"
      by (rule run_once_effect) (use Cons.prems(1) q in simp)
    then have "\<exists>w'. run_iterations env ios uid w1 = Inr w'"
      by (rule Cons.IH) (use Cons.prems(2) q in simp)
    then show ?thesis using r by simp
  qed
qed

text \<open>An example: one notification is queued for user 1.\<close>

abbreviation note_packet :: "string Packet" where
  "note_packet \<equiv> new_packet ref_env ContactMessageListRequest (ContactMessageListRequest_body [])"

definition queued_world :: "(string, refdb) world" where
  "queued_world = online_world\<lparr>w_server := post_to 1 note_packet (w_server online_world)\<rparr>"

definition quiet_io :: io where
  "quiet_io = example_io_now\<lparr>io_send := replicate 100 (SendTakes 1000), io_recv := [RecvWouldBlock]\<rparr>"

lemma queued_world_sel [simp]:
  "pending_packets (w_server queued_world) 1 = Some [note_packet]"
  "fd_of (w_server queued_world) 1 = Some 9" "van_calls (w_van queued_world) = []"
proof -
  show "pending_packets (w_server queued_world) 1 = Some [note_packet]"
    by (simp add: queued_world_def channels.pending_post)
  show "fd_of (w_server queued_world) 1 = Some 9"
    by (simp add: queued_world_def fd_of_def sender_fd_post_to) (simp add: online_world_def
        sender_fd_setKpAliveSender [unfolded map_option_eq_Some] setKpAliveSender_def make_sender_def
        setUserIdByToken_def empty_Server_def)
  show "van_calls (w_van queued_world) = []" by (simp add: queued_world_def start_world_def)
qed

lemma quiet_io_sel [simp]:
  "io_send quiet_io = replicate 100 (SendTakes 1000)" "io_recv quiet_io = [RecvWouldBlock]"
  by (simp_all add: quiet_io_def)

lemma note_length: "length (SerializeToArray plain_wire note_packet) < 100"
  by (simp add: plain_wire_def plain_serialize_def text_codec_def text_pack_def enc_fields_def
      enc_field_def enc_int_def)

lemma quiet_recv: "RecvMesg plain_wire [RecvWouldBlock] = Inr (0, Some default_Packet)"
  by (simp add: RecvMesg_def plain_w.parse_nil)

lemma queued_runs: "\<exists>w'. run_once ref_env quiet_io 1 queued_world = Inr (Some w')"
proof -
  obtain rest where "SendMesg (env_wire ref_env) note_packet (io_send quiet_io) =
      Inr (int (length (SerializeToArray plain_wire note_packet)), SerializeToArray plain_wire note_packet, rest)"
    using SendMesg_ok [of plain_wire note_packet "io_send quiet_io"] note_length
    by (auto simp: kMaxMessageSize_def)
  then show ?thesis
    by (rule run_once_total [OF queued_world_sel(1)]) (simp add: quiet_recv)
qed

subsection \<open>Properties\<close>

text \<open>
  An iteration takes the oldest packet from the user's queue and sends it, or a part of it when
  a send fails, on the channel's socket; everything else of the state stays. The socket is closed
  once for a failed send and once more for a failed receive; the channel keeps the socket, so the
  user counts as online all the same. The thread waits exactly when nothing is queued.
\<close>

theorem channel_iteration:
  "(\<forall>w'. run_once env io uid w = Inr (Some w') \<longrightarrow>
     w_db w' = w_db w \<and> w_disk w' = w_disk w \<and>
     token_pool (w_server w') = token_pool (w_server w) \<and> fd_of (w_server w') = fd_of (w_server w) \<and>
     (\<exists>pkt rest fd out failed unacked.
        pending_packets (w_server w) uid = Some (pkt # rest) \<and>
        pending_packets (w_server w') = (pending_packets (w_server w))(uid \<mapsto> rest) \<and>
        fd_of (w_server w) uid = Some fd \<and>
        (failed \<longleftrightarrow> out \<noteq> SerializeToArray (env_wire env) pkt) \<and>
        (failed \<longrightarrow> (\<exists>k. out = take k (SerializeToArray (env_wire env) pkt))) \<and>
        (unacked \<longleftrightarrow> (\<exists>n p. RecvMesg (env_wire env) (io_recv io) = Inr (n, p) \<and> n < 0)) \<and>
        van_calls (w_van w') = van_calls (w_van w) @ CallSend fd out #
          replicate (of_bool failed + of_bool unacked) (CallClose fd))) \<and>
   (run_once env io uid w = Inr None \<longleftrightarrow>
      pending_packets (w_server w) uid = None \<or> pending_packets (w_server w) uid = Some [])"
proof (intro conjI allI impI)
  fix w'
  assume r: "run_once env io uid w = Inr (Some w')"
  from r show "w_db w' = w_db w" "w_disk w' = w_disk w"
    "token_pool (w_server w') = token_pool (w_server w)" "fd_of (w_server w') = fd_of (w_server w)"
    by (auto elim!: run_once_Some simp: fd_of_def)
  from r show "\<exists>pkt rest fd out failed unacked.
        pending_packets (w_server w) uid = Some (pkt # rest) \<and>
        pending_packets (w_server w') = (pending_packets (w_server w))(uid \<mapsto> rest) \<and>
        fd_of (w_server w) uid = Some fd \<and>
        (failed \<longleftrightarrow> out \<noteq> SerializeToArray (env_wire env) pkt) \<and>
        (failed \<longrightarrow> (\<exists>k. out = take k (SerializeToArray (env_wire env) pkt))) \<and>
        (unacked \<longleftrightarrow> (\<exists>n p. RecvMesg (env_wire env) (io_recv io) = Inr (n, p) \<and> n < 0)) \<and>
        van_calls (w_van w') = van_calls (w_van w) @ CallSend fd out #
          replicate (of_bool failed + of_bool unacked) (CallClose fd)"
    by (rule run_once_effect) (intro exI conjI; (assumption | blast))
qed (rule run_once_None_iff)

theorem channel_iteration_witness:
  "\<exists>w' fd out. run_once ref_env quiet_io 1 queued_world = Inr (Some w') \<and>
     pending_packets (w_server w') 1 = Some [] \<and> CallSend fd out \<in> set (van_calls (w_van w'))"
proof -
  obtain w' where r: "run_once ref_env quiet_io 1 queued_world = Inr (Some w')"
    using queued_runs by blast
  then show ?thesis
    using conjunct1 [OF channel_iteration, rule_format, OF r] by fastforce
qed

text \<open>
  As long as nothing fails, a channel delivers its queue in order: after any number of
  iterations what was sent on the socket are the serialisations of the packets at the front of
  the queue, each once and in the order in which they were queued, and the rest is still queued.
\<close>

theorem channel_sends_in_order:
  assumes "run_iterations env ios uid w = Inr w'"
    and "pending_packets (w_server w) uid = Some q" and "fd_of (w_server w) uid = Some fd"
    and "\<forall>io \<in> set ios. SendFails \<notin> set (io_send io) \<and>
      (\<forall>n p. RecvMesg (env_wire env) (io_recv io) = Inr (n, p) \<longrightarrow> 0 \<le> n)"
  shows "van_calls (w_van w') = van_calls (w_van w) @
      map (\<lambda>p. CallSend fd (SerializeToArray (env_wire env) p)) (take (length ios) q) \<and>
    pending_packets (w_server w') uid = Some (drop (length ios) q)"
  using assms by (rule run_iterations_in_order)

theorem channel_sends_in_order_witness:
  "\<exists>w'. run_iterations ref_env [quiet_io, quiet_io] 1 queued_world = Inr w' \<and>
     van_calls (w_van w') = [CallSend 9 (SerializeToArray plain_wire note_packet)]"
proof -
  obtain w1 where r1: "run_once ref_env quiet_io 1 queued_world = Inr (Some w1)"
    using queued_runs by blast
  have "pending_packets (w_server w1) 1 = Some []"
    using r1 by (rule run_once_effect) simp
  then have "run_once ref_env quiet_io 1 w1 = Inr None" by (simp add: run_once_None_iff)
  with r1 have r: "run_iterations ref_env [quiet_io, quiet_io] 1 queued_world = Inr w1" by simp
  have "\<forall>io \<in> set [quiet_io, quiet_io]. SendFails \<notin> set (io_send io) \<and>
      (\<forall>n p. RecvMesg (env_wire ref_env) (io_recv io) = Inr (n, p) \<longrightarrow> 0 \<le> n)"
    by (simp add: quiet_recv)
  from channel_sends_in_order [OF r queued_world_sel(1,2) this] r show ?thesis by simp
qed

text \<open>
  C26: Every queued packet is delivered: when the kernel takes the bytes of each send and no receive
  fails, as many iterations as there are packets in the queue return, and they empty it with all
  of its packets sent completely and in order.
\<close>

theorem channel_drains:
  assumes q: "pending_packets (w_server w) uid = Some q" and fd: "fd_of (w_server w) uid = Some fd"
    and enough: "length q \<le> length ios"
    and sends: "\<forall>io \<in> set ios. SendFails \<notin> set (io_send io) \<and>
      (\<forall>p \<in> set q. \<exists>x. SendMesg (env_wire env) p (io_send io) = Inr x)"
    and receives: "\<forall>io \<in> set ios. \<exists>n p. RecvMesg (env_wire env) (io_recv io) = Inr (n, p) \<and> 0 \<le> n"
  shows "\<exists>w'. run_iterations env ios uid w = Inr w' \<and> pending_packets (w_server w') uid = Some [] \<and>
    van_calls (w_van w') = van_calls (w_van w) @
      map (\<lambda>p. CallSend fd (SerializeToArray (env_wire env) p)) q"
proof -
  obtain w' where r: "run_iterations env ios uid w = Inr w'"
    using run_iterations_total [OF q, of ios env] sends receives by blast
  have "\<forall>io \<in> set ios. SendFails \<notin> set (io_send io) \<and>
      (\<forall>n p. RecvMesg (env_wire env) (io_recv io) = Inr (n, p) \<longrightarrow> 0 \<le> n)"
    using sends receives by fastforce
  from run_iterations_in_order [OF r q fd this] r show ?thesis using enough by simp
qed

theorem channel_drains_witness:
  "\<exists>w'. run_iterations ref_env [quiet_io] 1 queued_world = Inr w' \<and>
     pending_packets (w_server w') 1 = Some [] \<and>
     van_calls (w_van w') = [CallSend 9 (SerializeToArray plain_wire note_packet)]"
proof -
  have "\<exists>x. SendMesg plain_wire note_packet (replicate 100 (SendTakes 1000)) = Inr x"
    using SendMesg_ok [of plain_wire note_packet "replicate 100 (SendTakes 1000)"] note_length
    by (auto simp: kMaxMessageSize_def)
  then show ?thesis
    using channel_drains [OF queued_world_sel(1,2), of "[quiet_io]" ref_env] quiet_recv by simp
qed

text \<open>
  C39: When the peer is gone (the send and the receive fail), the same descriptor is closed twice in
  one iteration, the packet is lost, and the user stays online with that descriptor: the next
  packet queued for them will be sent to it again, whatever it stands for by then.
\<close>

theorem dead_channel_double_close:
  assumes q: "pending_packets (w_server w) uid = Some (pkt # rest)" and u: "uid \<noteq> 0"
    and fd: "fd_of (w_server w) uid = Some fd"
    and small: "SerializeToArray (env_wire env) pkt \<noteq> []"
      "length (SerializeToArray (env_wire env) pkt) \<le> kMaxMessageSize"
    and dead: "io_send io = SendFails # ks" "io_recv io = RecvFails # rs"
  shows "\<exists>w'. run_once env io uid w = Inr (Some w') \<and>
    van_calls (w_van w') = van_calls (w_van w) @ [CallSend fd [], CallClose fd, CallClose fd] \<and>
    pending_packets (w_server w') uid = Some rest \<and> isOnline (w_server w') uid \<and>
    fd_of (w_server w') uid = Some fd"
proof -
  obtain sdr where sdr: "keepalive_sender_mp (w_server w) uid = Some sdr"
    "items (msg_queue sdr) = pkt # rest" "sender_fd sdr = fd"
    using q fd by (auto simp: pending_packets_def fd_of_def)
  have pop: "WaitAndPop (msg_queue sdr) = Some (pkt, \<lparr>items = rest\<rparr>)"
    using sdr(2) by (simp add: WaitAndPop_Some_iff)
  have snd: "SendMesg (env_wire env) pkt (SendFails # ks) = Inr (-1, [], ks)"
    using small by (simp add: SendMesg_def Let_def)
  show ?thesis
    using sdr pop snd u
    by (simp add: run_once_def deliver_def Van_Send_def Van_Recv_def RecvMesg_def dead close_fd_eq
        Let_def log_call_def isOnline_def getSender_def pending_packets_def fd_of_def)
qed

theorem dead_channel_double_close_witness:
  "\<exists>w'. run_once ref_env (quiet_io\<lparr>io_send := [SendFails], io_recv := [RecvFails]\<rparr>) 1 queued_world =
       Inr (Some w') \<and> van_calls (w_van w') = [CallSend 9 [], CallClose 9, CallClose 9] \<and>
     isOnline (w_server w') 1"
proof -
  have ne: "SerializeToArray (env_wire ref_env) note_packet \<noteq> []" using status_length(2) by simp
  have len: "length (SerializeToArray (env_wire ref_env) note_packet) \<le> kMaxMessageSize"
    using note_length by (simp add: kMaxMessageSize_def)
  show ?thesis
    using dead_channel_double_close [OF queued_world_sel(1) _ queued_world_sel(2) ne len,
        of "quiet_io\<lparr>io_send := [SendFails], io_recv := [RecvFails]\<rparr>" "[]" "[]"]
    by auto
qed

end
