(* ===== verification/Races.thy ===== *)
theory Races
  imports Server_Accounts
begin

text \<open>
  What happens when two of the ten workers interleave inside a request. \<open>createMsgByRawMsg\<close> and the
  login are split into two phases each, reading and writing, between which no lock is held.
\<close>

section \<open>Storing a message\<close>

subsection \<open>The phases\<close>

definition next_message :: "'d sqlite \<Rightarrow> 'd \<Rightarrow> RawMessage \<Rightarrow> int \<Rightarrow> Message run" where
  "next_message eng d m now =
     rbind (getAllMessages eng d (raw_from m) (raw_to m)) (\<lambda>msgs.
       case int32_succ (max_internal_id msgs 0) of
         None \<Rightarrow> Inl (UndefinedBehaviour ''signed overflow'')
       | Some internal_id \<Rightarrow>
           Inr \<lparr>msg_message = \<lparr>raw_from = raw_from m, raw_to = raw_to m,
                               raw_type = raw_type m, raw_content = raw_content m\<rparr>,
                msg_id = 0, msg_timestamp = getTimestamp now, msg_internalId = internal_id\<rparr>)"

definition store_message :: "'d sqlite \<Rightarrow> 'd \<Rightarrow> Message \<Rightarrow> (Message option \<times> 'd) run" where
  "store_message eng d msg =
     rbind (createMsg eng d msg) (\<lambda>(result, d').
       case result of
         Some i \<Rightarrow> Inr (Some (msg\<lparr>msg_id := i\<rparr>), d')
       | None \<Rightarrow> Inr (None, d'))"

subsection \<open>Lemmas\<close>

lemma next_message_id:
  "next_message eng d m now = Inr x \<Longrightarrow> next_message eng d m' now' = Inr x' \<Longrightarrow>
   raw_from m' = raw_from m \<Longrightarrow> raw_to m' = raw_to m \<Longrightarrow>
   msg_message x = m \<and> msg_internalId x' = msg_internalId x"
  by (auto simp: next_message_def split: option.splits)

context sqlite_laws
begin

lemma store_message_appends:
  assumes ok: "db_ok tbl sch d" and c: "store_message eng d m = Inr (r, d')"
  shows "\<exists>i. r = Some (m\<lparr>msg_id := i\<rparr>) \<and> db_ok tbl sch d' \<and>
    conv_of tbl d' (raw_from (msg_message m)) (raw_to (msg_message m)) =
      conv_of tbl d (raw_from (msg_message m)) (raw_to (msg_message m)) @ [m\<lparr>msg_id := i\<rparr>]"
proof -
  obtain x where x: "createMsg eng d m = Inr (x, d')" "r = map_option (\<lambda>i. m\<lparr>msg_id := i\<rparr>) x"
    using c by (auto simp: store_message_def split: option.splits)
  then obtain i where i: "x = Some i" using createMsg_None [OF ok] by (cases x) auto
  from x(1) [unfolded i] show ?thesis
  proof (rule createMsg_Some [OF ok])
    fix k
    assume k: "i = to_int32 k" "tbl d' ''messages'' = tbl d ''messages'' @ [message_row m k]"
      "db_ok tbl sch d'"
    then show ?thesis
      using x(2) i conv_rows_append [OF k(2)] by (auto simp: conv_of_def row_message_row)
  qed
qed

end

subsection \<open>Properties\<close>

text \<open>
  Storing a raw message is exactly its two phases in a row; so when nothing comes between them,
  all that is proved of \<open>createMsgByRawMsg\<close> holds of the phases.
\<close>

theorem createMsg_phases:
  "createMsgByRawMsg eng d m now = rbind (next_message eng d m now) (store_message eng d)"
  by (auto simp: createMsgByRawMsg_def next_message_def store_message_def Let_def rbind_assoc
      intro!: rbind_cong split: option.splits)

text \<open>
  But two workers that store messages of the same conversation at the same time break its
  numbering: when both have read the conversation before either inserts, both inserts succeed, both
  messages get the same internal id, and the store's invariant is lost.
\<close>

theorem concurrent_messages_collide:
  assumes laws: "sqlite_laws eng tbl sch" and inv: "store_inv tbl sch d"
    and same: "raw_from m2 = raw_from m1" "raw_to m2 = raw_to m1"
    and read1: "next_message eng d m1 now1 = Inr x1" and read2: "next_message eng d m2 now2 = Inr x2"
    and ins1: "store_message eng d x1 = Inr (r1, d1)" and ins2: "store_message eng d1 x2 = Inr (r2, d2)"
  shows "\<exists>y1 y2. r1 = Some y1 \<and> r2 = Some y2 \<and> msg_internalId y1 = msg_internalId y2 \<and>
    conv_of tbl d2 (raw_from m1) (raw_to m1) = conv_of tbl d (raw_from m1) (raw_to m1) @ [y1, y2] \<and>
    \<not> store_inv tbl sch d2"
proof -
  note phases = sqlite_laws.store_message_appends [OF laws]
  have ok: "db_ok tbl sch d" using inv by (simp add: store_inv_def)
  have m1: "msg_message x1 = m1" and m2: "msg_message x2 = m2"
    and ids: "msg_internalId x2 = msg_internalId x1"
    using next_message_id [OF read1 read2 same] next_message_id [OF read2 read1 same [symmetric]] by auto
  obtain i where r1: "r1 = Some (x1\<lparr>msg_id := i\<rparr>)" and ok1: "db_ok tbl sch d1"
    and c1: "conv_of tbl d1 (raw_from m1) (raw_to m1) =
      conv_of tbl d (raw_from m1) (raw_to m1) @ [x1\<lparr>msg_id := i\<rparr>]"
    using phases [OF ok ins1] m1 by auto
  obtain j where r2: "r2 = Some (x2\<lparr>msg_id := j\<rparr>)"
    and c2: "conv_of tbl d2 (raw_from m1) (raw_to m1) =
      conv_of tbl d (raw_from m1) (raw_to m1) @ [x1\<lparr>msg_id := i\<rparr>, x2\<lparr>msg_id := j\<rparr>]"
    using phases [OF ok1 ins2] m2 same c1 by auto
  let ?c = "conv_of tbl d (raw_from m1) (raw_to m1)" and ?c2 = "conv_of tbl d2 (raw_from m1) (raw_to m1)"
  have "\<not> store_inv tbl sch d2"
  proof
    assume inv2: "store_inv tbl sch d2"
    have nth: "sint (msg_internalId (?c2 ! k)) = int k + 1" if "k < length ?c2" for k
      by (rule conversation_store.numbered_nth [OF sqlite_laws.conversation_contract [OF laws] inv2 that])
    from nth [of "length ?c"] nth [of "Suc (length ?c)"] show False
      by (simp add: c2 ids nth_append)
  qed
  then show ?thesis using r1 r2 c2 ids by auto
qed

lemma race_runs:
  "\<exists>x1 x2 r1 d1 r2 d2. next_message ref_engine fresh_db hello 100 = Inr x1 \<and>
     next_message ref_engine fresh_db hello 101 = Inr x2 \<and>
     store_message ref_engine fresh_db x1 = Inr (r1, d1) \<and> store_message ref_engine d1 x2 = Inr (r2, d2)"
  by (simp add: next_message_def store_message_def getAllMessages_def fetch_all_def createMsg_def
      ref_eval bind_int_def int32_succ_def hello_def)

theorem concurrent_messages_collide_witness:
  "\<exists>x1 x2 y1 d1 y2 d2. next_message ref_engine fresh_db hello 100 = Inr x1 \<and>
     next_message ref_engine fresh_db hello 101 = Inr x2 \<and>
     store_message ref_engine fresh_db x1 = Inr (Some y1, d1) \<and>
     store_message ref_engine d1 x2 = Inr (Some y2, d2) \<and>
     conv_of ref_tbl d2 1 1 = [y1, y2] \<and> msg_internalId y1 = msg_internalId y2"
proof -
  obtain x1 x2 r1 d1 r2 d2 where run: "next_message ref_engine fresh_db hello 100 = Inr x1"
    "next_message ref_engine fresh_db hello 101 = Inr x2"
    "store_message ref_engine fresh_db x1 = Inr (r1, d1)" "store_message ref_engine d1 x2 = Inr (r2, d2)"
    using race_runs by blast
  have "conv_of ref_tbl fresh_db 1 1 = []" by (simp add: conv_of_def conv_rows_def)
  then show ?thesis
    using concurrent_messages_collide [OF refsql.sqlite_laws_axioms store_inv_fresh_db _ _ run] run
    by auto
qed

section \<open>Logging in\<close>

subsection \<open>The phases\<close>

text \<open>From the request to the comparison; \<open>None\<close> when the user does not exist.\<close>

definition login_check ::
    "('a, 'd) env \<Rightarrow> 'a Packet \<Rightarrow> ('a, 'd) world \<Rightarrow> (User \<times> bool) option run" where
  "login_check env pkt w =
     (let request = unpacked unpack_Login \<lparr>lq_username = [], lq_hashPassword = []\<rparr> env pkt in
      rbind (getUser_name (env_sql env) (w_db w) (lq_username request)) (\<lambda>result.
        case result of
          None \<Rightarrow> Inr None
        | Some user \<Rightarrow>
            (let challenge = getChallengeMp (w_server w) (usr_id user) in
             rbind (SHA256 (env_crypto env) (usr_password user @ challenge)) (\<lambda>pass_challenge_sha256.
               Inr (Some (user, pass_challenge_sha256 = lq_hashPassword request))))))"

text \<open>What follows the comparison.\<close>

definition login_commit ::
    "('a, 'd) env \<Rightarrow> io \<Rightarrow> User \<Rightarrow> bool \<Rightarrow> ('a, 'd) world \<Rightarrow> ('a, 'd) handled" where
  "login_commit env io user ok w =
     (let reply = (\<lambda>logined i token.
            new_packet env LoginResponse (LoginResponse_body logined i token)) in
      if ok
      then rbind (genToken (env_crypto env) (io_uuid io)) (\<lambda>token.
             Inr (reply True (usr_id user) token, NoCallback,
               w\<lparr>w_server := delChallengeMp (usr_id user)
                    (setUserIdByToken token (usr_id user) (w_server w))\<rparr>))
      else Inr (reply False (-1) ''wrong password'', NoCallback,
             w\<lparr>w_server := delChallengeMp (usr_id user) (w_server w)\<rparr>))"

lemma login_phases:
  "on_LoginRequest env io pkt w = rbind (login_check env pkt w) (\<lambda>checked.
     case checked of
       None \<Rightarrow> Inr (new_packet env LoginResponse (LoginResponse_body False (-1) ''illegal user''),
                    NoCallback, w)
     | Some (user, ok) \<Rightarrow> login_commit env io user ok w)"
  by (auto simp: on_LoginRequest_def login_check_def login_commit_def Let_def rbind_assoc
      intro!: rbind_cong split: option.splits)

subsection \<open>Properties\<close>

text \<open>
  One answer to one challenge can log in twice: when two workers have both compared the same
  request before either has removed the challenge, both replies grant a token for the account and
  both tokens are valid. One after the other, the second would compare with the empty challenge.
\<close>

theorem concurrent_logins_share_challenge:
  assumes laws: "linked_server env tbl sch"
    and check: "login_check env pkt w = Inr (Some (u, True))"
    and t1: "t1 = getUUID (io_uuid io1)" "t1 \<noteq> []" and t2: "t2 = getUUID (io_uuid io2)" "t2 \<noteq> []"
    and commit1: "login_commit env io1 u True w = Inr (reply1, cb1, w1)"
    and commit2: "login_commit env io2 u True w1 = Inr (reply2, cb2, w2)"
  shows "reply1 = new_packet env LoginResponse (LoginResponse_body True (usr_id u) t1) \<and>
    reply2 = new_packet env LoginResponse (LoginResponse_body True (usr_id u) t2) \<and>
    getUserIdByToken (w_server w2) t1 = usr_id u \<and> getUserIdByToken (w_server w2) t2 = usr_id u \<and>
    (\<exists>again. login_check env pkt w1 = Inr (Some (u, again)) \<and>
       (again \<longleftrightarrow> SHA256 (env_crypto env) (usr_password u) = SHA256 (env_crypto env)
          (usr_password u @ getChallengeMp (w_server w) (usr_id u))))"
proof -
  have tok: "genToken (env_crypto env) u = Inr (getUUID u)" for u
    using commit1 by (auto simp: login_commit_def genToken_def)
  have w1: "w1 = w\<lparr>w_server := delChallengeMp (usr_id u) (setUserIdByToken t1 (usr_id u) (w_server w))\<rparr>"
    and r1: "reply1 = new_packet env LoginResponse (LoginResponse_body True (usr_id u) t1)"
    using commit1 by (simp_all add: login_commit_def tok t1)
  have w2: "w2 = w1\<lparr>w_server := delChallengeMp (usr_id u) (setUserIdByToken t2 (usr_id u) (w_server w1))\<rparr>"
    and r2: "reply2 = new_packet env LoginResponse (LoginResponse_body True (usr_id u) t2)"
    using commit2 by (simp_all add: login_commit_def tok t2)
  have frame: "getUserIdByToken (delChallengeMp i s) = getUserIdByToken s" for i s
    by (rule getUserIdByToken_frame) (simp add: frame_simps)
  have ids: "getUserIdByToken (w_server w2) t1 = usr_id u" "getUserIdByToken (w_server w2) t2 = usr_id u"
    using t1(2) t2(2) by (simp_all add: w1 w2 frame tokens.get_put)
  obtain h where h: "SHA256 (env_crypto env) (usr_password u) = Inr h"
    using linked_server.SHA256_inv [OF laws] by blast
  have "getChallengeMp (w_server w1) (usr_id u) = []" by (simp add: w1 challenges.get_erase)
  then have "login_check env pkt w1 = Inr (Some (u, h = lq_hashPassword
      (unpacked unpack_Login \<lparr>lq_username = [], lq_hashPassword = []\<rparr> env pkt)))"
    using check h by (auto simp: login_check_def Let_def w1 split: option.splits)
  moreover have "SHA256 (env_crypto env) (usr_password u @ getChallengeMp (w_server w) (usr_id u)) =
      Inr (lq_hashPassword (unpacked unpack_Login \<lparr>lq_username = [], lq_hashPassword = []\<rparr> env pkt))"
    using check by (auto simp: login_check_def Let_def split: option.splits)
  ultimately show ?thesis using r1 r2 ids h by auto
qed

theorem concurrent_logins_share_challenge_witness:
  "\<exists>u w1 w2 t. login_check ref_env (new_packet ref_env LoginRequest (LoginRequest_body
       \<lparr>lq_username = ''bob'', lq_hashPassword = bob_answer\<rparr>)) bob_world = Inr (Some (u, True)) \<and>
     login_commit ref_env example_io_now u True bob_world =
       Inr (new_packet ref_env LoginResponse (LoginResponse_body True (usr_id u) t), NoCallback, w1) \<and>
     login_commit ref_env (example_io_now\<lparr>io_uuid := ''u2''\<rparr>) u True w1 =
       Inr (new_packet ref_env LoginResponse (LoginResponse_body True (usr_id u) ''u2''), NoCallback, w2) \<and>
     getUserIdByToken (w_server w2) t = usr_id u \<and> getUserIdByToken (w_server w2) ''u2'' = usr_id u"
proof -
  let ?io2 = "example_io_now\<lparr>io_uuid := ''u2''\<rparr>"
  let ?p = "new_packet ref_env LoginRequest (LoginRequest_body
       \<lparr>lq_username = ''bob'', lq_hashPassword = bob_answer\<rparr>)"
  obtain u where u: "accounts_of ref_tbl bob_db ''bob'' = Some u" "usr_password u = ''pw''"
    using bob_account by blast
  obtain res where res: "getUser_name ref_engine bob_db ''bob'' = Inr res" using bob_found by blast
  have "res = Some u"
    using account_store.get_accounts [OF ref_server.accounts_contract store_inv_bob_db
        res [folded ref_env_sel(1)]] u(1) by (simp add: c_str_def)
  then have check: "login_check ref_env ?p bob_world = Inr (Some (u, True))"
    using res u(2) bob_answer ref_server.any.login
    by (simp add: login_check_def getChallengeMp_def empty_Server_def)
  have uuid: "''u1'' = getUUID (io_uuid example_io_now)" "''u2'' = getUUID (io_uuid ?io2)"
    by (simp_all add: getUUID_def c_str_def example_io_now_def)
  have tok: "genToken (env_crypto ref_env) x = Inr (getUUID x)" for x
    by (simp add: genToken_def plain_crypto_def InitSodium_def)
  obtain w1 where 1: "login_commit ref_env example_io_now u True bob_world =
      Inr (new_packet ref_env LoginResponse (LoginResponse_body True (usr_id u) ''u1''), NoCallback, w1)"
    using uuid(1) by (simp add: login_commit_def tok)
  obtain w2 where 2: "login_commit ref_env ?io2 u True w1 =
      Inr (new_packet ref_env LoginResponse (LoginResponse_body True (usr_id u) ''u2''), NoCallback, w2)"
    using uuid(2) by (simp add: login_commit_def tok)
  show ?thesis
    using concurrent_logins_share_challenge [OF ref_server.linked_server_axioms check uuid(1) _ uuid(2) _ 1 2]
      check 1 2 by blast
qed

end
