(* ===== verification/Server_System.thy ===== *)
theory Server_System
  imports Accepting Keepalive
begin

text \<open>
  The running server: its threads as steps that interleave in any order, and the invariant that ties
  the server's tables in memory to the database. A request is two steps, so that other requests run
  between the change it makes and its reply with the callback.
\<close>

subsection \<open>Steps\<close>

text \<open>\<open>sys_busy\<close>: the requests that workers have handled and not answered yet.\<close>

record ('a, 'd) system =
  sys_world :: "('a, 'd) world"
  sys_busy :: "(int32 \<times> 'a Packet \<times> callback) list"

text \<open>
  The kernel's answers, the clock and the random numbers are arbitrary in every step. A worker that
  is not busy takes a socket from the queue; a busy one, in any order, sends its reply.
\<close>

inductive server_step :: "('a, 'd) env \<Rightarrow> ('a, 'd) system \<Rightarrow> ('a, 'd) system \<Rightarrow> bool" for env where
  receive: "length busy < revc_socket_pool_thread_num \<Longrightarrow>
    WaitAndPop (RecvSocketQueue (w_van w)) = Some (fd, q) \<Longrightarrow>
    receive_request env io (w\<lparr>w_van := (w_van w)\<lparr>RecvSocketQueue := q\<rparr>\<rparr>) = Inr (answer, w') \<Longrightarrow>
    server_step env \<lparr>sys_world = w, sys_busy = busy\<rparr> \<lparr>sys_world = w', sys_busy =
      busy @ (case answer of None \<Rightarrow> [] | Some (reply, cb) \<Rightarrow> [(fd, reply, cb)])\<rparr>"
| reply: "send_reply env io fd reply cb w = Inr w' \<Longrightarrow>
    server_step env \<lparr>sys_world = w, sys_busy = b1 @ (fd, reply, cb) # b2\<rparr>
      \<lparr>sys_world = w', sys_busy = b1 @ b2\<rparr>"
| channel: "run_once env io uid w = Inr (Some w') \<Longrightarrow>
    server_step env \<lparr>sys_world = w, sys_busy = busy\<rparr> \<lparr>sys_world = w', sys_busy = busy\<rparr>"
| accept: "on_event e (Some (w_server w), w_van w) = Inr (Some s, v) \<Longrightarrow>
    server_step env \<lparr>sys_world = w, sys_busy = busy\<rparr>
      \<lparr>sys_world = w\<lparr>w_server := s, w_van := v\<rparr>, sys_busy = busy\<rparr>"

inductive_cases server_stepE: "server_step env s s'"

definition idle :: "('a, 'd) world \<Rightarrow> ('a, 'd) system" where
  "idle w = \<lparr>sys_world = w, sys_busy = []\<rparr>"

lemma idle_sel [simp]: "sys_world (idle w) = w" "sys_busy (idle w) = []"
  by (simp_all add: idle_def)

text \<open>A worker's whole request is a run of at most two steps.\<close>

lemma worker_step_runs:
  assumes "worker_step env io w = Inr (Some w')"
  shows "(server_step env)\<^sup>*\<^sup>* (idle w) (idle w')"
proof -
  obtain fd q where pop: "WaitAndPop (RecvSocketQueue (w_van w)) = Some (fd, q)"
    and r: "processRecvSocket env io fd (w\<lparr>w_van := (w_van w)\<lparr>RecvSocketQueue := q\<rparr>\<rparr>) = Inr w'"
    using assms by (auto simp: worker_step_def split: option.splits)
  obtain answer w1 where 1: "receive_request env io (w\<lparr>w_van := (w_van w)\<lparr>RecvSocketQueue := q\<rparr>\<rparr>) =
      Inr (answer, w1)" and 2: "(case answer of None \<Rightarrow> Inr w1
        | Some (reply, cb) \<Rightarrow> send_reply env io fd reply cb w1) = Inr w'"
    using r by (auto simp: processRecvSocket_def)
  have busy: "length [] < revc_socket_pool_thread_num" by (simp add: revc_socket_pool_thread_num_def)
  note s1 = server_step.receive [OF busy pop 1]
  show ?thesis
  proof (cases answer)
    case None
    then show ?thesis using s1 2 by (auto simp: idle_def intro: r_into_rtranclp)
  next
    case (Some a)
    then obtain reply cb where a: "answer = Some (reply, cb)" by (cases a) auto
    then have "server_step env \<lparr>sys_world = w1, sys_busy = [] @ (fd, reply, cb) # []\<rparr>
        \<lparr>sys_world = w', sys_busy = [] @ []\<rparr>"
      using 2 by (intro server_step.reply) simp
    with s1 a show ?thesis by (auto simp: idle_def intro: converse_rtranclp_into_rtranclp r_into_rtranclp)
  qed
qed

subsection \<open>The invariant\<close>

text \<open>
  The passwords of the accounts are hashes of raw passwords of an allowed length, and no name is
  longer than a registration allows.
\<close>

definition accounts_ok ::
    "('a, 'd) env \<Rightarrow> ('d \<Rightarrow> string \<Rightarrow> sql_row list) \<Rightarrow> 'd \<Rightarrow> bool" where
  "accounts_ok env tbl d \<longleftrightarrow> (\<forall>n u. accounts_of tbl d n = Some u \<longrightarrow>
     usr_username u = n \<and> length n \<le> 32 \<and>
     (\<exists>p. 6 \<le> length p \<and> length p \<le> 32 \<and> SHA256 (env_crypto env) p = Inr (usr_password u)))"

text \<open>What the server pushes to clients: the contact list and new messages.\<close>

definition is_push :: "('a, 'd) env \<Rightarrow> 'a Packet \<Rightarrow> bool" where
  "is_push env p \<longleftrightarrow> is_reply env ContactListRequest p \<or> is_reply env ContactMessageListRequest p"

text \<open>
  The database satisfies an invariant \<open>J\<close>; every user id that a token, a challenge, a channel or a
  pending file message refers to belongs to an account (channels also to the id 0 of an unknown
  token); every pending file message is about a registered file and carries its id; and only pushes
  wait in the channels.
\<close>

definition world_inv ::
    "('d \<Rightarrow> bool) \<Rightarrow> ('a, 'd) env \<Rightarrow> ('d \<Rightarrow> string \<Rightarrow> sql_row list) \<Rightarrow> ('a, 'd) world \<Rightarrow> bool" where
  "world_inv J env tbl w \<longleftrightarrow>
     J (w_db w) \<and> accounts_ok env tbl (w_db w) \<and>
     (\<forall>t u. token_pool (w_server w) t = Some u \<longrightarrow> known_user tbl (w_db w) u) \<and>
     (\<forall>u. challenge_pool (w_server w) u \<noteq> None \<longrightarrow> known_user tbl (w_db w) u) \<and>
     (\<forall>u. keepalive_sender_mp (w_server w) u \<noteq> None \<longrightarrow> u = 0 \<or> known_user tbl (w_db w) u) \<and>
     (\<forall>i u m. file_msg_pool (w_server w) i = Some (u, m) \<longrightarrow>
        known_user tbl (w_db w) u \<and> files_of tbl (w_db w) i \<noteq> None \<and> raw_content (msg_message m) = i) \<and>
     (\<forall>u q p. pending_packets (w_server w) u = Some q \<longrightarrow> p \<in> set q \<longrightarrow> is_push env p)"

text \<open>With the database's own invariant for \<open>J\<close> it is the invariant of the server.\<close>

abbreviation server_inv ::
    "('a, 'd) env \<Rightarrow> ('d \<Rightarrow> string \<Rightarrow> sql_row list) \<Rightarrow> ('d \<Rightarrow> string \<Rightarrow> column list option) \<Rightarrow>
     ('a, 'd) world \<Rightarrow> bool" where
  "server_inv env tbl sch \<equiv> world_inv (store_inv tbl sch) env tbl"

lemmas server_inv_def = world_inv_def

fun callback_ok :: "('d \<Rightarrow> string \<Rightarrow> sql_row list) \<Rightarrow> 'd \<Rightarrow> callback \<Rightarrow> bool" where
  "callback_ok tbl d (SetupChannelCallback u) \<longleftrightarrow> u = 0 \<or> known_user tbl d u"
| "callback_ok tbl d (FileMsgCallback i u m) \<longleftrightarrow>
     known_user tbl d u \<and> files_of tbl d i \<noteq> None \<and> raw_content (msg_message m) = i"
| "callback_ok tbl d _ \<longleftrightarrow> True"

text \<open>A database that keeps the accounts and the files (and may have more) keeps the invariant.\<close>

definition extends :: "('d \<Rightarrow> string \<Rightarrow> sql_row list) \<Rightarrow> 'd \<Rightarrow> 'd \<Rightarrow> bool" where
  "extends tbl d d' \<longleftrightarrow>
     (\<forall>u. known_user tbl d u \<longrightarrow> known_user tbl d' u) \<and>
     (\<forall>i. files_of tbl d i \<noteq> None \<longrightarrow> files_of tbl d' i \<noteq> None)"

lemma extends_eq:
  "accounts_of tbl d' = accounts_of tbl d \<Longrightarrow> \<forall>i. files_of tbl d i \<noteq> None \<longrightarrow> files_of tbl d' i \<noteq> None \<Longrightarrow>
   extends tbl d d'"
  by (simp add: extends_def known_user_def)

lemma server_inv_grow:
  assumes "world_inv J env tbl w" and "J d" and "extends tbl (w_db w) d"
    and "accounts_ok env tbl d"
  shows "world_inv J env tbl (w\<lparr>w_db := d\<rparr>)"
  using assms unfolding server_inv_def extends_def by simp blast

lemma server_inv_db:
  assumes "world_inv J env tbl w" and "J d"
    and a: "accounts_of tbl d = accounts_of tbl (w_db w)"
    and "\<forall>i. files_of tbl (w_db w) i \<noteq> None \<longrightarrow> files_of tbl d i \<noteq> None"
  shows "world_inv J env tbl (w\<lparr>w_db := d\<rparr>)"
  using assms by (intro server_inv_grow extends_eq) (auto simp: server_inv_def accounts_ok_def)

lemma server_inv_frame [simp]:
  "world_inv J env tbl (w\<lparr>w_van := v\<rparr>) = world_inv J env tbl w"
  "world_inv J env tbl (w\<lparr>w_disk := k\<rparr>) = world_inv J env tbl w"
  "world_inv J env tbl (w\<lparr>w_server := (w_server w)\<lparr>revc_socket_pool := p\<rparr>\<rparr>) = world_inv J env tbl w"
  by (simp_all add: server_inv_def pending_packets_def)

lemma pending_packets_pools [simp]:
  "pending_packets (setUserIdByToken t u s) = pending_packets s"
  "pending_packets (setChallengeMp u c s) = pending_packets s"
  "pending_packets (delChallengeMp u s) = pending_packets s"
  "pending_packets (setFileMsg i u m s) = pending_packets s"
  "pending_packets (delFileMsg i s) = pending_packets s"
  by (simp_all add: pending_packets_def fun_eq_iff frame_simps)

lemma server_inv_token:
  "world_inv J env tbl w \<Longrightarrow> known_user tbl (w_db w) u \<Longrightarrow>
   world_inv J env tbl (w\<lparr>w_server := setUserIdByToken t u (w_server w)\<rparr>)"
  by (auto simp: server_inv_def frame_simps tokens.entry_put)

lemma server_inv_setChallenge:
  "world_inv J env tbl w \<Longrightarrow> known_user tbl (w_db w) u \<Longrightarrow>
   world_inv J env tbl (w\<lparr>w_server := setChallengeMp u c (w_server w)\<rparr>)"
  by (auto simp: server_inv_def frame_simps challenges.entry_put)

lemma server_inv_delChallenge:
  "world_inv J env tbl w \<Longrightarrow>
   world_inv J env tbl (w\<lparr>w_server := delChallengeMp u (w_server w)\<rparr>)"
  by (auto simp: server_inv_def frame_simps challenges.entry_erase)

lemma keepalive_dom_setKpAliveSender:
  "keepalive_sender_mp (setKpAliveSender u fd s) v \<noteq> None \<longleftrightarrow> v = u \<or> keepalive_sender_mp s v \<noteq> None"
  by (auto simp: setKpAliveSender_def split: option.splits)

lemma keepalive_dom_post_to:
  "keepalive_sender_mp (post_to u p s) v \<noteq> None \<longleftrightarrow> keepalive_sender_mp s v \<noteq> None"
  by (auto simp: post_to_def getSender_def split: option.splits if_splits)

lemma server_inv_channels:
  assumes "world_inv J env tbl w"
    and "token_pool s = token_pool (w_server w)" "challenge_pool s = challenge_pool (w_server w)"
      "file_msg_pool s = file_msg_pool (w_server w)"
    and "\<And>v. keepalive_sender_mp s v \<noteq> None \<Longrightarrow>
      keepalive_sender_mp (w_server w) v \<noteq> None \<or> v = 0 \<or> known_user tbl (w_db w) v"
    and "\<And>v q p. pending_packets s v = Some q \<Longrightarrow> p \<in> set q \<Longrightarrow> is_push env p"
  shows "world_inv J env tbl (w\<lparr>w_server := s\<rparr>)"
  using assms unfolding server_inv_def by (simp del: not_None_eq) metis

lemma server_inv_post_to:
  assumes inv: "world_inv J env tbl w" and p: "is_push env p"
  shows "world_inv J env tbl (w\<lparr>w_server := post_to u p (w_server w)\<rparr>)"
proof (rule server_inv_channels [OF inv])
  fix v q x assume "pending_packets (post_to u p (w_server w)) v = Some q" "x \<in> set q"
  then show "is_push env x"
    using inv p unfolding server_inv_def channels.pending_post by (auto split: if_splits)
qed (auto simp: frame_simps keepalive_dom_post_to simp del: not_None_eq)

lemma server_inv_setKpAliveSender:
  assumes inv: "world_inv J env tbl w" and u: "u = 0 \<or> known_user tbl (w_db w) u"
  shows "world_inv J env tbl (w\<lparr>w_server := setKpAliveSender u fd (w_server w)\<rparr>)"
proof (rule server_inv_channels [OF inv])
  fix v q x assume "pending_packets (setKpAliveSender u fd (w_server w)) v = Some q" "x \<in> set q"
  then show "is_push env x"
    using inv unfolding server_inv_def channels.pending_connect by (auto split: if_splits)
qed (use u in \<open>auto simp: frame_simps keepalive_dom_setKpAliveSender simp del: not_None_eq\<close>)

lemma server_inv_setFileMsg:
  "world_inv J env tbl w \<Longrightarrow> callback_ok tbl (w_db w) (FileMsgCallback i u m) \<Longrightarrow>
   world_inv J env tbl (w\<lparr>w_server := setFileMsg i u m (w_server w)\<rparr>)"
  by (auto simp: server_inv_def frame_simps setFileMsg_def pending_packets_def)

lemma server_inv_delFileMsg:
  "world_inv J env tbl w \<Longrightarrow> world_inv J env tbl (w\<lparr>w_server := delFileMsg i (w_server w)\<rparr>)"
  by (auto simp: server_inv_def frame_simps delFileMsg_eq pending_packets_def)

lemma uid_known:
  "world_inv J env tbl w \<Longrightarrow> getUserIdByToken (w_server w) t = 0 \<or>
     known_user tbl (w_db w) (getUserIdByToken (w_server w) t)"
  using tokens.get_not_default [of "w_server w" t] by (auto simp: server_inv_def)

subsection \<open>Every handler keeps the invariant\<close>

definition keeps_inv ::
    "('a, 'd) env \<Rightarrow> ('d \<Rightarrow> string \<Rightarrow> sql_row list) \<Rightarrow> ('d \<Rightarrow> string \<Rightarrow> column list option) \<Rightarrow>
     ('a, 'd) handled \<Rightarrow> bool" where
  "keeps_inv env tbl sch h \<longleftrightarrow> (\<forall>reply cb w'. h = Inr (reply, cb, w') \<longrightarrow>
     server_inv env tbl sch w' \<and> callback_ok tbl (w_db w') cb)"

lemma keeps_invI:
  "(\<And>reply cb w'. h = Inr (reply, cb, w') \<Longrightarrow>
     server_inv env tbl sch w' \<and> callback_ok tbl (w_db w') cb) \<Longrightarrow> keeps_inv env tbl sch h"
  by (simp add: keeps_inv_def)

context linked_server
begin

text \<open>A handler reads its packet only through the request it unpacks.\<close>

lemma repack:
  "on_RegisterRequest env pkt w = on_RegisterRequest env (new_packet env t (RegisterRequest_body
     (unpacked unpack_Register \<lparr>rq_username = [], rq_rawPassword = []\<rparr> env pkt))) w"
  "on_LoginPreRequest env io pkt w = on_LoginPreRequest env io (new_packet env t (LoginPreRequest_body
     (unpacked unpack_LoginPre \<lparr>lpq_username = []\<rparr> env pkt))) w"
  "on_LoginRequest env io pkt w = on_LoginRequest env io (new_packet env t (LoginRequest_body
     (unpacked unpack_Login \<lparr>lq_username = [], lq_hashPassword = []\<rparr> env pkt))) w"
  "on_SendMessageRequest env io pkt w = on_SendMessageRequest env io (new_packet env t
     (SendMessageRequest_body (unpacked unpack_SendMessage
       \<lparr>smq_token = [], smq_message = default_RawMessage\<rparr> env pkt))) w"
  "on_ContactMessageRequest env pkt w = on_ContactMessageRequest env (new_packet env t
     (ContactMessageRequest_body (unpacked unpack_ContactMessage
       \<lparr>cmq_token = [], cmq_id = 0, cmq_internalId = 0\<rparr> env pkt))) w"
  "on_FileUploadRequest env io pkt w = on_FileUploadRequest env io (new_packet env t
     (FileUploadRequest_body (unpacked unpack_FileUpload
       \<lparr>fuq_token = [], fuq_id = [], fuq_file = default_File, fuq_hash = []\<rparr> env pkt))) w"
  "on_FileDownloadRequest env io pkt w = on_FileDownloadRequest env io (new_packet env t
     (FileDownloadRequest_body (unpacked unpack_FileDownload \<lparr>fdq_token = [], fdq_id = []\<rparr> env pkt))) w"
  by (simp_all add: on_RegisterRequest_def on_LoginPreRequest_def on_LoginRequest_def
      on_SendMessageRequest_def on_ContactMessageRequest_def on_FileUploadRequest_def
      on_FileDownloadRequest_def any.unpack_pack)

lemma accounts_ok_register:
  assumes acc: "accounts_ok env tbl d" and r: "credentials_ok r"
    and h: "SHA256 (env_crypto env) (rq_rawPassword r) = Inr h" and u: "u = make_User 0 (rq_username r) h"
    and new: "accounts_of tbl d' = accounts_of tbl d \<or> (\<exists>i. accounts_of tbl d' =
      (accounts_of tbl d)(usr_username u \<mapsto> make_User i (usr_username u) (usr_password u)))"
  shows "accounts_ok env tbl d'"
proof -
  have "length (c_str (rq_username r)) \<le> 32"
    "\<exists>p. 6 \<le> length p \<and> length p \<le> 32 \<and> SHA256 (env_crypto env) p = Inr h"
    using r h c_str_length [of "rq_username r"] by (auto simp: credentials_ok_def)
  note ok = this
  show ?thesis
    unfolding accounts_ok_def
  proof (intro allI impI)
    fix n x assume "accounts_of tbl d' n = Some x"
    then consider "accounts_of tbl d n = Some x"
      | "n = c_str (rq_username r)" "usr_username x = n" "usr_password x = h"
      using new sha_c_str [OF h] by (auto simp: u make_User_def split: if_splits)
    then show "usr_username x = n \<and> length n \<le> 32 \<and>
        (\<exists>p. 6 \<le> length p \<and> length p \<le> 32 \<and> SHA256 (env_crypto env) p = Inr (usr_password x))"
      using acc ok by cases (simp_all add: accounts_ok_def)
  qed
qed

lemma register_keeps:
  assumes inv: "server_inv env tbl sch w"
  shows "keeps_inv env tbl sch (on_RegisterRequest env pkt w)"
proof (rule keeps_invI)
  define r where "r = unpacked unpack_Register \<lparr>rq_username = [], rq_rawPassword = []\<rparr> env pkt"
  fix reply cb w'
  assume "on_RegisterRequest env pkt w = Inr (reply, cb, w')"
  then have h: "on_RegisterRequest env (new_packet env RegisterRequest (RegisterRequest_body r)) w =
      Inr (reply, cb, w')"
    using repack(1) [of pkt w] by (simp add: r_def)
  have st: "store_inv tbl sch (w_db w)" and acc: "accounts_ok env tbl (w_db w)"
    using inv by (simp_all add: server_inv_def)
  show "server_inv env tbl sch w' \<and> callback_ok tbl (w_db w') cb"
  proof (cases "credentials_ok r")
    case False
    with h inv show ?thesis by (auto simp: on_RegisterRequest_refused)
  next
    case True
    obtain p where p: "SHA256 (env_crypto env) (rq_rawPassword r) = Inr p" using SHA256_inv by blast
    let ?u = "make_User 0 (rq_username r) p"
    obtain b db where c: "createUser (env_sql env) (w_db w) ?u = (b, db)" by fastforce
    have w': "w' = w\<lparr>w_db := db\<rparr>" "cb = NoCallback"
      using h on_RegisterRequest_tried [OF True p c] by auto
    note accept = account_store.create_accepted [OF accounts_contract st, of ?u db]
    have "server_inv env tbl sch (w\<lparr>w_db := db\<rparr>)"
    proof (rule server_inv_grow [OF inv])
      show "store_inv tbl sch db" by (rule account_store.create_inv [OF accounts_contract st c])
      have same: "files_of tbl db = files_of tbl (w_db w)" by (rule createUser_frame [OF st c])
      consider "accounts_of tbl db = accounts_of tbl (w_db w)"
        | i where "accounts_of tbl (w_db w) (usr_username ?u) = None"
          "accounts_of tbl db = (accounts_of tbl (w_db w))(usr_username ?u \<mapsto>
             make_User i (usr_username ?u) (usr_password ?u))"
        using accept account_store.create_refused [OF accounts_contract st, of ?u db] c by (cases b) auto
      note grown = this
      show "extends tbl (w_db w) db"
      proof (cases rule: grown)
        case 1
        then show ?thesis by (intro extends_eq) (simp_all add: same)
      next
        case (2 i)
        then show ?thesis
          by (auto simp: extends_def known_user_def same) (metis option.distinct(1))
      qed
      show "accounts_ok env tbl db"
        by (rule accounts_ok_register [OF acc True p refl]) (use grown in blast)
    qed
    then show ?thesis by (simp add: w')
  qed
qed

lemma account_known: "accounts_of tbl d n = Some u \<Longrightarrow> known_user tbl d (usr_id u)"
  by (auto simp: known_user_def)

lemma login_pre_keeps:
  assumes inv: "server_inv env tbl sch w"
  shows "keeps_inv env tbl sch (on_LoginPreRequest env io pkt w)"
proof (rule keeps_invI)
  fix reply cb w'
  assume "on_LoginPreRequest env io pkt w = Inr (reply, cb, w')"
  note h = this [unfolded repack(2) [of io pkt w LoginPreRequest]]
  have "store_inv tbl sch (w_db w)" using inv by (simp add: server_inv_def)
  from on_LoginPreRequest_Inr [OF this h] show "server_inv env tbl sch w' \<and> callback_ok tbl (w_db w') cb"
    using inv by (auto split: option.splits intro: server_inv_setChallenge account_known)
qed

lemma login_keeps:
  assumes inv: "server_inv env tbl sch w"
  shows "keeps_inv env tbl sch (on_LoginRequest env io pkt w)"
proof (rule keeps_invI)
  fix reply cb w'
  assume "on_LoginRequest env io pkt w = Inr (reply, cb, w')"
  note h = this [unfolded repack(3) [of io pkt w LoginRequest]]
  have st: "store_inv tbl sch (w_db w)" using inv by (simp add: server_inv_def)
  have tok: "server_inv env tbl sch (w\<lparr>w_server := delChallengeMp u (setUserIdByToken t u (w_server w))\<rparr>)"
    if "known_user tbl (w_db w) u" for t u
    using server_inv_delChallenge [OF server_inv_token [OF inv that, of t], of u] by simp
  from on_LoginRequest_Inr [OF st h] show "server_inv env tbl sch w' \<and> callback_ok tbl (w_db w') cb"
    using inv
    by (auto split: option.splits if_splits intro: tok server_inv_delChallenge account_known)
qed

lemma channel_keeps:
  "server_inv env tbl sch w \<Longrightarrow> keeps_inv env tbl sch (on_SetupChannelRequest env pkt w)"
  using uid_known [of "store_inv tbl sch" env tbl w] by (auto simp: keeps_inv_def on_SetupChannelRequest_def Let_def)

lemma contact_keeps:
  assumes inv: "server_inv env tbl sch w"
  shows "keeps_inv env tbl sch (on_ContactMessageRequest env pkt w)"
proof (rule keeps_invI)
  fix reply cb w'
  assume "on_ContactMessageRequest env pkt w = Inr (reply, cb, w')"
  note h = this [unfolded repack(5) [of pkt w ContactMessageRequest]]
  show "server_inv env tbl sch w' \<and> callback_ok tbl (w_db w') cb"
    by (rule on_ContactMessageRequest_Inr [OF h]) (simp add: inv)
qed

lemma send_keeps:
  assumes inv: "server_inv env tbl sch w"
  shows "keeps_inv env tbl sch (on_SendMessageRequest env io pkt w)"
proof (rule keeps_invI)
  fix reply cb w'
  assume "on_SendMessageRequest env io pkt w = Inr (reply, cb, w')"
  note h = this [unfolded repack(4) [of io pkt w SendMessageRequest]]
  have st: "store_inv tbl sch (w_db w)" using inv by (simp add: server_inv_def)
  note msg_frame = createMsg_frame [OF st]
  show "server_inv env tbl sch w' \<and> callback_ok tbl (w_db w') cb"
  proof (cases rule: on_SendMessageRequest_Inr [OF st h])
    case 1
    then show ?thesis using inv by simp
  next
    case (2 m db)
    have "server_inv env tbl sch (w\<lparr>w_db := db\<rparr>)"
      by (rule server_inv_db [OF inv, OF send_append(2) [OF st 2(7)]]) (simp_all add: msg_frame [OF 2(7)])
    then show ?thesis by (simp add: 2)
  next
    case (3 m db i db')
    have st1: "store_inv tbl sch db" by (rule send_append(2) [OF st 3(7)])
    note f = file_store.create_some [OF files_contract st1 3(8)]
    have "server_inv env tbl sch (w\<lparr>w_db := db'\<rparr>)"
      by (rule server_inv_db [OF inv, OF file_store.create_inv [OF files_contract st1 3(8)]])
        (simp_all add: msg_frame [OF 3(7)] createFile_frame [OF st1 3(8)] f)
    moreover have "known_user tbl db' (raw_to (smq_message
        (unpacked unpack_SendMessage \<lparr>smq_token = [], smq_message = default_RawMessage\<rparr> env pkt)))"
      using 3(5) by (simp add: known_user_def msg_frame [OF 3(7)] createFile_frame [OF st1 3(8)])
    ultimately show ?thesis by (simp add: 3 f with_file_id_def)
  next
    case (4 m db db')
    have st1: "store_inv tbl sch db" by (rule send_append(2) [OF st 4(7)])
    have "server_inv env tbl sch (w\<lparr>w_db := db'\<rparr>)"
      by (rule server_inv_db [OF inv, OF file_store.create_inv [OF files_contract st1 4(8)]])
        (simp_all add: msg_frame [OF 4(7)] createFile_frame [OF st1 4(8)]
          file_store.create_none [OF files_contract st1 4(8)])
    then show ?thesis by (simp add: 4)
  qed
qed

lemma upload_keeps:
  assumes inv: "server_inv env tbl sch w"
  shows "keeps_inv env tbl sch (on_FileUploadRequest env io pkt w)"
proof (rule keeps_invI)
  fix reply cb w'
  assume "on_FileUploadRequest env io pkt w = Inr (reply, cb, w')"
  note h = this [unfolded repack(6) [of io pkt w FileUploadRequest]]
  have st: "store_inv tbl sch (w_db w)" using inv by (simp add: server_inv_def)
  show "server_inv env tbl sch w' \<and> callback_ok tbl (w_db w') cb"
  proof (cases rule: on_FileUploadRequest_Inr [OF st h])
    case 1
    then show ?thesis using inv by simp
  next
    case (2 f ex dsk success dsk' updated db)
    note up = update_results [OF st 2(6)]
    have "server_inv env tbl sch (w\<lparr>w_disk := dsk', w_db := db\<rparr>)"
      by (rule server_inv_db [where J = "store_inv tbl sch", OF _ up(1)]) (simp_all add: inv up(2,4))
    then show ?thesis by (simp add: 2(7,9))
  qed
qed

lemma download_keeps:
  assumes inv: "server_inv env tbl sch w"
  shows "keeps_inv env tbl sch (on_FileDownloadRequest env io pkt w)"
proof (rule keeps_invI)
  fix reply cb w'
  assume "on_FileDownloadRequest env io pkt w = Inr (reply, cb, w')"
  note h = this [unfolded repack(7) [of io pkt w FileDownloadRequest]]
  have st: "store_inv tbl sch (w_db w)" using inv by (simp add: server_inv_def)
  show "server_inv env tbl sch w' \<and> callback_ok tbl (w_db w') cb"
    by (cases rule: on_FileDownloadRequest_Inr [OF st h]) (use inv in simp_all)
qed

lemma status_keeps:
  "server_inv env tbl sch w \<Longrightarrow> keeps_inv env tbl sch (on_ServerStatusRequest env w)"
  "server_inv env tbl sch w \<Longrightarrow> keeps_inv env tbl sch (on_ServerStatusUpdateRequest env w)"
  by (simp_all add: keeps_inv_def on_ServerStatusRequest_def on_ServerStatusUpdateRequest_def)

lemmas handlers_keep = status_keeps register_keeps login_pre_keeps login_keeps channel_keeps
  send_keeps upload_keeps download_keeps contact_keeps

lemma handle_packet_keeps:
  assumes inv: "server_inv env tbl sch w" and h: "handle_packet env io pkt w = Inr (Some (reply, cb, w'))"
  shows "server_inv env tbl sch w' \<and> callback_ok tbl (w_db w') cb"
proof -
  obtain t where t: "packet_type_of_id (packetId pkt) = Some t"
    using h by (cases "packet_type_of_id (packetId pkt)") (auto simp: handle_packet_def)
  then show ?thesis
    using h by (cases t) (auto simp: handle_packet_def
        dest!: handlers_keep [OF inv, unfolded keeps_inv_def, rule_format])
qed

lemma run_callback_keeps:
  assumes inv: "server_inv env tbl sch w" and cb: "callback_ok tbl (w_db w) cb"
    and r: "run_callback env io fd cb w = Inr w'"
  shows "server_inv env tbl sch w'"
proof (cases cb)
  case NoCallback
  with inv r show ?thesis by (simp add: run_callback_defs)
next
  case (SetupChannelCallback u)
  let ?w = "w\<lparr>w_server := setKpAliveSender u fd (w_server w)\<rparr>"
  obtain b v where w': "w' = (?w\<lparr>w_server := post_to u (new_packet env ContactListRequest b) (w_server ?w)\<rparr>)
      \<lparr>w_van := v\<rparr>"
    using r SetupChannelCallback by (auto simp: run_callback_defs Let_def)
  have "server_inv env tbl sch ?w"
    using server_inv_setKpAliveSender [OF inv] cb SetupChannelCallback by simp
  then show ?thesis
    unfolding w' server_inv_frame by (rule server_inv_post_to) (simp add: is_push_def)
next
  case (FileMsgCallback i u m)
  with inv cb r show ?thesis by (auto simp: run_callback_defs intro: server_inv_setFileMsg)
next
  case (ForwardCallback u m)
  with inv show ?thesis
    using run_forward [of io fd u m w w'] r by (auto simp: is_push_def intro: server_inv_post_to)
next
  case (FileUploadedCallback i)
  have del: "server_inv env tbl sch (w\<lparr>w_server := delFileMsg i (w_server w)\<rparr>)"
    by (rule server_inv_delFileMsg [OF inv])
  have "server_inv env tbl sch (w\<lparr>w_server := post_to u p (delFileMsg i (w_server w))\<rparr>)"
    if "is_push env p" for u p
    using server_inv_post_to [OF del that, of u] by simp
  then show ?thesis
    using r inv del FileUploadedCallback
    by (auto simp: run_callback_defs Let_def is_push_def split: prod.splits if_splits)
qed

lemma receive_request_cases:
  assumes "receive_request env io w = Inr (answer, w')"
  obtains (quiet) v where "answer = None" "w' = w\<lparr>w_van := v\<rparr>"
  | (handled) v pkt reply cb where "answer = Some (reply, cb)"
      "handle_packet env io pkt (w\<lparr>w_van := v\<rparr>) = Inr (Some (reply, cb, w'))"
  using assms by (auto simp: receive_request_def Let_def split: option.splits if_splits)

lemma receive_keeps:
  assumes inv: "server_inv env tbl sch w" and r: "receive_request env io w = Inr (answer, w')"
  shows "server_inv env tbl sch w' \<and>
    (case answer of None \<Rightarrow> True | Some (reply, cb) \<Rightarrow> callback_ok tbl (w_db w') cb)"
proof (cases rule: receive_request_cases [OF r])
  case (1 v)
  then show ?thesis using inv by simp
next
  case (2 v pkt reply cb)
  have "server_inv env tbl sch (w\<lparr>w_van := v\<rparr>)" using inv by simp
  from handle_packet_keeps [OF this 2(2)] show ?thesis by (simp add: 2(1))
qed

lemma send_reply_keeps:
  assumes inv: "server_inv env tbl sch w" and cb: "callback_ok tbl (w_db w) cb"
    and r: "send_reply env io fd reply cb w = Inr w'"
  shows "server_inv env tbl sch w'"
proof -
  have "server_inv env tbl sch (w\<lparr>w_van := v\<rparr>)" "callback_ok tbl (w_db (w\<lparr>w_van := v\<rparr>)) cb" for v
    using inv cb by simp_all
  note run = run_callback_keeps [OF this]
  show ?thesis
    using r inv run by (auto simp: send_reply_def Let_def split: if_splits)
qed

lemma channel_step_keeps:
  assumes inv: "server_inv env tbl sch w" and r: "run_once env io uid w = Inr (Some w')"
  shows "server_inv env tbl sch w'"
proof (rule run_once_Some [OF r])
  fix sdr pkt q v
  assume a: "keepalive_sender_mp (w_server w) uid = Some sdr" "items (msg_queue sdr) = pkt # items q"
    "w' = w\<lparr>w_server := (w_server w)\<lparr>keepalive_sender_mp :=
        (keepalive_sender_mp (w_server w))(uid \<mapsto> sdr\<lparr>msg_queue := q\<rparr>)\<rparr>, w_van := v\<rparr>"
  have p: "is_push env x" if "pending_packets (w_server w) u = Some ps" "x \<in> set ps" for u ps x
    using inv that by (auto simp: server_inv_def)
  have q: "\<forall>x \<in> set (items q). is_push env x"
    using p [of uid "items (msg_queue sdr)"] a(1,2) by (simp add: pending_packets_def)
  have "server_inv env tbl sch (w\<lparr>w_server := (w_server w)\<lparr>keepalive_sender_mp :=
        (keepalive_sender_mp (w_server w))(uid \<mapsto> sdr\<lparr>msg_queue := q\<rparr>)\<rparr>\<rparr>)"
    by (rule server_inv_channels [OF inv])
      (use a(1) q p in \<open>auto simp: pending_packets_def split: if_splits\<close>)
  then have "server_inv env tbl sch ((w\<lparr>w_server := (w_server w)\<lparr>keepalive_sender_mp :=
        (keepalive_sender_mp (w_server w))(uid \<mapsto> sdr\<lparr>msg_queue := q\<rparr>)\<rparr>\<rparr>)\<lparr>w_van := v\<rparr>)" by simp
  then show ?thesis by (simp add: a(3))
qed

lemma accept_step_keeps:
  assumes inv: "server_inv env tbl sch w" and r: "on_event e (Some (w_server w), w_van w) = Inr (Some s, v)"
  shows "server_inv env tbl sch (w\<lparr>w_server := s, w_van := v\<rparr>)"
proof -
  have s: "s = (w_server w)\<lparr>revc_socket_pool := revc_socket_pool s\<rparr>" using on_event_Inr [OF r] by blast
  have "server_inv env tbl sch ((w\<lparr>w_server := (w_server w)\<lparr>revc_socket_pool := revc_socket_pool s\<rparr>\<rparr>)\<lparr>w_van := v\<rparr>)"
    using inv by simp
  then show ?thesis by (subst s) simp
qed

text \<open>Callbacks that wait stay well formed while the database grows.\<close>

lemma callback_ok_extends: "callback_ok tbl d cb \<Longrightarrow> extends tbl d d' \<Longrightarrow> callback_ok tbl d' cb"
  by (cases cb) (auto simp: extends_def)

end

definition system_inv ::
    "('a, 'd) env \<Rightarrow> ('d \<Rightarrow> string \<Rightarrow> sql_row list) \<Rightarrow> ('d \<Rightarrow> string \<Rightarrow> column list option) \<Rightarrow>
     ('a, 'd) system \<Rightarrow> bool" where
  "system_inv env tbl sch s \<longleftrightarrow>
     server_inv env tbl sch (sys_world s) \<and> length (sys_busy s) \<le> revc_socket_pool_thread_num \<and>
     (\<forall>(fd, reply, cb) \<in> set (sys_busy s). callback_ok tbl (w_db (sys_world s)) cb)"

text \<open>An example: a started server with a client's socket in the workers' queue.\<close>

definition waiting_world :: "(string, refdb) world" where
  "waiting_world = start_world\<lparr>w_van := (w_van start_world)
     \<lparr>RecvSocketQueue := Push (RecvSocketQueue (w_van start_world)) 5\<rparr>\<rparr>"

lemma waiting_pop: "WaitAndPop (RecvSocketQueue (w_van waiting_world)) = Some (5, empty_queue)"
  by (simp add: WaitAndPop_Some_iff empty_queue_def waiting_world_def start_world_def)

subsection \<open>A descriptor that comes back\<close>

text \<open>
  C40: After a failed delivery has closed the socket of a user's channel, the sender keeps its number: when
  the kernel gives the number to the next connection, whoever made it, and the accepting loop has
  added it, the user's next packet is sent on that connection, in full. No request came from it.
\<close>

theorem reused_descriptor_receives:
  assumes q: "pending_packets (w_server w) u = Some (p1 # p2 # rest)" and fd: "fd_of (w_server w) u = Some fd"
    and first: "run_once env io1 u w = Inr (Some w1)" and reset: "io_recv io1 = RecvFails # rs"
    and acc: "on_event e (Some (w_server w1), w_van w1) = Inr (Some s, v)"
      "ev_fd e = van_socket (w_van w1)" "acc_socket e = fd" "0 \<le> sint fd"
    and second: "run_once env io2 u (w1\<lparr>w_server := s, w_van := v\<rparr>) = Inr (Some w2)"
    and sends: "SendFails \<notin> set (io_send io2)"
  shows "\<exists>out n k. van_calls (w_van w2) = van_calls (w_van w) @ CallSend fd out # replicate (Suc n) (CallClose fd) @
      [CallEpollAdd fd, CallSend fd (SerializeToArray (env_wire env) p2)] @ replicate k (CallClose fd)"
proof (rule run_once_effect [OF first])
  fix pkt rest1 fd1 out failed unacked
  assume 1: "pending_packets (w_server w) u = Some (pkt # rest1)" "fd_of (w_server w) u = Some fd1"
    "pending_packets (w_server w1) = (pending_packets (w_server w))(u \<mapsto> rest1)"
    "fd_of (w_server w1) = fd_of (w_server w)"
    "unacked \<longleftrightarrow> (\<exists>n p. RecvMesg (env_wire env) (io_recv io1) = Inr (n, p) \<and> n < 0)"
    "van_calls (w_van w1) = van_calls (w_van w) @ CallSend fd1 out #
       replicate (of_bool failed + of_bool unacked) (CallClose fd1)"
  have unacked using 1(5) by (simp add: reset RecvMesg_def)
  then have c1: "van_calls (w_van w1) = van_calls (w_van w) @ CallSend fd out # replicate (Suc (of_bool failed)) (CallClose fd)"
    using 1(2,6) fd by simp
  have p: "pending_packets (w_server w1) u = Some (p2 # rest)" "fd_of (w_server w1) u = Some fd"
    using 1 q fd by simp_all
  have s: "s = (w_server w1)\<lparr>revc_socket_pool := revc_socket_pool s\<rparr>"
    and c2: "van_calls v = van_calls (w_van w1) @ [CallEpollAdd fd]"
    using on_event_Inr [OF acc(1)] acc(2-4) by (simp_all add: event_calls_def)
  have s_sel: "keepalive_sender_mp s = keepalive_sender_mp (w_server w1)" by (subst s) simp
  then have ps: "pending_packets s u = Some (p2 # rest)" "fd_of s u = Some fd"
    using p by (simp_all add: pending_packets_def fd_of_def)
  show ?thesis
  proof (rule run_once_effect [OF second])
    fix pkt2 rest2 fd2 out2 failed2 unacked2
    assume 2: "pending_packets (w_server (w1\<lparr>w_server := s, w_van := v\<rparr>)) u = Some (pkt2 # rest2)"
      "fd_of (w_server (w1\<lparr>w_server := s, w_van := v\<rparr>)) u = Some fd2"
      "failed2 \<longleftrightarrow> out2 \<noteq> SerializeToArray (env_wire env) pkt2"
      "failed2 \<Longrightarrow> SendFails \<in> set (io_send io2) \<and> (\<exists>k < length (SerializeToArray (env_wire env) pkt2).
         out2 = take k (SerializeToArray (env_wire env) pkt2))"
      "van_calls (w_van w2) = van_calls (w_van (w1\<lparr>w_server := s, w_van := v\<rparr>)) @ CallSend fd2 out2 #
         replicate (of_bool failed2 + of_bool unacked2) (CallClose fd2)"
    have "\<not> failed2" using 2(4) sends by blast
    then have "van_calls (w_van w2) = van_calls (w_van w) @ CallSend fd out # replicate (Suc (of_bool failed)) (CallClose fd) @
        [CallEpollAdd fd, CallSend fd (SerializeToArray (env_wire env) p2)] @ replicate (of_bool unacked2) (CallClose fd)"
      using 2(1,2,3,5) ps by (simp add: c1 c2)
    then show ?thesis by blast
  qed
qed

theorem reused_descriptor_receives_witness:
  "\<exists>w1 s v w2 out n k. run_once ref_env (quiet_io\<lparr>io_send := [SendFails], io_recv := [RecvFails]\<rparr>) 1
       (queued_world\<lparr>w_server := post_to 1 note_packet (w_server queued_world)\<rparr>) = Inr (Some w1) \<and>
     on_event (example_event 3) (Some (w_server w1), w_van w1) = Inr (Some s, v) \<and>
     run_once ref_env quiet_io 1 (w1\<lparr>w_server := s, w_van := v\<rparr>) = Inr (Some w2) \<and>
     van_calls (w_van w2) = CallSend 9 out # replicate (Suc n) (CallClose 9) @
       [CallEpollAdd 9, CallSend 9 (SerializeToArray plain_wire note_packet)] @ replicate k (CallClose 9)"
proof -
  let ?w = "queued_world\<lparr>w_server := post_to 1 note_packet (w_server queued_world)\<rparr>"
  let ?io = "quiet_io\<lparr>io_send := [SendFails], io_recv := [RecvFails]\<rparr>"
  have q: "pending_packets (w_server ?w) 1 = Some [note_packet, note_packet]"
    by (simp add: channels.pending_post)
  have fd: "fd_of (w_server ?w) 1 = Some 9"
    using queued_world_sel(2) by (simp add: fd_of_def sender_fd_post_to)
  obtain sdr where sdr: "keepalive_sender_mp (w_server ?w) 1 = Some sdr" "items (msg_queue sdr) = [note_packet, note_packet]"
    using q by (auto simp: pending_packets_def)
  have pop: "WaitAndPop (msg_queue sdr) = Some (note_packet, \<lparr>items = [note_packet]\<rparr>)"
    using sdr(2) by (simp add: WaitAndPop_Some_iff)
  have len: "length (SerializeToArray plain_wire note_packet) \<le> kMaxMessageSize" "SerializeToArray plain_wire note_packet \<noteq> []"
    using note_length status_length(2) by (simp_all add: kMaxMessageSize_def)
  then have snd: "SendMesg plain_wire note_packet [SendFails] = Inr (-1, [], [])" by (simp add: SendMesg_def Let_def)
  have "\<exists>w1. run_once ref_env ?io 1 ?w = Inr (Some w1) \<and> van_socket (w_van w1) = van_socket (w_van ?w)"
    using sdr pop snd by (simp add: run_once_def deliver_def Van_Send_def Van_Recv_def RecvMesg_def close_fd_eq Let_def log_call_def)
  then obtain w1 where 1: "run_once ref_env ?io 1 ?w = Inr (Some w1)" "van_socket (w_van w1) = 3"
    by (auto simp: queued_world_def start_world_def)
  obtain s v where acc: "on_event (example_event 3) (Some (w_server w1), w_van w1) = Inr (Some s, v)"
    using 1(2) by (auto simp: on_event_def accept_connection_def example_event_def Let_def)
  have "pending_packets (w_server w1) 1 = Some [note_packet]"
    by (rule run_once_effect [OF 1(1)]) (use q in auto)
  moreover have "s = (w_server w1)\<lparr>revc_socket_pool := revc_socket_pool s\<rparr>" using on_event_Inr [OF acc] by blast
  then have "keepalive_sender_mp s = keepalive_sender_mp ((w_server w1)\<lparr>revc_socket_pool := revc_socket_pool s\<rparr>)"
    by (rule arg_cong)
  ultimately have p: "pending_packets (w_server (w1\<lparr>w_server := s, w_van := v\<rparr>)) 1 = Some [note_packet]"
    by (simp add: pending_packets_def)
  obtain rest where "SendMesg (env_wire ref_env) note_packet (io_send quiet_io) =
      Inr (int (length (SerializeToArray plain_wire note_packet)), SerializeToArray plain_wire note_packet, rest)"
    using SendMesg_ok [of plain_wire note_packet "io_send quiet_io"] note_length
    by (auto simp: kMaxMessageSize_def)
  then have "\<exists>w2. run_once ref_env quiet_io 1 (w1\<lparr>w_server := s, w_van := v\<rparr>) = Inr (Some w2)"
    by (rule run_once_total [OF p]) (simp add: quiet_recv)
  then obtain w2 where 2: "run_once ref_env quiet_io 1 (w1\<lparr>w_server := s, w_van := v\<rparr>) = Inr (Some w2)" by blast
  have "van_calls (w_van ?w) = []" by simp
  with reused_descriptor_receives [OF q fd 1(1) _ acc _ _ _ 2] 1 2 acc show ?thesis
    by (simp add: example_event_def)
qed

end
