(* ===== verification/Chat_Spec.thy ===== *)
theory Chat_Spec
  imports Messages Db_Access "HOL-Library.Sublist"
begin

text \<open>
  What the server promises, without database, sockets or threads: a chat service as a labelled
  transition system, and the locale that carries a property of such a system to a program that
  simulates it.
\<close>

subsection \<open>Simulations\<close>

text \<open>\<open>moves\<close> may leave out changes the abstract system does not see.\<close>

locale simulation =
  fixes cstep :: "'c \<Rightarrow> 'c \<Rightarrow> bool"
    and astep :: "'a \<Rightarrow> 'a \<Rightarrow> bool"
    and absf :: "'c \<Rightarrow> 'a"
    and inv :: "'c \<Rightarrow> bool"
  assumes step_inv: "inv c \<Longrightarrow> cstep c c' \<Longrightarrow> inv c'"
    and step_sim: "inv c \<Longrightarrow> cstep c c' \<Longrightarrow> absf c' = absf c \<or> astep (absf c) (absf c')"
begin

lemma reach_inv: "cstep\<^sup>*\<^sup>* c c' \<Longrightarrow> inv c \<Longrightarrow> inv c'"
  by (induction rule: rtranclp_induct) (auto intro: step_inv)

lemma reach_sim: "cstep\<^sup>*\<^sup>* c c' \<Longrightarrow> inv c \<Longrightarrow> astep\<^sup>*\<^sup>* (absf c) (absf c')"
proof (induction rule: rtranclp_induct)
  case (step c1 c2)
  then have "astep\<^sup>*\<^sup>* (absf c) (absf c1)" "inv c1" by (auto intro: reach_inv)
  with step_sim [OF _ step(2)] show ?case by (auto intro: rtranclp.rtrancl_into_rtrancl)
qed simp

end

subsection \<open>The chat service\<close>

record chat =
  ch_accounts :: "string \<Rightarrow> User option"
  ch_challenges :: "int32 \<Rightarrow> string option"
  ch_sessions :: "string \<Rightarrow> int32 option"
  ch_convs :: "int32 \<Rightarrow> int32 \<Rightarrow> Message list"
  ch_files :: "string \<Rightarrow> FileStorage option"

text \<open>The user of a token, 0 for nobody, and the challenge an answer must fit.\<close>

definition session_user :: "chat \<Rightarrow> string \<Rightarrow> int32" where
  "session_user c t = (if t = [] then 0 else case ch_sessions c t of Some u \<Rightarrow> u | None \<Rightarrow> 0)"

definition challenge_for :: "chat \<Rightarrow> int32 \<Rightarrow> string" where
  "challenge_for c u = (case ch_challenges c u of Some x \<Rightarrow> x | None \<Rightarrow> [])"

definition is_user :: "chat \<Rightarrow> int32 \<Rightarrow> bool" where
  "is_user c i \<longleftrightarrow> (\<exists>n u. ch_accounts c n = Some u \<and> usr_id u = i)"

text \<open>
  \<open>H\<close> is the hash. A request labels the change it may cause; it may also be refused. A registration
  uses a free name; a login presents the hash of the stored password and the challenge, and uses
  the challenge up whether or not it succeeds; a message is appended by the user its sender field
  names, to a user that exists, under the next number of its conversation; it registers a fresh
  file or none; an upload changes the metadata of one registered file.
\<close>

inductive chat_step :: "(string \<Rightarrow> string run) \<Rightarrow> body \<Rightarrow> chat \<Rightarrow> chat \<Rightarrow> bool" for H where
  refused: "chat_step H b c c"
| registered: "3 \<le> length (rq_username r) \<Longrightarrow> length (rq_username r) \<le> 32 \<Longrightarrow>
    6 \<le> length (rq_rawPassword r) \<Longrightarrow> length (rq_rawPassword r) \<le> 32 \<Longrightarrow>
    ch_accounts c (c_str (rq_username r)) = None \<Longrightarrow> H (rq_rawPassword r) = Inr h \<Longrightarrow>
    chat_step H (RegisterRequest_body r) c
      (c\<lparr>ch_accounts := (ch_accounts c)(c_str (rq_username r) \<mapsto> make_User i (rq_username r) h)\<rparr>)"
| challenged: "ch_accounts c (c_str (lpq_username q)) = Some u \<Longrightarrow>
    length x = 32 \<Longrightarrow>
    chat_step H (LoginPreRequest_body q) c
      (c\<lparr>ch_challenges := (ch_challenges c)(usr_id u \<mapsto> x)\<rparr>)"
| logged_in: "ch_accounts c (c_str (lq_username l)) = Some u \<Longrightarrow>
    H (usr_password u @ challenge_for c (usr_id u)) = Inr (lq_hashPassword l) \<Longrightarrow>
    chat_step H (LoginRequest_body l) c
      (c\<lparr>ch_challenges := (ch_challenges c)(usr_id u := None),
         ch_sessions := (ch_sessions c)(t \<mapsto> usr_id u)\<rparr>)"
| login_failed: "ch_accounts c (c_str (lq_username l)) = Some u \<Longrightarrow>
    chat_step H (LoginRequest_body l) c (c\<lparr>ch_challenges := (ch_challenges c)(usr_id u := None)\<rparr>)"
| posted: "session_user c (smq_token s) = a \<Longrightarrow> raw_from (smq_message s) = a \<Longrightarrow>
    raw_to (smq_message s) = z \<Longrightarrow> is_user c z \<Longrightarrow> msg_message m = smq_message s \<Longrightarrow>
    sint (msg_internalId m) = int (length (ch_convs c a z)) + 1 \<Longrightarrow>
    fs = ch_files c \<or>
      (\<exists>i. ch_files c i = None \<and> fs = (ch_files c)(i \<mapsto> \<lparr>fs_id = i, fs_name = [], fs_hash = []\<rparr>)) \<Longrightarrow>
    chat_step H (SendMessageRequest_body s) c
      (c\<lparr>ch_convs := (ch_convs c)(a := (ch_convs c a)(z := ch_convs c a z @ [m])), ch_files := fs\<rparr>)"
| uploaded: "session_user c (fuq_token f) \<noteq> 0 \<Longrightarrow> i = c_str (fuq_id f) \<Longrightarrow> ch_files c i \<noteq> None \<Longrightarrow>
    chat_step H (FileUploadRequest_body f) c
      (c\<lparr>ch_files := (ch_files c)
         (i \<mapsto> \<lparr>fs_id = i, fs_name = file_name (fuq_file f), fs_hash = fuq_hash f\<rparr>)\<rparr>)"

inductive_cases chat_stepE: "chat_step H b c c'"

definition chat_move :: "(string \<Rightarrow> string run) \<Rightarrow> chat \<Rightarrow> chat \<Rightarrow> bool" where
  "chat_move H c c' \<longleftrightarrow> (\<exists>b. chat_step H b c c')"

subsection \<open>What the service never does\<close>

text \<open>Later states keep every account, every registered file, every session's token and every message.\<close>

definition keeps_history :: "chat \<Rightarrow> chat \<Rightarrow> bool" where
  "keeps_history c c' \<longleftrightarrow>
     ch_accounts c \<subseteq>\<^sub>m ch_accounts c' \<and> dom (ch_files c) \<subseteq> dom (ch_files c') \<and>
     dom (ch_sessions c) \<subseteq> dom (ch_sessions c') \<and>
     (\<forall>a b. prefix (ch_convs c a b) (ch_convs c' a b))"

lemma keeps_history_refl [simp]: "keeps_history c c"
  by (simp add: keeps_history_def)

lemma keeps_history_trans: "keeps_history c c' \<Longrightarrow> keeps_history c' c'' \<Longrightarrow> keeps_history c c''"
  unfolding keeps_history_def by (meson map_le_trans prefix_order.trans subset_trans)

lemma chat_step_history: "chat_step H b c c' \<Longrightarrow> keeps_history c c'"
  by (erule chat_stepE) (auto simp: keeps_history_def map_le_def)

lemma chat_moves_history: "(chat_move H)\<^sup>*\<^sup>* c c' \<Longrightarrow> keeps_history c c'"
  by (induction rule: rtranclp_induct)
    (auto simp: chat_move_def intro: keeps_history_trans chat_step_history)

text \<open>A session appears only by a login with the right answer; a message only by its sender.\<close>

lemma chat_step_session:
  assumes "chat_step H b c c'" and "ch_sessions c' t = Some i" and "ch_sessions c t \<noteq> Some i"
  shows "\<exists>l u. b = LoginRequest_body l \<and> ch_accounts c (c_str (lq_username l)) = Some u \<and> usr_id u = i \<and>
    H (usr_password u @ challenge_for c i) = Inr (lq_hashPassword l)"
  using assms by (auto elim!: chat_stepE split: if_splits)

lemma chat_step_message:
  assumes "chat_step H b c c'" and "m \<in> set (ch_convs c' a z)" and "m \<notin> set (ch_convs c a z)"
  shows "\<exists>s. b = SendMessageRequest_body s \<and> smq_message s = msg_message m \<and>
    session_user c (smq_token s) = raw_from (msg_message m)"
  using assms by (auto elim!: chat_stepE split: if_splits)

end
