(* ===== verification/Chat_Refinement.thy ===== *)
theory Chat_Refinement
  imports Server_System Chat_Spec
begin

text \<open>
  The server implements the chat service of \<open>Chat_Spec\<close>: the abstraction \<open>chat_of\<close> reads the service's
  state off the database and the pools, each handler takes a step that its request allows, and so
  every interleaving of requests, channel iterations and connections is a run of the service.
\<close>

definition chat_of :: "('d \<Rightarrow> string \<Rightarrow> sql_row list) \<Rightarrow> ('a, 'd) world \<Rightarrow> chat" where
  "chat_of tbl w =
     \<lparr>ch_accounts = accounts_of tbl (w_db w), ch_challenges = challenge_pool (w_server w),
      ch_sessions = token_pool (w_server w), ch_convs = conv_of tbl (w_db w),
      ch_files = files_of tbl (w_db w)\<rparr>"

lemma chat_of_sel [simp]:
  "ch_accounts (chat_of tbl w) = accounts_of tbl (w_db w)"
  "ch_challenges (chat_of tbl w) = challenge_pool (w_server w)"
  "ch_sessions (chat_of tbl w) = token_pool (w_server w)"
  "ch_convs (chat_of tbl w) = conv_of tbl (w_db w)" "ch_files (chat_of tbl w) = files_of tbl (w_db w)"
  "session_user (chat_of tbl w) t = getUserIdByToken (w_server w) t"
  "challenge_for (chat_of tbl w) i = getChallengeMp (w_server w) i"
  "is_user (chat_of tbl w) i = known_user tbl (w_db w) i"
  by (simp_all add: chat_of_def session_user_def challenge_for_def is_user_def known_user_def
      getUserIdByToken_def getChallengeMp_def split: option.split)

lemma chat_of_frame [simp]:
  "chat_of tbl (w\<lparr>w_van := v\<rparr>) = chat_of tbl w" "chat_of tbl (w\<lparr>w_disk := k\<rparr>) = chat_of tbl w"
  by (simp_all add: chat_of_def)

lemma chat_of_server:
  "challenge_pool s = challenge_pool (w_server w) \<Longrightarrow> token_pool s = token_pool (w_server w) \<Longrightarrow>
   chat_of tbl (w\<lparr>w_server := s\<rparr>) = chat_of tbl w"
  by (simp add: chat_of_def)

text \<open>The request in a packet; the messages without fields never change anything.\<close>

definition request_of :: "('a, 'd) env \<Rightarrow> 'a Packet \<Rightarrow> body" where
  "request_of env pkt =
     (case packet_type_of_id (packetId pkt) of
        Some RegisterRequest \<Rightarrow> RegisterRequest_body
          (unpacked unpack_Register \<lparr>rq_username = [], rq_rawPassword = []\<rparr> env pkt)
      | Some LoginPreRequest \<Rightarrow> LoginPreRequest_body
          (unpacked unpack_LoginPre \<lparr>lpq_username = []\<rparr> env pkt)
      | Some LoginRequest \<Rightarrow> LoginRequest_body
          (unpacked unpack_Login \<lparr>lq_username = [], lq_hashPassword = []\<rparr> env pkt)
      | Some SendMessageRequest \<Rightarrow> SendMessageRequest_body
          (unpacked unpack_SendMessage \<lparr>smq_token = [], smq_message = default_RawMessage\<rparr> env pkt)
      | Some FileUploadRequest \<Rightarrow> FileUploadRequest_body
          (unpacked unpack_FileUpload
            \<lparr>fuq_token = [], fuq_id = [], fuq_file = default_File, fuq_hash = []\<rparr> env pkt)
      | _ \<Rightarrow> ServerAckResponse_body)"

definition allowed ::
    "('a, 'd) env \<Rightarrow> ('d \<Rightarrow> string \<Rightarrow> sql_row list) \<Rightarrow> body \<Rightarrow> ('a, 'd) world \<Rightarrow> ('a, 'd) handled \<Rightarrow> bool" where
  "allowed env tbl b w h \<longleftrightarrow> (\<forall>reply cb w'. h = Inr (reply, cb, w') \<longrightarrow>
     chat_step (SHA256 (env_crypto env)) b (chat_of tbl w) (chat_of tbl w'))"

lemma allowed_same: "(\<And>reply cb w'. h = Inr (reply, cb, w') \<Longrightarrow> chat_of tbl w' = chat_of tbl w) \<Longrightarrow>
    allowed env tbl b w h"
  by (simp add: allowed_def chat_step.refused)

context linked_server
begin

text \<open>To show a step: say what the state becomes, with the fields that change.\<close>

lemma chat_stepI:
  "chat_step H b (chat_of tbl w) c \<Longrightarrow> c = chat_of tbl w' \<Longrightarrow> chat_step H b (chat_of tbl w) (chat_of tbl w')"
  by simp

lemma register_allowed:
  assumes st: "store_inv tbl sch (w_db w)"
  shows "allowed env tbl (RegisterRequest_body r) w
    (on_RegisterRequest env (new_packet env t (RegisterRequest_body r)) w)"
proof (cases "credentials_ok r")
  case False
  then show ?thesis by (simp add: on_RegisterRequest_refused allowed_def chat_step.refused)
next
  case True
  obtain p where p: "SHA256 (env_crypto env) (rq_rawPassword r) = Inr p" using SHA256_inv by blast
  let ?u = "make_User 0 (rq_username r) p"
  obtain b db where c: "createUser (env_sql env) (w_db w) ?u = (b, db)" by fastforce
  note run = on_RegisterRequest_tried [OF True p c]
  note frame = createUser_frame [OF st c]
  show ?thesis
  proof (cases b)
    case False
    then have "accounts_of tbl db = accounts_of tbl (w_db w)"
      using account_store.create_refused [OF accounts_contract st] c by simp
    then have "chat_of tbl (w\<lparr>w_db := db\<rparr>) = chat_of tbl w" using frame by (simp add: chat_of_def)
    then show ?thesis unfolding allowed_def run by (auto simp: chat_step.refused)
  next
    case True2: True
    obtain i where i: "accounts_of tbl (w_db w) (usr_username ?u) = None"
      "accounts_of tbl db = (accounts_of tbl (w_db w))(usr_username ?u \<mapsto>
         make_User i (usr_username ?u) (usr_password ?u))"
      using account_store.create_accepted [OF accounts_contract st, of ?u db] c True2 by auto
    have new: "make_User i (usr_username ?u) (usr_password ?u) = make_User i (rq_username r) p"
      using sha_c_str [OF p] by (simp add: make_User_def)
    have "chat_step (SHA256 (env_crypto env)) (RegisterRequest_body r) (chat_of tbl w)
        ((chat_of tbl w)\<lparr>ch_accounts := (ch_accounts (chat_of tbl w))
           (c_str (rq_username r) \<mapsto> make_User i (rq_username r) p)\<rparr>)"
      by (rule chat_step.registered) (use True i p in \<open>auto simp: credentials_ok_def make_User_def\<close>)
    then show ?thesis
      unfolding allowed_def run by (auto simp: i(2) new chat_of_def frame make_User_def)
  qed
qed

lemma login_pre_allowed:
  assumes st: "store_inv tbl sch (w_db w)"
  shows "allowed env tbl (LoginPreRequest_body r) w
    (on_LoginPreRequest env io (new_packet env t (LoginPreRequest_body r)) w)"
  unfolding allowed_def
proof (intro allI impI)
  fix reply cb w'
  assume "on_LoginPreRequest env io (new_packet env t (LoginPreRequest_body r)) w = Inr (reply, cb, w')"
  note h = on_LoginPreRequest_Inr [OF st this]
  show "chat_step (SHA256 (env_crypto env)) (LoginPreRequest_body r) (chat_of tbl w) (chat_of tbl w')"
  proof (cases "accounts_of tbl (w_db w) (c_str (lpq_username r))")
    case None
    then show ?thesis using h by (simp add: chat_step.refused)
  next
    case (Some u)
    have "chat_step (SHA256 (env_crypto env)) (LoginPreRequest_body r) (chat_of tbl w)
        ((chat_of tbl w)\<lparr>ch_challenges := (ch_challenges (chat_of tbl w))
           (usr_id u \<mapsto> genChallenge (env_crypto env) (io_rand io) (io_now io))\<rparr>)"
      by (rule chat_step.challenged) (simp_all add: Some)
    then show ?thesis using h Some by (simp add: chat_of_def setChallengeMp_def)
  qed
qed

lemma login_allowed:
  assumes st: "store_inv tbl sch (w_db w)"
  shows "allowed env tbl (LoginRequest_body r) w
    (on_LoginRequest env io (new_packet env t (LoginRequest_body r)) w)"
  unfolding allowed_def
proof (intro allI impI)
  fix reply cb w'
  assume "on_LoginRequest env io (new_packet env t (LoginRequest_body r)) w = Inr (reply, cb, w')"
  note h = on_LoginRequest_Inr [OF st this]
  show "chat_step (SHA256 (env_crypto env)) (LoginRequest_body r) (chat_of tbl w) (chat_of tbl w')"
  proof (cases "accounts_of tbl (w_db w) (c_str (lq_username r))")
    case None
    then show ?thesis using h by (simp add: chat_step.refused)
  next
    case (Some u)
    let ?ok = "SHA256 (env_crypto env) (usr_password u @ getChallengeMp (w_server w) (usr_id u)) =
      Inr (lq_hashPassword r)"
    have "chat_step (SHA256 (env_crypto env)) (LoginRequest_body r) (chat_of tbl w)
        ((chat_of tbl w)\<lparr>ch_challenges := (ch_challenges (chat_of tbl w))(usr_id u := None)\<rparr>)"
      by (rule chat_step.login_failed) (simp add: Some)
    moreover have "chat_step (SHA256 (env_crypto env)) (LoginRequest_body r) (chat_of tbl w)
        ((chat_of tbl w)\<lparr>ch_challenges := (ch_challenges (chat_of tbl w))(usr_id u := None),
           ch_sessions := (ch_sessions (chat_of tbl w))(getUUID (io_uuid io) \<mapsto> usr_id u)\<rparr>)" if ?ok
      by (rule chat_step.logged_in) (simp_all add: Some that)
    ultimately show ?thesis
      using h Some by (cases ?ok) (simp_all add: chat_of_def delChallengeMp_eq setUserIdByToken_def)
  qed
qed

text \<open>A message that was stored, with the files it left.\<close>

lemma posted_step:
  assumes st: "store_inv tbl sch (w_db w)"
    and uid: "getUserIdByToken (w_server w) (smq_token r) = raw_from (smq_message r)"
    and to: "known_user tbl (w_db w) (raw_to (smq_message r))"
    and c: "createMsgByRawMsg (env_sql env) (w_db w) (smq_message r) now = Inr (Some m, db)"
    and acc: "accounts_of tbl db' = accounts_of tbl (w_db w)" and conv: "conv_of tbl db' = conv_of tbl db"
    and fs: "files_of tbl db' = files_of tbl (w_db w) \<or> (\<exists>i. files_of tbl (w_db w) i = None \<and>
      files_of tbl db' = (files_of tbl (w_db w))(i \<mapsto> \<lparr>fs_id = i, fs_name = [], fs_hash = []\<rparr>))"
  shows "chat_step H (SendMessageRequest_body r) (chat_of tbl w) (chat_of tbl (w\<lparr>w_db := db'\<rparr>))"
proof -
  let ?a = "raw_from (smq_message r)" and ?z = "raw_to (smq_message r)"
  note ap = send_append [OF st c]
  let ?n = "length (conv_of tbl (w_db w) ?a ?z)"
  have "sint (msg_internalId (conv_of tbl db ?a ?z ! ?n)) = int ?n + 1"
    by (rule conversation_store.numbered_nth [OF convs_contract ap(2)]) (simp add: ap(3))
  then have n: "sint (msg_internalId m) = int ?n + 1" by (simp add: ap(3))
  have "chat_step H (SendMessageRequest_body r) (chat_of tbl w)
      ((chat_of tbl w)\<lparr>ch_convs := (ch_convs (chat_of tbl w))(?a := (ch_convs (chat_of tbl w) ?a)
           (?z := ch_convs (chat_of tbl w) ?a ?z @ [m])), ch_files := files_of tbl db'\<rparr>)"
    by (rule chat_step.posted) (use uid to n fs ap(1) in auto)
  moreover have "conv_of tbl db' = (conv_of tbl (w_db w))(?a := (conv_of tbl (w_db w) ?a)
      (?z := conv_of tbl (w_db w) ?a ?z @ [m]))"
    by (auto simp: conv ap(3) fun_eq_iff)
  ultimately show ?thesis by (simp add: chat_of_def acc)
qed

lemma send_allowed:
  assumes st: "store_inv tbl sch (w_db w)"
  shows "allowed env tbl (SendMessageRequest_body r) w
    (on_SendMessageRequest env io (new_packet env t (SendMessageRequest_body r)) w)"
  unfolding allowed_def
proof (intro allI impI)
  fix reply cb w'
  assume h: "on_SendMessageRequest env io (new_packet env t (SendMessageRequest_body r)) w = Inr (reply, cb, w')"
  note msg = createMsg_frame [OF st]
  show "chat_step (SHA256 (env_crypto env)) (SendMessageRequest_body r) (chat_of tbl w) (chat_of tbl w')"
  proof (cases rule: on_SendMessageRequest_Inr [OF st h])
    case 1
    then show ?thesis by (simp add: chat_step.refused)
  next
    case (2 m db)
    show ?thesis unfolding 2(3)
      by (rule posted_step [OF st 2(4,5,7)]) (simp_all add: msg [OF 2(7)])
  next
    case (3 m db i db')
    have st1: "store_inv tbl sch db" by (rule send_append(2) [OF st 3(7)])
    note f = file_store.create_some [OF files_contract st1 3(8)]
    show ?thesis unfolding 3(3)
      by (rule posted_step [OF st 3(4,5,7)])
        (use f in \<open>auto simp: msg [OF 3(7)] createFile_frame [OF st1 3(8)]\<close>)
  next
    case (4 m db db')
    have st1: "store_inv tbl sch db" by (rule send_append(2) [OF st 4(7)])
    note f = file_store.create_none [OF files_contract st1 4(8)]
    show ?thesis unfolding 4(3)
      by (rule posted_step [OF st 4(4,5,7)])
        (simp_all add: f msg [OF 4(7)] createFile_frame [OF st1 4(8)])
  qed
qed

lemma upload_allowed:
  assumes st: "store_inv tbl sch (w_db w)"
  shows "allowed env tbl (FileUploadRequest_body r) w
    (on_FileUploadRequest env io (new_packet env t (FileUploadRequest_body r)) w)"
  unfolding allowed_def
proof (intro allI impI)
  fix reply cb w'
  assume h: "on_FileUploadRequest env io (new_packet env t (FileUploadRequest_body r)) w = Inr (reply, cb, w')"
  show "chat_step (SHA256 (env_crypto env)) (FileUploadRequest_body r) (chat_of tbl w) (chat_of tbl w')"
  proof (cases rule: on_FileUploadRequest_Inr [OF st h])
    case 1
    then show ?thesis by (simp add: chat_step.refused)
  next
    case (2 f ex dsk success dsk' updated db)
    note up = update_results [OF st 2(6)]
    let ?i = "c_str (fuq_id r)"
    have "chat_step (SHA256 (env_crypto env)) (FileUploadRequest_body r) (chat_of tbl w)
        ((chat_of tbl w)\<lparr>ch_files := (ch_files (chat_of tbl w))
           (?i \<mapsto> \<lparr>fs_id = ?i, fs_name = file_name (fuq_file r), fs_hash = fuq_hash r\<rparr>)\<rparr>)"
      by (rule chat_step.uploaded) (use 2(1,2) in simp_all)
    then show ?thesis using up
      by (cases updated) (simp_all add: 2(3,7) chat_of_def chat_step.refused)
  qed
qed

lemma channel_allowed: "allowed env tbl b w (on_SetupChannelRequest env pkt w)"
  by (rule allowed_same) (auto simp: on_SetupChannelRequest_def Let_def)

lemma contact_allowed: "allowed env tbl b w
    (on_ContactMessageRequest env (new_packet env t (ContactMessageRequest_body r)) w)"
  by (rule allowed_same) (auto elim: on_ContactMessageRequest_Inr)

lemma download_allowed:
  assumes st: "store_inv tbl sch (w_db w)"
  shows "allowed env tbl b w
    (on_FileDownloadRequest env io (new_packet env t (FileDownloadRequest_body r)) w)"
  by (rule allowed_same, erule on_FileDownloadRequest_Inr [OF st]) simp_all

lemma status_allowed:
  "allowed env tbl b w (on_ServerStatusRequest env w)"
  "allowed env tbl b w (on_ServerStatusUpdateRequest env w)"
  by (rule allowed_same, simp add: on_ServerStatusRequest_def on_ServerStatusUpdateRequest_def)+

lemma changing_allowed:
  assumes st: "store_inv tbl sch (w_db w)"
  shows "allowed env tbl (RegisterRequest_body
      (unpacked unpack_Register \<lparr>rq_username = [], rq_rawPassword = []\<rparr> env pkt)) w
      (on_RegisterRequest env pkt w)"
    and "allowed env tbl (LoginPreRequest_body (unpacked unpack_LoginPre \<lparr>lpq_username = []\<rparr> env pkt)) w
      (on_LoginPreRequest env io pkt w)"
    and "allowed env tbl (LoginRequest_body
      (unpacked unpack_Login \<lparr>lq_username = [], lq_hashPassword = []\<rparr> env pkt)) w
      (on_LoginRequest env io pkt w)"
    and "allowed env tbl (SendMessageRequest_body
      (unpacked unpack_SendMessage \<lparr>smq_token = [], smq_message = default_RawMessage\<rparr> env pkt)) w
      (on_SendMessageRequest env io pkt w)"
    and "allowed env tbl (FileUploadRequest_body (unpacked unpack_FileUpload
      \<lparr>fuq_token = [], fuq_id = [], fuq_file = default_File, fuq_hash = []\<rparr> env pkt)) w
      (on_FileUploadRequest env io pkt w)"
  by (subst repack(1), rule register_allowed [OF st], subst repack(2), rule login_pre_allowed [OF st],
      subst repack(3), rule login_allowed [OF st], subst repack(4), rule send_allowed [OF st],
      subst repack(6), rule upload_allowed [OF st])

lemma reading_allowed:
  assumes st: "store_inv tbl sch (w_db w)"
  shows "allowed env tbl b w (on_FileDownloadRequest env io pkt w)"
    and "allowed env tbl b w (on_ContactMessageRequest env pkt w)"
    and "allowed env tbl b w (on_SetupChannelRequest env pkt w)"
    and "allowed env tbl b w (on_ServerStatusRequest env w)"
    and "allowed env tbl b w (on_ServerStatusUpdateRequest env w)"
  by (subst repack(7), rule download_allowed [OF st], subst repack(5), rule contact_allowed,
      rule channel_allowed, rule status_allowed, rule status_allowed)

lemma handle_packet_allowed:
  assumes st: "store_inv tbl sch (w_db w)"
    and h: "handle_packet env io pkt w = Inr (Some (reply, cb, w'))"
  shows "chat_step (SHA256 (env_crypto env)) (request_of env pkt) (chat_of tbl w) (chat_of tbl w')"
proof -
  note changing = changing_allowed [OF st, unfolded allowed_def, rule_format]
  note reading = reading_allowed [OF st, unfolded allowed_def, rule_format]
  obtain t where t: "packet_type_of_id (packetId pkt) = Some t"
    using h by (cases "packet_type_of_id (packetId pkt)") (auto simp: handle_packet_def)
  show ?thesis
    using h t by (cases t) (auto simp: handle_packet_def request_of_def intro: changing reading)
qed

subsection \<open>Whole steps\<close>

lemma run_callback_chat:
  assumes "run_callback env io fd cb w = Inr w'"
  shows "chat_of tbl w' = chat_of tbl w"
  using assms
  by (auto simp: run_callback_defs Let_def chat_of_def frame_simps split: callback.splits prod.splits if_splits)

lemma receive_chat:
  assumes inv: "server_inv env tbl sch w" and r: "receive_request env io w = Inr (answer, w')"
  shows "chat_of tbl w' = chat_of tbl w \<or>
    chat_move (SHA256 (env_crypto env)) (chat_of tbl w) (chat_of tbl w')"
proof -
  have st: "store_inv tbl sch (w_db (w\<lparr>w_van := v\<rparr>))" for v using inv by (simp add: server_inv_def)
  show ?thesis
  proof (cases rule: receive_request_cases [OF r])
    case (1 v)
    then show ?thesis by simp
  next
    case (2 v pkt reply cb)
    show ?thesis using handle_packet_allowed [OF st 2(2)] by (auto simp: chat_move_def)
  qed
qed

lemma send_reply_chat:
  assumes "send_reply env io fd reply cb w = Inr w'"
  shows "chat_of tbl w' = chat_of tbl w"
proof -
  have "chat_of tbl w'' = chat_of tbl w" if "run_callback env io fd cb (w\<lparr>w_van := v\<rparr>) = Inr w''" for w'' v
    using run_callback_chat [OF that] by simp
  then show ?thesis using assms by (auto simp: send_reply_def Let_def split: if_splits)
qed

lemma run_once_chat: "run_once env io uid w = Inr (Some w') \<Longrightarrow> chat_of tbl w' = chat_of tbl w"
  by (auto elim!: run_once_Some simp: chat_of_def)

lemma on_event_chat:
  assumes "on_event e (Some (w_server w), w_van w) = Inr (Some s, v)"
  shows "chat_of tbl (w\<lparr>w_server := s\<rparr>) = chat_of tbl w"
proof -
  have "s = (w_server w)\<lparr>revc_socket_pool := revc_socket_pool s\<rparr>" using on_event_Inr [OF assms] by blast
  then show ?thesis
    by (intro chat_of_server) (metis Server.select_convs Server.surjective Server.update_convs(1))+
qed

lemma server_step_chat:
  assumes inv: "system_inv env tbl sch s" and st: "server_step env s s'"
  shows "chat_of tbl (sys_world s') = chat_of tbl (sys_world s) \<or>
    chat_move (SHA256 (env_crypto env)) (chat_of tbl (sys_world s)) (chat_of tbl (sys_world s'))"
  using st
proof (cases rule: server_step.cases)
  case (receive busy w fd q io answer w')
  have "server_inv env tbl sch (w\<lparr>w_van := (w_van w)\<lparr>RecvSocketQueue := q\<rparr>\<rparr>)"
    using inv receive(1) by (simp add: system_inv_def)
  from receive_chat [OF this receive(5)] show ?thesis by (simp add: receive(1,2))
qed (simp_all add: send_reply_chat run_once_chat on_event_chat)

text \<open>The service keeps its history, so what waits in the workers stays well formed.\<close>

lemma server_step_extends:
  assumes "system_inv env tbl sch s" and "server_step env s s'"
  shows "extends tbl (w_db (sys_world s)) (w_db (sys_world s'))"
proof -
  have "keeps_history (chat_of tbl (sys_world s)) (chat_of tbl (sys_world s'))"
    using server_step_chat [OF assms] by (auto simp: chat_move_def intro: chat_step_history)
  then show ?thesis
    by (auto simp: keeps_history_def extends_def known_user_def map_le_def) (metis domI)
qed

lemma server_step_keeps:
  assumes inv: "system_inv env tbl sch s" and st: "server_step env s s'"
  shows "system_inv env tbl sch s'"
proof -
  have w: "server_inv env tbl sch (sys_world s)" using inv by (simp add: system_inv_def)
  have old: "callback_ok tbl (w_db (sys_world s')) cb" if "(fd, reply, cb) \<in> set (sys_busy s)" for fd reply cb
    using inv that callback_ok_extends [OF _ server_step_extends [OF inv st]]
    by (auto simp: system_inv_def)
  have len: "length (sys_busy s) \<le> revc_socket_pool_thread_num" using inv by (simp add: system_inv_def)
  from st show ?thesis
  proof (cases rule: server_step.cases)
    case (receive busy w fd q io answer w')
    have "server_inv env tbl sch (w\<lparr>w_van := (w_van w)\<lparr>RecvSocketQueue := q\<rparr>\<rparr>)"
      using inv receive(1) by (simp add: system_inv_def)
    from receive_keeps [OF this receive(5)] show ?thesis
      using old receive(1-3) by (auto simp: system_inv_def split: option.splits)
  next
    case (reply io fd pkt cb w w' b1 b2)
    have "callback_ok tbl (w_db w) cb" using inv reply(1) by (simp add: system_inv_def)
    then have "server_inv env tbl sch w'"
      using send_reply_keeps [OF _ _ reply(3)] w reply(1) by simp
    then show ?thesis using old len reply(1,2) by (auto simp: system_inv_def)
  next
    case (channel io uid w w' busy)
    then show ?thesis using channel_step_keeps [OF _ channel(3)] w old len by (auto simp: system_inv_def)
  next
    case (accept e w srv v busy)
    then show ?thesis using accept_step_keeps [OF _ accept(3)] w old len by (auto simp: system_inv_def)
  qed
qed

lemma running:
  "simulation (server_step env) (chat_move (SHA256 (env_crypto env))) (\<lambda>s. chat_of tbl (sys_world s))
     (system_inv env tbl sch)"
  by unfold_locales (use server_step_keeps server_step_chat in blast)+

end

interpretation ref_running: simulation "server_step ref_env" "chat_move (SHA256 (env_crypto ref_env))"
  "\<lambda>s. chat_of ref_tbl (sys_world s)" "system_inv ref_env ref_tbl ref_sch"
  by (rule ref_server.running)

end
