(* ===== verification/Atomic_Steps.thy ===== *)
theory Atomic_Steps
  imports Prelude
begin

text \<open>
  A thread's code as a tree of atomic steps. Between two steps other threads may change the state, so
  a step is a function of the state it finds, and what follows it may depend on what it found. The
  calculus at the end shows that threads keep an invariant that each of them alone would keep, as
  long as all their steps respect what the others rely on.
\<close>

subsection \<open>Programs\<close>

datatype ('s, 'r) prog =
    Return 'r
  | Step "'s \<Rightarrow> fault + ('s \<times> ('s, 'r) prog)"

primrec run_alone :: "('s, 'r) prog \<Rightarrow> 's \<Rightarrow> ('s \<times> 'r) run" where
  "run_alone (Return r) = (\<lambda>s. Inr (s, r))"
| "run_alone (Step f) = (\<lambda>s. rbind (map_sum id (map_prod id run_alone) (f s)) (\<lambda>(s', k). k s'))"

primrec bind_prog :: "('s, 'q) prog \<Rightarrow> ('q \<Rightarrow> ('s, 'r) prog) \<Rightarrow> ('s, 'r) prog" where
  "bind_prog (Return r) = (\<lambda>g. g r)"
| "bind_prog (Step f) = (\<lambda>g. Step (\<lambda>s. map_sum id (map_prod id (\<lambda>k. k g)) (map_sum id (map_prod id bind_prog) (f s))))"

definition atomic :: "('s \<Rightarrow> ('s \<times> 'r) run) \<Rightarrow> ('s, 'r) prog" where
  "atomic A = Step (\<lambda>s. rbind (A s) (\<lambda>(s', r). Inr (s', Return r)))"

text \<open>Steps that only read, and steps that fail without touching the state.\<close>

definition query :: "('s \<Rightarrow> 'r run) \<Rightarrow> ('s, 'r) prog" where
  "query f = atomic (\<lambda>s. rbind (f s) (\<lambda>r. Inr (s, r)))"

definition change :: "('s \<Rightarrow> 's) \<Rightarrow> ('s, unit) prog" where
  "change f = atomic (\<lambda>s. Inr (f s, ()))"

text \<open>A computation without access to the shared state.\<close>

definition pure_prog :: "'r run \<Rightarrow> ('s, 'r) prog" where
  "pure_prog m = (case m of Inr r \<Rightarrow> Return r | Inl e \<Rightarrow> Step (\<lambda>_. Inl e))"

lemma pure_prog_Inr [simp]: "pure_prog (Inr r) = Return r"
  by (simp add: pure_prog_def)

text \<open>One program after the other for each element of a list.\<close>

fun each_prog :: "('a \<Rightarrow> ('s, 'b) prog) \<Rightarrow> 'a list \<Rightarrow> ('s, 'b list) prog" where
  "each_prog f [] = Return []"
| "each_prog f (x # xs) = bind_prog (f x) (\<lambda>y. bind_prog (each_prog f xs) (\<lambda>ys. Return (y # ys)))"

lemma map_step_eq_Inr:
  "map_sum id (map_prod id h) x = Inr (s, k) \<longleftrightarrow> (\<exists>p. x = Inr (s, p) \<and> k = h p)"
  by (cases x) auto

lemma prog_induct [case_names Return Step]:
  assumes "\<And>r. P (Return r)" and "\<And>f. (\<And>s s' p. f s = Inr (s', p) \<Longrightarrow> P p) \<Longrightarrow> P (Step f)"
  shows "P p"
proof (induction p)
  case (Step f)
  show ?case
  proof (rule assms(2))
    fix s s' p assume "f s = Inr (s', p)"
    then have "Inr (s', p) \<in> range f" by (metis rangeI)
    then show "P p" using Step.IH [of "Inr (s', p)" "(s', p)" p] by simp
  qed
qed (rule assms(1))

lemma bind_prog_Step:
  "bind_prog (Step f) g = Step (\<lambda>s. map_sum id (map_prod id (\<lambda>p. bind_prog p g)) (f s))"
  by (simp add: sum.map_comp prod.map_comp comp_def id_def)

lemma run_alone_Step: "run_alone (Step f) s = rbind (f s) (\<lambda>(s', p). run_alone p s')"
  by (cases "f s") auto

declare bind_prog.simps(2) [simp del] run_alone.simps(2) [simp del]

lemma bind_Return_right [simp]: "bind_prog p Return = p"
proof (induction p rule: prog_induct)
  case (Step f)
  then have "map_sum id (map_prod id (\<lambda>p. bind_prog p Return)) (f s) = f s" for s
    by (cases "f s") auto
  then show ?case by (simp add: bind_prog_Step)
qed simp

lemma bind_assoc: "bind_prog (bind_prog p g) h = bind_prog p (\<lambda>x. bind_prog (g x) h)"
proof (induction p rule: prog_induct)
  case (Step f)
  have "map_sum id (map_prod id (\<lambda>p. bind_prog p h)) (map_sum id (map_prod id (\<lambda>p. bind_prog p g)) (f s)) =
      map_sum id (map_prod id (\<lambda>p. bind_prog p (\<lambda>x. bind_prog (g x) h))) (f s)" for s
    using Step by (cases "f s") auto
  then show ?case by (simp add: bind_prog_Step)
qed simp

lemma bind_atomic:
  "bind_prog (atomic A) g = Step (\<lambda>s. rbind (A s) (\<lambda>(s', r). Inr (s', g r)))"
  unfolding atomic_def bind_prog_Step by (rule arg_cong [of _ _ Step], rule ext) (auto simp: rbind_def split: sum.split)

subsection \<open>Running without interruption\<close>

lemma run_alone_bind [simp]:
  "run_alone (bind_prog p g) s = rbind (run_alone p s) (\<lambda>(s', r). run_alone (g r) s')"
proof (induction p arbitrary: s rule: prog_induct)
  case (Step f)
  show ?case
  proof (cases "f s")
    case (Inr x)
    then obtain s' p where x: "f s = Inr (s', p)" by (cases x) auto
    then show ?thesis
      using Step [of s s' p s'] by (simp add: run_alone_Step bind_prog_Step)
  qed (simp add: run_alone_Step bind_prog_Step)
qed simp

lemma run_alone_atomic [simp]: "run_alone (atomic A) s = A s"
  by (cases "A s") (auto simp: atomic_def run_alone_Step)

lemma run_alone_query [simp]: "run_alone (query f) s = rbind (f s) (\<lambda>r. Inr (s, r))"
  by (simp add: query_def)

lemma run_alone_change [simp]: "run_alone (change f) s = Inr (f s, ())"
  by (simp add: change_def)

lemma run_alone_pure [simp]: "run_alone (pure_prog m) s = rbind m (\<lambda>r. Inr (s, r))"
  by (cases m) (simp_all add: pure_prog_def run_alone_Step)

lemma run_alone_each:
  "(\<And>x. x \<in> set xs \<Longrightarrow> run_alone (f x) s = rbind (h x) (\<lambda>y. Inr (s, y))) \<Longrightarrow>
   run_alone (each_prog f xs) s = rbind (rmap h xs) (\<lambda>ys. Inr (s, ys))"
  by (induction xs) (auto simp: rbind_assoc)

subsection \<open>One step at a time\<close>

inductive prog_step :: "'s \<times> ('s, 'r) prog \<Rightarrow> 's \<times> ('s, 'r) prog \<Rightarrow> bool" where
  "f s = Inr (s', p) \<Longrightarrow> prog_step (s, Step f) (s', p)"

inductive_simps prog_step_Return [simp]: "prog_step (s, Return r) t"
inductive_simps prog_step_Step: "prog_step (s, Step f) (s', p)"

lemma prog_step_bind:
  "prog_step (s, p) (s', p') \<Longrightarrow> prog_step (s, bind_prog p g) (s', bind_prog p' g)"
  by (cases p) (auto simp: prog_step_Step bind_prog_Step)

lemma prog_step_atomic: "A s = Inr (s', r) \<Longrightarrow> prog_step (s, bind_prog (atomic A) g) (s', g r)"
  by (simp add: bind_atomic prog_step_Step)

text \<open>Running alone is a sequence of steps, also as the beginning of a longer program.\<close>

lemma run_alone_steps:
  assumes "run_alone p s = Inr (s', r)"
  shows "prog_step\<^sup>*\<^sup>* (s, bind_prog p g) (s', g r)"
  using assms
proof (induction p arbitrary: s rule: prog_induct)
  case (Return x)
  then show ?case by simp
next
  case (Step f)
  then obtain s1 p1 where f: "f s = Inr (s1, p1)" and r: "run_alone p1 s1 = Inr (s', r)"
    by (auto simp: run_alone_Step)
  have "prog_step (s, bind_prog (Step f) g) (s1, bind_prog p1 g)"
    by (rule prog_step_bind) (simp add: prog_step_Step f)
  moreover have "prog_step\<^sup>*\<^sup>* (s1, bind_prog p1 g) (s', g r)"
    by (rule Step.IH [OF f r])
  ultimately show ?case by (rule converse_rtranclp_into_rtranclp)
qed

subsection \<open>Relying on the other threads\<close>

text \<open>
  \<open>safe F I R Q p s\<close>: from state \<open>s\<close> on, when the other threads only make changes in \<open>R\<close> and keep \<open>I\<close>,
  every step of \<open>p\<close> keeps \<open>I\<close> and is a change in \<open>R\<close>, a step fails only with a fault in \<open>F\<close>, and the
  result satisfies \<open>Q\<close> for good.
\<close>

inductive safe :: "(fault \<Rightarrow> bool) \<Rightarrow> ('s \<Rightarrow> bool) \<Rightarrow> ('s \<Rightarrow> 's \<Rightarrow> bool) \<Rightarrow> ('r \<Rightarrow> 's \<Rightarrow> bool) \<Rightarrow>
    ('s, 'r) prog \<Rightarrow> 's \<Rightarrow> bool"
  for F I R Q where
  safe_Return: "(\<And>s'. R s s' \<Longrightarrow> I s' \<Longrightarrow> Q r s') \<Longrightarrow> safe F I R Q (Return r) s"
| safe_Step: "(\<And>s' e. R s s' \<Longrightarrow> I s' \<Longrightarrow> f s' = Inl e \<Longrightarrow> F e) \<Longrightarrow>
    (\<And>s' s'' p. R s s' \<Longrightarrow> I s' \<Longrightarrow> f s' = Inr (s'', p) \<Longrightarrow> I s'' \<and> R s' s'' \<and> safe F I R Q p s'') \<Longrightarrow>
    safe F I R Q (Step f) s"

inductive_cases safe_ReturnE: "safe F I R Q (Return r) s"
inductive_cases safe_StepE: "safe F I R Q (Step f) s"

locale rely =
  fixes I :: "'s \<Rightarrow> bool" and R :: "'s \<Rightarrow> 's \<Rightarrow> bool"
  assumes R_refl: "R s s" and R_trans: "R s s' \<Longrightarrow> R s' s'' \<Longrightarrow> R s s''"
begin

lemma safe_stable:
  assumes "safe F I R Q p s" and "R s s'"
  shows "safe F I R Q p s'"
  using assms
proof (cases rule: safe.cases)
  case (safe_Return r)
  then show ?thesis using assms(2) by (auto intro: safe.safe_Return R_trans)
next
  case (safe_Step f)
  show ?thesis
    unfolding safe_Step(1)
    by (rule safe.safe_Step) (use safe_Step(2,3) R_trans [OF assms(2)] in blast)+
qed

lemma safe_later:
  assumes "\<And>s'. R s s' \<Longrightarrow> I s' \<Longrightarrow> safe F I R Q p s'"
  shows "safe F I R Q p s"
proof (cases p)
  case (Return r)
  then show ?thesis
    using assms R_refl by (auto intro!: safe_Return elim!: safe_ReturnE)
next
  case (Step f)
  show ?thesis
    unfolding Step
  proof (rule safe_Step)
    fix s' e assume "R s s'" "I s'" "f s' = Inl e"
    then show "F e" using assms [of s'] R_refl unfolding Step by (blast elim: safe_StepE)
  next
    fix s' s'' p' assume "R s s'" "I s'" "f s' = Inr (s'', p')"
    then show "I s'' \<and> R s' s'' \<and> safe F I R Q p' s''"
      using assms [of s'] R_refl unfolding Step by (blast elim: safe_StepE)
  qed
qed

lemma safe_step:
  assumes "safe F I R Q p s" and "I s" and "prog_step (s, p) (s', p')"
  shows "I s' \<and> R s s' \<and> safe F I R Q p' s'"
  using assms(3)
proof cases
  case (1 f)
  then show ?thesis using assms(1,2) R_refl by (blast elim: safe_StepE)
qed

lemma safe_fault: "safe F I R Q (Step f) s \<Longrightarrow> I s \<Longrightarrow> f s = Inl e \<Longrightarrow> F e"
  using R_refl by (blast elim: safe_StepE)

lemma safe_result: "safe F I R Q (Return r) s \<Longrightarrow> I s \<Longrightarrow> Q r s"
  using R_refl by (blast elim: safe_ReturnE)

lemma safe_bind:
  assumes "safe F I R Q' p s" and "\<And>r s'. R s s' \<Longrightarrow> I s' \<Longrightarrow> Q' r s' \<Longrightarrow> safe F I R Q (g r) s'"
  shows "safe F I R Q (bind_prog p g) s"
  using assms
proof (induction rule: safe.induct)
  case (safe_Return s r)
  then show ?case by (auto intro: safe_later)
next
  case (safe_Step s f)
  show ?case
    unfolding bind_prog_Step
  proof (rule safe.safe_Step)
    fix s' e assume "R s s'" "I s'" "map_sum id (map_prod id (\<lambda>p. bind_prog p g)) (f s') = Inl e"
    then show "F e" using safe_Step.hyps by (cases "f s'") auto
  next
    fix s' s'' p' assume a: "R s s'" "I s'" "map_sum id (map_prod id (\<lambda>p. bind_prog p g)) (f s') = Inr (s'', p')"
    then obtain q where q: "f s' = Inr (s'', q)" "p' = bind_prog q g" by (auto simp: map_step_eq_Inr)
    have "R s t" if "R s'' t" for t
      using a(1,2) q(1) that safe_Step.IH R_trans by blast
    then show "I s'' \<and> R s' s'' \<and> safe F I R Q p' s''"
      using safe_Step.IH [OF a(1,2) q(1)] safe_Step.prems q(2) by blast
  qed
qed

lemma safe_atomic:
  fixes A :: "'s \<Rightarrow> ('s \<times> 'r) run"
  assumes "\<And>s' e. R s s' \<Longrightarrow> I s' \<Longrightarrow> A s' = Inl e \<Longrightarrow> F e"
    and "\<And>s' s'' r. R s s' \<Longrightarrow> I s' \<Longrightarrow> A s' = Inr (s'', r) \<Longrightarrow> I s'' \<and> R s' s'' \<and> (\<forall>t. R s'' t \<longrightarrow> I t \<longrightarrow> Q r t)"
  shows "safe F I R Q (atomic A) s"
  unfolding atomic_def
proof (rule safe_Step)
  fix s' e assume "R s s'" "I s'" "rbind (A s') (\<lambda>(s', r). Inr (s', Return r)) = Inl e"
  then show "F e" using assms(1) by (auto simp: rbind_eq_Inl_iff)
next
  fix s' s'' and p :: "('s, 'r) prog"
  assume a: "R s s'" "I s'" "rbind (A s') (\<lambda>(s', r). Inr (s', Return r)) = Inr (s'', p)"
  then obtain r where "A s' = Inr (s'', r)" "p = Return r" by (auto simp: rbind_eq_Inr_iff)
  then show "I s'' \<and> R s' s'' \<and> safe F I R Q p s''"
    using assms(2) [OF a(1,2)] by (auto intro: safe_Return)
qed

lemma safe_query:
  assumes "\<And>s' e. R s s' \<Longrightarrow> I s' \<Longrightarrow> f s' = Inl e \<Longrightarrow> F e"
    and "\<And>s' r t. R s s' \<Longrightarrow> I s' \<Longrightarrow> f s' = Inr r \<Longrightarrow> R s' t \<Longrightarrow> I t \<Longrightarrow> Q r t"
  shows "safe F I R Q (query f) s"
  unfolding query_def using assms R_refl
  by (intro safe_atomic) (auto simp: rbind_eq_Inl_iff)

lemma safe_change:
  assumes "\<And>s'. R s s' \<Longrightarrow> I s' \<Longrightarrow> I (f s') \<and> R s' (f s') \<and> (\<forall>t. R (f s') t \<longrightarrow> I t \<longrightarrow> Q () t)"
  shows "safe F I R Q (change f) s"
  unfolding change_def using assms by (intro safe_atomic) auto

lemma safe_pure:
  assumes "\<And>e. m = Inl e \<Longrightarrow> F e" and "\<And>r t. m = Inr r \<Longrightarrow> R s t \<Longrightarrow> I t \<Longrightarrow> Q r t"
  shows "safe F I R Q (pure_prog m) s"
  using assms by (cases m) (auto simp: pure_prog_def intro: safe_Return safe_Step)

lemma safe_each:
  assumes "\<And>x s'. x \<in> set xs \<Longrightarrow> R s s' \<Longrightarrow> I s' \<Longrightarrow> safe F I R (\<lambda>_ _. True) (f x) s'"
  shows "safe F I R (\<lambda>_ _. True) (each_prog f xs) s"
  using assms
proof (induction xs arbitrary: s)
  case Nil
  then show ?case by (simp add: safe_Return)
next
  case (Cons x xs)
  have x: "safe F I R (\<lambda>_ _. True) (f x) s" by (rule safe_later) (use Cons.prems in auto)
  have xs: "safe F I R (\<lambda>_ _. True) (each_prog f xs) s'" if "R s s'" for s'
    by (rule Cons.IH) (use Cons.prems R_trans that in auto)
  show ?case
    unfolding each_prog.simps
    by (rule safe_bind [OF x], rule safe_bind [OF xs]) (auto intro: safe_Return)
qed

end

subsection \<open>Answering for every change\<close>

text \<open>
  \<open>vouched A G Q p\<close>: as long as the state satisfies \<open>A\<close>, whoever changed it, every step of \<open>p\<close> is a
  change in \<open>G\<close>; the result satisfies \<open>Q\<close>. Nothing is relied on but \<open>A\<close>, so what \<open>p\<close> has read has to be
  of lasting use: \<open>G\<close> and \<open>Q\<close> speak of what has been there at some time.
\<close>

inductive vouched :: "('s \<Rightarrow> bool) \<Rightarrow> ('s \<Rightarrow> 's \<Rightarrow> bool) \<Rightarrow> ('r \<Rightarrow> bool) \<Rightarrow> ('s, 'r) prog \<Rightarrow> bool" for A G Q where
  vouched_Return: "Q r \<Longrightarrow> vouched A G Q (Return r)"
| vouched_Step: "(\<And>s s' p. A s \<Longrightarrow> f s = Inr (s', p) \<Longrightarrow> G s s' \<and> vouched A G Q p) \<Longrightarrow> vouched A G Q (Step f)"

inductive_cases vouched_StepE: "vouched A G Q (Step f)"
inductive_simps vouched_Return_iff [simp]: "vouched A G Q (Return r)"

lemma vouched_step:
  assumes "vouched A G Q p" and "A s" and "prog_step (s, p) (s', p')"
  shows "G s s' \<and> vouched A G Q p'"
  using assms(3) by cases (use assms(1,2) in \<open>blast elim: vouched_StepE\<close>)

lemma vouched_bind:
  assumes "vouched A G Q' p" and "\<And>r. Q' r \<Longrightarrow> vouched A G Q (g r)"
  shows "vouched A G Q (bind_prog p g)"
  using assms
proof (induction rule: vouched.induct)
  case (vouched_Step f)
  show ?case
    unfolding bind_prog_Step
    by (rule vouched.vouched_Step) (use vouched_Step in \<open>auto simp: map_step_eq_Inr\<close>)
qed simp

lemma vouched_atomic:
  assumes "\<And>s s' r. A s \<Longrightarrow> f s = Inr (s', r) \<Longrightarrow> G s s' \<and> Q r"
  shows "vouched A G Q (atomic f)"
  unfolding atomic_def by (rule vouched_Step) (use assms in \<open>auto intro: vouched_Return\<close>)

lemma vouched_pure: "(\<And>r. m = Inr r \<Longrightarrow> Q r) \<Longrightarrow> vouched A G Q (pure_prog m)"
  by (cases m) (auto simp: pure_prog_def intro: vouched_Return vouched_Step)

lemma vouched_each:
  "(\<And>x. vouched A G (\<lambda>_. True) (f x)) \<Longrightarrow> vouched A G (\<lambda>_. True) (each_prog f xs)"
  by (induction xs) (auto intro!: vouched_bind intro: vouched_Return)

end
