(* ===== verification/Request_Steps.thy ===== *)
theory Request_Steps
  imports Races Atomic_Steps
begin

text \<open>
  \<open>Server::processRecvSocket\<close> again, now as a program of atomic steps: one step for every operation of
  \<open>UM\<close> (which holds the mutex of its pool), every call of \<open>DataAccess\<close> (for \<open>createMsgByRawMsg\<close>: the
  query, the insertion, and the reading of the row id), every access to the disk and every call of
  the van. Between two steps the other threads run. Run without interruption, each program is the
  handler of \<open>Server_Handlers\<close>; that is proved at the end.
\<close>

subsection \<open>The kinds of steps\<close>

type_synonym ('a, 'd, 'r) server_prog = "(('a, 'd) world, 'r) prog"

definition um_get :: "('a Server \<Rightarrow> 'r) \<Rightarrow> ('a, 'd, 'r) server_prog" where
  "um_get f = query (\<lambda>w. Inr (f (w_server w)))"

definition um_put :: "('a Server \<Rightarrow> 'a Server) \<Rightarrow> ('a, 'd, unit) server_prog" where
  "um_put f = change (\<lambda>w. w\<lparr>w_server := f (w_server w)\<rparr>)"

definition db_get :: "('d \<Rightarrow> 'r run) \<Rightarrow> ('a, 'd, 'r) server_prog" where
  "db_get f = query (\<lambda>w. f (w_db w))"

definition db_put :: "('d \<Rightarrow> ('r \<times> 'd) run) \<Rightarrow> ('a, 'd, 'r) server_prog" where
  "db_put f = atomic (\<lambda>w. rbind (f (w_db w)) (\<lambda>(r, db). Inr (w\<lparr>w_db := db\<rparr>, r)))"

definition disk_step :: "(disk \<Rightarrow> ('r \<times> disk) run) \<Rightarrow> ('a, 'd, 'r) server_prog" where
  "disk_step f = atomic (\<lambda>w. rbind (f (w_disk w)) (\<lambda>(r, dsk). Inr (w\<lparr>w_disk := dsk\<rparr>, r)))"

definition van_step :: "('a ServerVan \<Rightarrow> ('r \<times> 'a ServerVan) run) \<Rightarrow> ('a, 'd, 'r) server_prog" where
  "van_step f = atomic (\<lambda>w. rbind (f (w_van w)) (\<lambda>(r, van). Inr (w\<lparr>w_van := van\<rparr>, r)))"

lemmas step_kinds = um_get_def um_put_def db_get_def db_put_def disk_step_def van_step_def

subsection \<open>Storing a message\<close>

text \<open>\<open>createMsg\<close> up to \<open>query.exec() == 1\<close>, and the row id that is asked for after it.\<close>

definition insert_message :: "'d sqlite \<Rightarrow> Message \<Rightarrow> 'd \<Rightarrow> (bool \<times> 'd) run" where
  "insert_message eng m d =
     (let stmt = InsertInto ''messages''
        [''sender_id'', ''receiver_id'', ''content'', ''type'', ''internal_id'', ''timestamp''] in
      case sql_prepare eng d stmt of
        Some e \<Rightarrow> Inl (UncaughtException e)
      | None \<Rightarrow>
          (case sql_exec eng d stmt
                  [bind_int (raw_from (msg_message m)), bind_int (raw_to (msg_message m)),
                   SqlText (raw_content (msg_message m)), bind_int (raw_type (msg_message m)),
                   bind_int (msg_internalId m), bind_int (msg_timestamp m)] of
             (Inl e, d') \<Rightarrow> Inl (UncaughtException e)
           | (Inr n, d') \<Rightarrow> Inr (n = 1, d')))"

definition last_row :: "'d sqlite \<Rightarrow> 'd \<Rightarrow> int32" where
  "last_row eng d = to_int32 (sql_lastInsertRowid eng d)"

definition createMsg_steps :: "('a, 'd) env \<Rightarrow> Message \<Rightarrow> ('a, 'd, int32 option) server_prog" where
  "createMsg_steps env m =
     bind_prog (db_put (insert_message (env_sql env) m)) (\<lambda>inserted.
       if inserted then db_get (\<lambda>d. Inr (Some (last_row (env_sql env) d))) else Return None)"

definition createMsgByRawMsg_steps ::
    "('a, 'd) env \<Rightarrow> RawMessage \<Rightarrow> int \<Rightarrow> ('a, 'd, Message option) server_prog" where
  "createMsgByRawMsg_steps env m now =
     bind_prog (db_get (\<lambda>d. next_message (env_sql env) d m now)) (\<lambda>msg.
     bind_prog (createMsg_steps env msg) (\<lambda>result.
       Return (case result of Some i \<Rightarrow> Some (msg\<lparr>msg_id := i\<rparr>) | None \<Rightarrow> None)))"

subsection \<open>Accounts\<close>

type_synonym ('a, 'd) handler_prog = "('a, 'd, 'a Packet \<times> callback) server_prog"

definition register_steps :: "('a, 'd) env \<Rightarrow> 'a Packet \<Rightarrow> ('a, 'd) handler_prog" where
  "register_steps env pkt =
     (let request = unpacked unpack_Register \<lparr>rq_username = [], rq_rawPassword = []\<rparr> env pkt;
          n = rq_username request;
          p = rq_rawPassword request;
          reply = (\<lambda>is_success. new_packet env RegisterResponse (RegisterResponse_body is_success));
          is_success = \<not> (length n < 3 \<or> length n > 32) \<and> \<not> (length p < 6 \<or> length p > 32) in
      if is_success
      then bind_prog (pure_prog (SHA256 (env_crypto env) p)) (\<lambda>h.
           bind_prog (db_put (\<lambda>d. Inr (createUser (env_sql env) d (make_User 0 n h)))) (\<lambda>is_success.
             Return (reply is_success, NoCallback)))
      else Return (reply False, NoCallback))"

definition login_pre_steps :: "('a, 'd) env \<Rightarrow> io \<Rightarrow> 'a Packet \<Rightarrow> ('a, 'd) handler_prog" where
  "login_pre_steps env io pkt =
     (let username = lpq_username (unpacked unpack_LoginPre \<lparr>lpq_username = []\<rparr> env pkt);
          reply = (\<lambda>challenge. new_packet env LoginPreResponse (LoginPreResponse_body challenge)) in
      bind_prog (db_get (\<lambda>d. getUser_name (env_sql env) d username)) (\<lambda>result.
        case result of
          None \<Rightarrow> Return (reply [], NoCallback)
        | Some user \<Rightarrow>
            (let challenge = genChallenge (env_crypto env) (io_rand io) (io_now io) in
             bind_prog (um_put (setChallengeMp (usr_id user) challenge)) (\<lambda>_.
               Return (reply challenge, NoCallback)))))"

definition login_steps :: "('a, 'd) env \<Rightarrow> io \<Rightarrow> 'a Packet \<Rightarrow> ('a, 'd) handler_prog" where
  "login_steps env io pkt =
     (let request = unpacked unpack_Login \<lparr>lq_username = [], lq_hashPassword = []\<rparr> env pkt;
          reply = (\<lambda>logined i token.
            new_packet env LoginResponse (LoginResponse_body logined i token)) in
      bind_prog (db_get (\<lambda>d. getUser_name (env_sql env) d (lq_username request))) (\<lambda>result.
        case result of
          None \<Rightarrow> Return (reply False (-1) ''illegal user'', NoCallback)
        | Some user \<Rightarrow>
            bind_prog (um_get (\<lambda>s. getChallengeMp s (usr_id user))) (\<lambda>challenge.
            bind_prog (pure_prog (SHA256 (env_crypto env) (usr_password user @ challenge)))
              (\<lambda>pass_challenge_sha256.
               if pass_challenge_sha256 = lq_hashPassword request
               then bind_prog (pure_prog (genToken (env_crypto env) (io_uuid io))) (\<lambda>token.
                    bind_prog (um_put (setUserIdByToken token (usr_id user))) (\<lambda>_.
                    bind_prog (um_put (delChallengeMp (usr_id user))) (\<lambda>_.
                      Return (reply True (usr_id user) token, NoCallback))))
               else bind_prog (um_put (delChallengeMp (usr_id user))) (\<lambda>_.
                      Return (reply False (-1) ''wrong password'', NoCallback))))))"

definition setup_channel_steps :: "('a, 'd) env \<Rightarrow> 'a Packet \<Rightarrow> ('a, 'd) handler_prog" where
  "setup_channel_steps env pkt =
     (let token = scq_token (unpacked unpack_SetupChannel \<lparr>scq_token = []\<rparr> env pkt) in
      bind_prog (um_get (\<lambda>s. getUserIdByToken s token)) (\<lambda>uid.
        Return (new_packet env ServerAckResponse ServerAckResponse_body, SetupChannelCallback uid)))"

subsection \<open>Messages\<close>

definition send_message_steps :: "('a, 'd) env \<Rightarrow> io \<Rightarrow> 'a Packet \<Rightarrow> ('a, 'd) handler_prog" where
  "send_message_steps env io pkt =
     (let request = unpacked unpack_SendMessage
            \<lparr>smq_token = [], smq_message = default_RawMessage\<rparr> env pkt;
          message = smq_message request;
          sender_id = raw_from message;
          receiver_id = raw_to message;
          reply = (\<lambda>m. new_packet env SendMessageResponse (SendMessageResponse_body m)) in
      bind_prog (um_get (\<lambda>s. getUserIdByToken s (smq_token request))) (\<lambda>uid.
      if uid \<noteq> sender_id then Return (reply failed_message, NoCallback)
      else bind_prog (db_get (\<lambda>d. getUser_id (env_sql env) d receiver_id)) (\<lambda>receiver.
      if receiver = None then Return (reply failed_message, NoCallback)
      else bind_prog (createMsgByRawMsg_steps env message (io_now io)) (\<lambda>msg_result.
        case msg_result of
          None \<Rightarrow> Return (reply failed_message, NoCallback)
        | Some reply_msg \<Rightarrow>
            if raw_type message = IMAGE \<or> raw_type message = FILE
            then bind_prog (db_put (\<lambda>d. createFile (env_sql env) d (io_uuid io))) (\<lambda>file_id_result.
              case file_id_result of
                None \<Rightarrow> Return (reply failed_message, NoCallback)
              | Some file_id \<Rightarrow>
                  (let reply_msg = reply_msg\<lparr>msg_message := (msg_message reply_msg)
                         \<lparr>raw_content := file_id\<rparr>\<rparr> in
                   Return (reply reply_msg, FileMsgCallback file_id receiver_id reply_msg)))
            else Return (reply reply_msg, ForwardCallback receiver_id reply_msg)))))"

definition contact_message_steps :: "('a, 'd) env \<Rightarrow> 'a Packet \<Rightarrow> ('a, 'd) handler_prog" where
  "contact_message_steps env pkt =
     (let request = unpacked unpack_ContactMessage
            \<lparr>cmq_token = [], cmq_id = 0, cmq_internalId = 0\<rparr> env pkt;
          reply = (\<lambda>m. new_packet env ContactMessageResponse (ContactMessageResponse_body m)) in
      bind_prog (um_get (\<lambda>s. getUserIdByToken s (cmq_token request))) (\<lambda>uid.
      bind_prog (db_get (\<lambda>d. getMessage (env_sql env) d uid (cmq_id request) (cmq_internalId request)))
        (\<lambda>result.
         case result of
           None \<Rightarrow> Return (reply failed_message, NoCallback)
         | Some m \<Rightarrow> Return (reply m, NoCallback))))"

subsection \<open>Files\<close>

definition upload_steps :: "('a, 'd) env \<Rightarrow> io \<Rightarrow> 'a Packet \<Rightarrow> ('a, 'd) handler_prog" where
  "upload_steps env io pkt =
     (let request = unpacked unpack_FileUpload
            \<lparr>fuq_token = [], fuq_id = [], fuq_file = default_File, fuq_hash = []\<rparr> env pkt;
          reply = (\<lambda>success. new_packet env FileUploadResponse (FileUploadResponse_body success)) in
      bind_prog (um_get (\<lambda>s. getUserIdByToken s (fuq_token request))) (\<lambda>uid.
      if uid = 0 then Return (reply False, NoCallback)
      else bind_prog (db_get (\<lambda>d. getFile (env_sql env) d (fuq_id request))) (\<lambda>result.
        case result of
          None \<Rightarrow> Return (reply False, NoCallback)
        | Some f \<Rightarrow>
            (let f = setName (setHash f (fuq_hash request)) (file_name (fuq_file request)) in
             bind_prog (disk_step (checkDiskExistence (io_disk io) f)) (\<lambda>exists_on_disk.
             bind_prog
               (if exists_on_disk then Return False
                else disk_step (\<lambda>dsk. Inr (saveToDisk (io_disk io) f (fuq_file request) dsk))) (\<lambda>success.
             bind_prog (db_put (\<lambda>d. updateFile (env_sql env) d f)) (\<lambda>updated.
               if \<not> updated then Return (reply False, NoCallback)
               else Return (reply success,
                 if success then FileUploadedCallback (fuq_id request) else NoCallback))))))))"

definition download_steps :: "('a, 'd) env \<Rightarrow> io \<Rightarrow> 'a Packet \<Rightarrow> ('a, 'd) handler_prog" where
  "download_steps env io pkt =
     (let request = unpacked unpack_FileDownload \<lparr>fdq_token = [], fdq_id = []\<rparr> env pkt;
          reply = (\<lambda>fl h. new_packet env FileDownloadResponse (FileDownloadResponse_body fl h));
          no_name = (\<lambda>fl. fl\<lparr>file_name := []\<rparr>) in
      bind_prog (um_get (\<lambda>s. getUserIdByToken s (fdq_token request))) (\<lambda>uid.
      if uid = 0 then Return (reply (no_name default_File) [], NoCallback)
      else bind_prog (db_get (\<lambda>d. getFile (env_sql env) d (fdq_id request))) (\<lambda>result.
        case result of
          None \<Rightarrow> Return (reply (no_name default_File) [], NoCallback)
        | Some f \<Rightarrow>
            bind_prog (disk_step (checkDiskExistence (io_disk io) f)) (\<lambda>exists_on_disk.
            bind_prog
              (if exists_on_disk
               then disk_step (\<lambda>dsk. Inr (loadIntoProto (io_disk io) f default_File dsk, dsk))
               else Return (False, default_File)) (\<lambda>(loaded, fl).
              if loaded then Return (reply fl (fs_hash f), NoCallback)
              else Return (reply (no_name fl) (fs_hash f), NoCallback))))))"

subsection \<open>The callbacks\<close>

text \<open>
  \<open>getSender\<close> gives a pointer into the pool of senders, and \<open>addSendTask\<close> is called through it later,
  without the pool's mutex. Were the sender gone by then, the pointer would dangle.
\<close>

definition add_send_task :: "int32 \<Rightarrow> 'a Packet \<Rightarrow> ('a, 'd, unit) server_prog" where
  "add_send_task uid packet = atomic (\<lambda>w.
     case keepalive_sender_mp (w_server w) uid of
       None \<Rightarrow> Inl (UndefinedBehaviour ''dangling sender'')
     | Some sdr \<Rightarrow> Inr (w\<lparr>w_server := (w_server w)\<lparr>keepalive_sender_mp :=
           (keepalive_sender_mp (w_server w))(uid \<mapsto> addSendTask packet sdr)\<rparr>\<rparr>, ()))"

definition post_steps :: "int32 \<Rightarrow> 'a Packet \<Rightarrow> ('a, 'd, unit) server_prog" where
  "post_steps uid packet =
     bind_prog (um_get (\<lambda>s. getSender s uid \<noteq> None)) (\<lambda>found.
       if found then add_send_task uid packet else Return ())"

definition contact_list_steps :: "('a, 'd) env \<Rightarrow> int32 \<Rightarrow> ('a, 'd, body) server_prog" where
  "contact_list_steps env uid =
     bind_prog (db_get (getAllUsers (env_sql env))) (\<lambda>users.
     bind_prog (each_prog (\<lambda>u. db_get (\<lambda>d.
            rbind (getAllMessages (env_sql env) d uid (usr_id u)) (\<lambda>msgs.
              Inr (to_int32 (int (length msgs)))))) users) (\<lambda>internalIds.
       Return (ContactListRequest_body (map contact_of users) internalIds)))"

text \<open>
  \<open>UM::setKpAliveSender\<close>: the mutex of the pool is held throughout, but neither the thread of the channel
  nor \<open>addSendTask\<close> needs it, so something can happen between \<open>setFd\<close> and \<open>Clear\<close>. (Here other accesses
  to the pool can come in between, too, which the mutex excludes.)
\<close>

definition open_sender :: "int32 \<Rightarrow> int32 \<Rightarrow> 'a Server \<Rightarrow> bool \<times> 'a Server" where
  "open_sender uid fd s =
     (case keepalive_sender_mp s uid of
        Some sdr \<Rightarrow> (True, s\<lparr>keepalive_sender_mp := (keepalive_sender_mp s)(uid \<mapsto> setFd fd sdr)\<rparr>)
      | None \<Rightarrow> (False, s\<lparr>keepalive_sender_mp := (keepalive_sender_mp s)(uid \<mapsto> make_sender uid fd)\<rparr>))"

definition open_sender_step :: "io \<Rightarrow> int32 \<Rightarrow> int32 \<Rightarrow> ('a, 'd, bool) server_prog" where
  "open_sender_step io uid fd = atomic (\<lambda>w.
     if keepalive_sender_mp (w_server w) uid = None \<and> \<not> io_thread_ok io then Inl (UncaughtException ''thread'')
     else case open_sender uid fd (w_server w) of (found, s) \<Rightarrow> Inr (w\<lparr>w_server := s\<rparr>, found))"

definition clear_sender_step :: "int32 \<Rightarrow> ('a, 'd, unit) server_prog" where
  "clear_sender_step uid = atomic (\<lambda>w.
     case keepalive_sender_mp (w_server w) uid of
       None \<Rightarrow> Inl (UndefinedBehaviour ''dangling sender'')
     | Some sdr \<Rightarrow> Inr (w\<lparr>w_server := (w_server w)\<lparr>keepalive_sender_mp :=
           (keepalive_sender_mp (w_server w))(uid \<mapsto> sender_Clear sdr)\<rparr>\<rparr>, ()))"

definition set_sender_steps :: "io \<Rightarrow> int32 \<Rightarrow> int32 \<Rightarrow> ('a, 'd, unit) server_prog" where
  "set_sender_steps io uid fd =
     bind_prog (open_sender_step io uid fd) (\<lambda>found. if found then clear_sender_step uid else Return ())"

definition setup_channel_callback_steps ::
    "('a, 'd) env \<Rightarrow> io \<Rightarrow> int32 \<Rightarrow> int32 \<Rightarrow> ('a, 'd, unit) server_prog" where
  "setup_channel_callback_steps env io client_fd uid =
     bind_prog (pure_prog (read_captured io uid)) (\<lambda>uid.
     bind_prog (set_sender_steps io uid client_fd) (\<lambda>_.
     bind_prog (contact_list_steps env uid) (\<lambda>contact_list_request.
     bind_prog (post_steps uid (new_packet env ContactListRequest contact_list_request)) (\<lambda>_.
     bind_prog (van_step (Control (io_del_ok io) (io_close_ret io) client_fd ''EPOLL_DEL_FD''))
       (\<lambda>ret. Return ())))))"

definition file_msg_callback_steps :: "string \<Rightarrow> int32 \<Rightarrow> Message \<Rightarrow> ('a, 'd, unit) server_prog" where
  "file_msg_callback_steps file_id receiver_id reply_msg = um_put (setFileMsg file_id receiver_id reply_msg)"

definition forward_callback_steps ::
    "('a, 'd) env \<Rightarrow> io \<Rightarrow> int32 \<Rightarrow> Message \<Rightarrow> ('a, 'd, unit) server_prog" where
  "forward_callback_steps env io receiver_id reply_msg =
     bind_prog (pure_prog (read_captured io receiver_id)) (\<lambda>receiver_id.
     bind_prog (um_get (\<lambda>s. isOnline s receiver_id)) (\<lambda>is_online.
       if \<not> is_online then Return ()
       else post_steps receiver_id (new_packet env ContactMessageListRequest
              (ContactMessageListRequest_body [reply_msg]))))"

definition file_uploaded_callback_steps :: "('a, 'd) env \<Rightarrow> string \<Rightarrow> ('a, 'd, unit) server_prog" where
  "file_uploaded_callback_steps env request_id =
     bind_prog (um_get (\<lambda>s. getFileMsg s request_id)) (\<lambda>(uid, msg).
       if uid = 0 then Return ()
       else bind_prog (um_put (delFileMsg request_id)) (\<lambda>_.
         post_steps uid (new_packet env ContactMessageListRequest (ContactMessageListRequest_body [msg]))))"

definition callback_steps ::
    "('a, 'd) env \<Rightarrow> io \<Rightarrow> int32 \<Rightarrow> callback \<Rightarrow> ('a, 'd, unit) server_prog" where
  "callback_steps env io client_fd cb =
     (case cb of
        NoCallback \<Rightarrow> Return ()
      | SetupChannelCallback uid \<Rightarrow> setup_channel_callback_steps env io client_fd uid
      | FileMsgCallback file_id receiver_id reply_msg \<Rightarrow> file_msg_callback_steps file_id receiver_id reply_msg
      | ForwardCallback receiver_id reply_msg \<Rightarrow> forward_callback_steps env io receiver_id reply_msg
      | FileUploadedCallback request_id \<Rightarrow> file_uploaded_callback_steps env request_id)"

lemmas callback_steps_defs = callback_steps_def setup_channel_callback_steps_def file_msg_callback_steps_def
  forward_callback_steps_def file_uploaded_callback_steps_def

subsection \<open>The whole request\<close>

definition handle_steps ::
    "('a, 'd) env \<Rightarrow> io \<Rightarrow> 'a Packet \<Rightarrow> ('a, 'd, ('a Packet \<times> callback) option) server_prog" where
  "handle_steps env io pkt =
     (let answer = (\<lambda>h. bind_prog h (\<lambda>r. Return (Some r))) in
      case packet_type_of_id (packetId pkt) of
        Some ServerStatusRequest \<Rightarrow> Return (Some (new_packet env ServerStatusResponse
          (ServerStatusResponse_body True True), NoCallback))
      | Some ServerStatusUpdateRequest \<Rightarrow> Return (Some (new_packet env ServerStatusUpdateResponse
          (ServerStatusUpdateResponse_body True True), NoCallback))
      | Some RegisterRequest \<Rightarrow> answer (register_steps env pkt)
      | Some LoginPreRequest \<Rightarrow> answer (login_pre_steps env io pkt)
      | Some LoginRequest \<Rightarrow> answer (login_steps env io pkt)
      | Some SetupChannelRequest \<Rightarrow> answer (setup_channel_steps env pkt)
      | Some SendMessageRequest \<Rightarrow> answer (send_message_steps env io pkt)
      | Some FileUploadRequest \<Rightarrow> answer (upload_steps env io pkt)
      | Some FileDownloadRequest \<Rightarrow> answer (download_steps env io pkt)
      | Some ContactMessageRequest \<Rightarrow> answer (contact_message_steps env pkt)
      | Some DeleteMessageRequest \<Rightarrow> Return None
      | _ \<Rightarrow> Return None)"

text \<open>Up to the end of the \<open>switch\<close>, and from there to the end.\<close>

definition receive_steps ::
    "('a, 'd) env \<Rightarrow> io \<Rightarrow> ('a, 'd, ('a Packet \<times> callback) option) server_prog" where
  "receive_steps env io =
     bind_prog (van_step (\<lambda>v. rbind (Van_Recv (env_wire env) (io_recv io) v) (\<lambda>(n, pkt, v). Inr ((n, pkt), v))))
       (\<lambda>(pkt_bytes, pkt).
        case pkt of
          None \<Rightarrow> Return None
        | Some pkt \<Rightarrow> if pkt_bytes \<le> 0 then Return None else handle_steps env io pkt)"

definition reply_steps ::
    "('a, 'd) env \<Rightarrow> io \<Rightarrow> int32 \<Rightarrow> 'a Packet \<Rightarrow> callback \<Rightarrow> ('a, 'd, unit) server_prog" where
  "reply_steps env io client_fd pkt_reply cb =
     (if packet_content pkt_reply = None then Return ()
      else bind_prog (van_step (Van_Send (env_wire env) pkt_reply client_fd (io_send io))) (\<lambda>ret.
        if ret < 0
        then bind_prog (van_step (Control (io_del_ok io) (io_close_ret io) client_fd ''EPOLL_DEL_FD''))
               (\<lambda>r1.
             bind_prog (van_step (Control (io_del_ok io) (io_close_ret io) client_fd ''CLOSE_FD''))
               (\<lambda>r2. Return ()))
        else callback_steps env io client_fd cb))"

subsection \<open>Without interruption the steps are the handlers\<close>

lemma run_alone_kinds [simp]:
  "run_alone (um_get f) w = Inr (w, f (w_server w))"
  "run_alone (um_put h) w = Inr (w\<lparr>w_server := h (w_server w)\<rparr>, ())"
  "run_alone (db_get g) w = rbind (g (w_db w)) (\<lambda>r. Inr (w, r))"
  "run_alone (db_put p) w = rbind (p (w_db w)) (\<lambda>(r, db). Inr (w\<lparr>w_db := db\<rparr>, r))"
  "run_alone (disk_step k) w = rbind (k (w_disk w)) (\<lambda>(r, dsk). Inr (w\<lparr>w_disk := dsk\<rparr>, r))"
  "run_alone (van_step v) w = rbind (v (w_van w)) (\<lambda>(r, van). Inr (w\<lparr>w_van := van\<rparr>, r))"
  by (simp_all add: step_kinds)

lemma createMsg_split:
  "createMsg eng d m = rbind (insert_message eng m d) (\<lambda>(inserted, d').
     if inserted then Inr (Some (last_row eng d'), d') else Inr (None, d'))"
  by (auto simp: createMsg_def insert_message_def last_row_def Let_def
      split: option.split prod.split sum.split)

lemma createMsgByRawMsg_alone:
  "run_alone (createMsgByRawMsg_steps env m now) w =
     rbind (createMsgByRawMsg (env_sql env) (w_db w) m now) (\<lambda>(r, db). Inr (w\<lparr>w_db := db\<rparr>, r))"
  unfolding createMsg_phases createMsgByRawMsg_steps_def createMsg_steps_def store_message_def createMsg_split
  by (auto simp: rbind_assoc intro!: rbind_cong)

text \<open>A handler's result, with the state first.\<close>

definition state_first :: "('a, 'd) handled \<Rightarrow> (('a, 'd) world \<times> 'a Packet \<times> callback) run" where
  "state_first h = rbind h (\<lambda>(reply, cb, w). Inr (w, reply, cb))"

lemma state_first_simps [simp]:
  "state_first (Inr (reply, cb, w)) = Inr (w, reply, cb)" "state_first (Inl e) = Inl e"
  "state_first (rbind m f) = rbind m (\<lambda>x. state_first (f x))"
  by (simp_all add: state_first_def rbind_assoc)

lemma accounts_alone:
  "run_alone (register_steps env pkt) w = state_first (on_RegisterRequest env pkt w)"
  "run_alone (login_pre_steps env io pkt) w = state_first (on_LoginPreRequest env io pkt w)"
  "run_alone (login_steps env io pkt) w = state_first (on_LoginRequest env io pkt w)"
  "run_alone (setup_channel_steps env pkt) w = state_first (on_SetupChannelRequest env pkt w)"
proof -
  show "run_alone (register_steps env pkt) w = state_first (on_RegisterRequest env pkt w)"
    by (auto simp: register_steps_def on_RegisterRequest_def Let_def rbind_assoc intro!: rbind_cong split: prod.split)
  show "run_alone (login_pre_steps env io pkt) w = state_first (on_LoginPreRequest env io pkt w)"
    by (auto simp: login_pre_steps_def on_LoginPreRequest_def Let_def rbind_assoc intro!: rbind_cong
        split: option.split)
  show "run_alone (login_steps env io pkt) w = state_first (on_LoginRequest env io pkt w)"
    by (auto simp: login_steps_def on_LoginRequest_def Let_def rbind_assoc intro!: rbind_cong
        split: option.split)
  show "run_alone (setup_channel_steps env pkt) w = state_first (on_SetupChannelRequest env pkt w)"
    by (simp add: setup_channel_steps_def on_SetupChannelRequest_def Let_def)
qed

lemma messages_alone:
  "run_alone (send_message_steps env io pkt) w = state_first (on_SendMessageRequest env io pkt w)"
  "run_alone (contact_message_steps env pkt) w = state_first (on_ContactMessageRequest env pkt w)"
proof -
  show "run_alone (send_message_steps env io pkt) w = state_first (on_SendMessageRequest env io pkt w)"
    by (auto simp: send_message_steps_def on_SendMessageRequest_def Let_def rbind_assoc createMsgByRawMsg_alone
        intro!: rbind_cong split: option.split prod.split)
  show "run_alone (contact_message_steps env pkt) w = state_first (on_ContactMessageRequest env pkt w)"
    by (auto simp: contact_message_steps_def on_ContactMessageRequest_def Let_def rbind_assoc
        intro!: rbind_cong split: option.split)
qed

lemma files_alone:
  "run_alone (upload_steps env io pkt) w = state_first (on_FileUploadRequest env io pkt w)"
  "run_alone (download_steps env io pkt) w = state_first (on_FileDownloadRequest env io pkt w)"
proof -
  show "run_alone (upload_steps env io pkt) w = state_first (on_FileUploadRequest env io pkt w)"
    by (auto simp: upload_steps_def on_FileUploadRequest_def Let_def rbind_assoc
        intro!: rbind_cong split: option.split prod.split)
  show "run_alone (download_steps env io pkt) w = state_first (on_FileDownloadRequest env io pkt w)"
    by (auto simp: download_steps_def on_FileDownloadRequest_def Let_def rbind_assoc
        intro!: rbind_cong split: option.split prod.split)
qed

lemma handle_alone:
  "run_alone (handle_steps env io pkt) w = rbind (handle_packet env io pkt w) (\<lambda>handled.
     case handled of None \<Rightarrow> Inr (w, None) | Some (reply, cb, w') \<Rightarrow> Inr (w', Some (reply, cb)))"
  by (cases "packet_type_of_id (packetId pkt)")
    (auto simp: handle_steps_def handle_packet_def Let_def on_ServerStatusRequest_def
      on_ServerStatusUpdateRequest_def accounts_alone messages_alone files_alone state_first_def rbind_assoc
      intro!: rbind_cong split: PacketType.split)

lemma receive_alone:
  "run_alone (receive_steps env io) w =
     rbind (receive_request env io w) (\<lambda>(answer, w'). Inr (w', answer))"
  by (auto simp: receive_steps_def receive_request_def Let_def rbind_assoc handle_alone
      intro!: rbind_cong split: option.split)

lemma post_alone: "run_alone (post_steps uid p) w = Inr (w\<lparr>w_server := post_to uid p (w_server w)\<rparr>, ())"
  by (auto simp: post_steps_def add_send_task_def post_to_def getSender_def split: option.split)

lemma contact_list_alone:
  "run_alone (contact_list_steps env uid) w = rbind (contact_list env (w_db w) uid) (\<lambda>b. Inr (w, b))"
proof -
  let ?h = "\<lambda>u :: User. rbind (getAllMessages (env_sql env) (w_db w) uid (usr_id u)) (\<lambda>msgs.
      Inr (to_int32 (int (length msgs))))"
  have "run_alone (each_prog (\<lambda>u. db_get (\<lambda>d. rbind (getAllMessages (env_sql env) d uid (usr_id u)) (\<lambda>msgs.
      Inr (to_int32 (int (length msgs)))))) users) w = rbind (rmap ?h users) (\<lambda>ys. Inr (w, ys))" for users :: "User list"
    by (rule run_alone_each) simp
  then show ?thesis
    by (auto simp: contact_list_steps_def contact_list_def rbind_assoc intro!: rbind_cong)
qed

lemma set_sender_alone:
  "run_alone (set_sender_steps io uid fd) w = rbind (start_sender io uid fd (w_server w)) (\<lambda>s. Inr (w\<lparr>w_server := s\<rparr>, ()))"
  by (cases "keepalive_sender_mp (w_server w) uid")
    (simp_all add: start_sender_def set_sender_steps_def open_sender_step_def open_sender_def clear_sender_step_def setKpAliveSender_def)

lemma callback_alone:
  "run_alone (callback_steps env io fd cb) w = rbind (run_callback env io fd cb w) (\<lambda>w'. Inr (w', ()))"
  by (auto simp: callback_steps_defs run_callback_defs Let_def rbind_assoc contact_list_alone post_alone
      set_sender_alone
      intro!: rbind_cong split: callback.split prod.split)
    (auto simp: post_to_def split: option.split)

lemma reply_alone:
  "run_alone (reply_steps env io fd reply cb) w = rbind (send_reply env io fd reply cb w) (\<lambda>w'. Inr (w', ()))"
  by (auto simp: reply_steps_def send_reply_def Let_def rbind_assoc callback_alone intro!: rbind_cong)

subsection \<open>Property\<close>

text \<open>
  A request that is not interrupted does in its atomic steps what \<open>processRecvSocket\<close> does as a whole,
  with the same outcome, be it a state or a fault: receiving, handling, replying and the callback.
\<close>

theorem uninterrupted_request:
  "run_alone (bind_prog (receive_steps env io) (\<lambda>answer. case answer of None \<Rightarrow> Return ()
      | Some (reply, cb) \<Rightarrow> reply_steps env io fd reply cb)) w =
    rbind (processRecvSocket env io fd w) (\<lambda>w'. Inr (w', ()))"
  by (auto simp: receive_alone reply_alone processRecvSocket_def rbind_assoc intro!: rbind_cong
      split: option.split)

end
