(* ===== verification/Thread_System.thy ===== *)
theory Thread_System
  imports Request_Steps Server_System Chat_Spec
begin

text \<open>
  The running server with its threads interleaved between any two atomic steps: workers inside a
  request, channel threads between taking a packet and delivering it, and the accepting thread. The
  coarser relation \<open>server_step\<close> is contained in it.
\<close>

subsection \<open>Threads\<close>

text \<open>
  What a worker is doing: receiving from a socket, handling a packet (up to the end of the \<open>switch\<close>),
  about to answer, or sending the reply and running the callback. A worker that waits for a socket
  is not listed.
\<close>

datatype ('a, 'd) worker =
    Receiving int32 io
  | Handling int32 "'a Packet" "('a, 'd, ('a Packet \<times> callback) option) server_prog"
  | Answering int32 "'a Packet" callback
  | Replying "('a, 'd, unit) server_prog"

text \<open>\<open>th_channels\<close>: the packets that channel threads have taken from their queues, by user.\<close>

record ('a, 'd) threads =
  th_world :: "('a, 'd) world"
  th_workers :: "('a, 'd) worker list"
  th_channels :: "int32 \<Rightarrow> 'a Packet option"

definition at_rest :: "('a, 'd) world \<Rightarrow> ('a, 'd) threads" where
  "at_rest w = \<lparr>th_world = w, th_workers = [], th_channels = (\<lambda>_. None)\<rparr>"

text \<open>A sender with its queue replaced.\<close>

definition set_queue :: "int32 \<Rightarrow> 'a Packet ThreadsafeQueue \<Rightarrow> 'a Server \<Rightarrow> 'a Server" where
  "set_queue uid q s =
     (case keepalive_sender_mp s uid of
        None \<Rightarrow> s
      | Some sdr \<Rightarrow> s\<lparr>keepalive_sender_mp := (keepalive_sender_mp s)(uid \<mapsto> sdr\<lparr>msg_queue := q\<rparr>)\<rparr>)"

text \<open>
  A channel thread holds the mutex of its sender from the send to the end of the iteration, so
  \<open>setFd\<close> cannot come in between; nothing else that it uses is shared but the counters and the calls
  of the van, and the delivery is one step.
\<close>

inductive thread_step :: "('a, 'd) env \<Rightarrow> ('a, 'd) threads \<Rightarrow> ('a, 'd) threads \<Rightarrow> bool" for env where
  take_socket: "length ws < revc_socket_pool_thread_num \<Longrightarrow>
    WaitAndPop (RecvSocketQueue (w_van w)) = Some (fd, q) \<Longrightarrow>
    thread_step env \<lparr>th_world = w, th_workers = ws, th_channels = ch\<rparr>
      \<lparr>th_world = w\<lparr>w_van := (w_van w)\<lparr>RecvSocketQueue := q\<rparr>\<rparr>,
       th_workers = ws @ [Receiving fd io], th_channels = ch\<rparr>"
| receive: "Van_Recv (env_wire env) (io_recv io) (w_van w) = Inr (n, Some pkt, v) \<Longrightarrow> 0 < n \<Longrightarrow>
    thread_step env \<lparr>th_world = w, th_workers = ws1 @ Receiving fd io # ws2, th_channels = ch\<rparr>
      \<lparr>th_world = w\<lparr>w_van := v\<rparr>, th_workers = ws1 @ Handling fd pkt (handle_steps env io pkt) # ws2,
       th_channels = ch\<rparr>"
| ignore: "Van_Recv (env_wire env) (io_recv io) (w_van w) = Inr (n, r, v) \<Longrightarrow> r = None \<or> n \<le> 0 \<Longrightarrow>
    thread_step env \<lparr>th_world = w, th_workers = ws1 @ Receiving fd io # ws2, th_channels = ch\<rparr>
      \<lparr>th_world = w\<lparr>w_van := v\<rparr>, th_workers = ws1 @ ws2, th_channels = ch\<rparr>"
| handle: "prog_step (w, p) (w', p') \<Longrightarrow>
    thread_step env \<lparr>th_world = w, th_workers = ws1 @ Handling fd pkt p # ws2, th_channels = ch\<rparr>
      \<lparr>th_world = w', th_workers = ws1 @ Handling fd pkt p' # ws2, th_channels = ch\<rparr>"
| no_answer:
    "thread_step env \<lparr>th_world = w, th_workers = ws1 @ Handling fd pkt (Return None) # ws2, th_channels = ch\<rparr>
      \<lparr>th_world = w, th_workers = ws1 @ ws2, th_channels = ch\<rparr>"
| answer:
    "thread_step env \<lparr>th_world = w, th_workers = ws1 @ Handling fd pkt (Return (Some (reply, cb))) # ws2,
       th_channels = ch\<rparr>
      \<lparr>th_world = w, th_workers = ws1 @ Answering fd reply cb # ws2, th_channels = ch\<rparr>"
| send:
    "thread_step env \<lparr>th_world = w, th_workers = ws1 @ Answering fd reply cb # ws2, th_channels = ch\<rparr>
      \<lparr>th_world = w, th_workers = ws1 @ Replying (reply_steps env io fd reply cb) # ws2, th_channels = ch\<rparr>"
| reply: "prog_step (w, p) (w', p') \<Longrightarrow>
    thread_step env \<lparr>th_world = w, th_workers = ws1 @ Replying p # ws2, th_channels = ch\<rparr>
      \<lparr>th_world = w', th_workers = ws1 @ Replying p' # ws2, th_channels = ch\<rparr>"
| replied:
    "thread_step env \<lparr>th_world = w, th_workers = ws1 @ Replying (Return ()) # ws2, th_channels = ch\<rparr>
      \<lparr>th_world = w, th_workers = ws1 @ ws2, th_channels = ch\<rparr>"
| take_packet: "ch uid = None \<Longrightarrow> keepalive_sender_mp (w_server w) uid = Some sdr \<Longrightarrow>
    WaitAndPop (msg_queue sdr) = Some (pkt, q) \<Longrightarrow>
    thread_step env \<lparr>th_world = w, th_workers = ws, th_channels = ch\<rparr>
      \<lparr>th_world = w\<lparr>w_server := set_queue uid q (w_server w)\<rparr>, th_workers = ws,
       th_channels = ch(uid \<mapsto> pkt)\<rparr>"
| deliver_packet: "ch uid = Some pkt \<Longrightarrow> keepalive_sender_mp (w_server w) uid = Some sdr \<Longrightarrow>
    deliver env io pkt (sender_fd sdr) (w_van w) = Inr v \<Longrightarrow>
    thread_step env \<lparr>th_world = w, th_workers = ws, th_channels = ch\<rparr>
      \<lparr>th_world = w\<lparr>w_van := v\<rparr>, th_workers = ws, th_channels = ch(uid := None)\<rparr>"
| accept: "on_event e (Some (w_server w), w_van w) = Inr (Some s, v) \<Longrightarrow>
    thread_step env \<lparr>th_world = w, th_workers = ws, th_channels = ch\<rparr>
      \<lparr>th_world = w\<lparr>w_server := s, w_van := v\<rparr>, th_workers = ws, th_channels = ch\<rparr>"

inductive_cases thread_stepE: "thread_step env s s'"

lemmas rtranclp_step = converse_rtranclp_into_rtranclp
lemmas rtranclp_last = rtranclp.rtrancl_into_rtrancl

subsection \<open>One worker at a time\<close>

lemma handling_steps:
  assumes "prog_step\<^sup>*\<^sup>* x y"
  shows "(thread_step env)\<^sup>*\<^sup>*
    \<lparr>th_world = fst x, th_workers = ws1 @ Handling fd pkt (snd x) # ws2, th_channels = ch\<rparr>
    \<lparr>th_world = fst y, th_workers = ws1 @ Handling fd pkt (snd y) # ws2, th_channels = ch\<rparr>"
  using assms
proof (induction rule: rtranclp_induct)
  case (step y z)
  then have "prog_step (fst y, snd y) (fst z, snd z)" by simp
  from rtranclp_last [OF step(3) thread_step.handle [OF this]] show ?case .
qed simp

lemma replying_steps:
  assumes "prog_step\<^sup>*\<^sup>* x y"
  shows "(thread_step env)\<^sup>*\<^sup>*
    \<lparr>th_world = fst x, th_workers = ws1 @ Replying (snd x) # ws2, th_channels = ch\<rparr>
    \<lparr>th_world = fst y, th_workers = ws1 @ Replying (snd y) # ws2, th_channels = ch\<rparr>"
  using assms
proof (induction rule: rtranclp_induct)
  case (step y z)
  then have "prog_step (fst y, snd y) (fst z, snd z)" by simp
  from rtranclp_last [OF step(3) thread_step.reply [OF this]] show ?case .
qed simp

text \<open>A program, or the beginning of one, that runs without interruption.\<close>

lemma handling_runs:
  assumes "run_alone p w = Inr (w', r)"
  shows "(thread_step env)\<^sup>*\<^sup>*
    \<lparr>th_world = w, th_workers = ws1 @ Handling fd pkt (bind_prog p g) # ws2, th_channels = ch\<rparr>
    \<lparr>th_world = w', th_workers = ws1 @ Handling fd pkt (g r) # ws2, th_channels = ch\<rparr>"
  using handling_steps [OF run_alone_steps [OF assms]] by simp

lemma replying_runs:
  assumes "run_alone p w = Inr (w', r)"
  shows "(thread_step env)\<^sup>*\<^sup>*
    \<lparr>th_world = w, th_workers = ws1 @ Replying (bind_prog p g) # ws2, th_channels = ch\<rparr>
    \<lparr>th_world = w', th_workers = ws1 @ Replying (g r) # ws2, th_channels = ch\<rparr>"
  using replying_steps [OF run_alone_steps [OF assms]] by simp

subsection \<open>The coarse steps are runs of fine ones\<close>

text \<open>A request that was handled and is not answered yet is a worker after its \<open>switch\<close>.\<close>

definition waiting_worker :: "int32 \<times> 'a Packet \<times> callback \<Rightarrow> ('a, 'd) worker" where
  "waiting_worker = (\<lambda>(fd, reply, cb). Answering fd reply cb)"

definition threads_of :: "('a, 'd) system \<Rightarrow> ('a, 'd) threads" where
  "threads_of s = \<lparr>th_world = sys_world s, th_workers = map waiting_worker (sys_busy s),
     th_channels = (\<lambda>_. None)\<rparr>"

lemma threads_of_idle [simp]: "threads_of (idle w) = at_rest w"
  by (simp add: threads_of_def at_rest_def)

lemma receive_runs:
  assumes busy: "length ws < revc_socket_pool_thread_num"
    and pop: "WaitAndPop (RecvSocketQueue (w_van w)) = Some (fd, q)"
    and r: "receive_request env io (w\<lparr>w_van := (w_van w)\<lparr>RecvSocketQueue := q\<rparr>\<rparr>) = Inr (answer, w')"
  shows "(thread_step env)\<^sup>*\<^sup>* \<lparr>th_world = w, th_workers = ws, th_channels = ch\<rparr>
    \<lparr>th_world = w', th_workers = ws @ (case answer of None \<Rightarrow> [] | Some (reply, cb) \<Rightarrow> [Answering fd reply cb]),
     th_channels = ch\<rparr>"
proof -
  let ?run = "(thread_step env)\<^sup>*\<^sup>*" and ?w = "w\<lparr>w_van := (w_van w)\<lparr>RecvSocketQueue := q\<rparr>\<rparr>"
  have take: "?run \<lparr>th_world = w, th_workers = ws, th_channels = ch\<rparr>
      \<lparr>th_world = ?w, th_workers = ws @ Receiving fd io # [], th_channels = ch\<rparr>"
    by (rule r_into_rtranclp, rule thread_step.take_socket [OF busy pop])
  obtain n p v where recv: "Van_Recv (env_wire env) (io_recv io) (w_van ?w) = Inr (n, p, v)"
    using r by (auto simp: receive_request_def)
  show ?thesis
  proof (cases "p = None \<or> n \<le> 0")
    case True
    then have "answer = None" "w' = ?w\<lparr>w_van := v\<rparr>"
      using r recv by (auto simp: receive_request_def Let_def split: option.splits)
    then show ?thesis
      using rtranclp_last [OF take thread_step.ignore [OF recv True]] by simp
  next
    case False
    then obtain pkt where p: "p = Some pkt" and n: "0 < n" by auto
    have h: "run_alone (handle_steps env io pkt) (?w\<lparr>w_van := v\<rparr>) = Inr (w', answer)"
      using r recv p n by (auto simp: receive_request_def Let_def handle_alone split: option.splits)
    note got = rtranclp_last [OF take thread_step.receive [OF recv [unfolded p] n]]
    from rtranclp_trans [OF got handling_runs [OF h, where g = Return, unfolded bind_Return_right]]
    have run: "?run \<lparr>th_world = w, th_workers = ws, th_channels = ch\<rparr>
        \<lparr>th_world = w', th_workers = ws @ Handling fd pkt (Return answer) # [], th_channels = ch\<rparr>" .
    show ?thesis
    proof (cases answer)
      case None
      with rtranclp_last [OF run [unfolded None] thread_step.no_answer] show ?thesis by simp
    next
      case (Some a)
      obtain reply cb where a: "answer = Some (reply, cb)" using Some by (cases a) auto
      with rtranclp_last [OF run [unfolded a] thread_step.answer] show ?thesis by simp
    qed
  qed
qed

lemma send_reply_runs:
  assumes "send_reply env io fd reply cb w = Inr w'"
  shows "(thread_step env)\<^sup>*\<^sup>*
    \<lparr>th_world = w, th_workers = ws1 @ Answering fd reply cb # ws2, th_channels = ch\<rparr>
    \<lparr>th_world = w', th_workers = ws1 @ ws2, th_channels = ch\<rparr>"
proof -
  have "run_alone (reply_steps env io fd reply cb) w = Inr (w', ())" using assms by (simp add: reply_alone)
  from replying_runs [OF this, where g = Return]
  have "(thread_step env)\<^sup>*\<^sup>*
      \<lparr>th_world = w, th_workers = ws1 @ Replying (reply_steps env io fd reply cb) # ws2, th_channels = ch\<rparr>
      \<lparr>th_world = w', th_workers = ws1 @ Replying (Return ()) # ws2, th_channels = ch\<rparr>" by simp
  from rtranclp_last [OF this thread_step.replied] show ?thesis
    by (rule rtranclp_step [of "thread_step env", OF thread_step.send])
qed

lemma run_once_runs:
  assumes r: "run_once env io uid w = Inr (Some w')" and free: "ch uid = None"
  shows "(thread_step env)\<^sup>*\<^sup>* \<lparr>th_world = w, th_workers = ws, th_channels = ch\<rparr>
    \<lparr>th_world = w', th_workers = ws, th_channels = ch\<rparr>"
proof (rule run_once_Some [OF r])
  fix sdr pkt q v
  assume s: "keepalive_sender_mp (w_server w) uid = Some sdr" and q: "items (msg_queue sdr) = pkt # items q"
    and d: "deliver env io pkt (sender_fd sdr) (w_van w) = Inr v"
    and w': "w' = w\<lparr>w_server := (w_server w)\<lparr>keepalive_sender_mp :=
        (keepalive_sender_mp (w_server w))(uid \<mapsto> sdr\<lparr>msg_queue := q\<rparr>)\<rparr>, w_van := v\<rparr>"
  let ?w = "w\<lparr>w_server := set_queue uid q (w_server w)\<rparr>"
  have "WaitAndPop (msg_queue sdr) = Some (pkt, q)" using q by (simp add: WaitAndPop_Some_iff)
  note taken = thread_step.take_packet [of ch uid w sdr pkt q env ws, OF free s this]
  have s1: "keepalive_sender_mp (w_server ?w) uid = Some (sdr\<lparr>msg_queue := q\<rparr>)"
    using s by (simp add: set_queue_def)
  have d1: "deliver env io pkt (sender_fd (sdr\<lparr>msg_queue := q\<rparr>)) (w_van ?w) = Inr v" using d by simp
  have "thread_step env \<lparr>th_world = ?w, th_workers = ws, th_channels = ch(uid \<mapsto> pkt)\<rparr>
      \<lparr>th_world = ?w\<lparr>w_van := v\<rparr>, th_workers = ws, th_channels = (ch(uid \<mapsto> pkt))(uid := None)\<rparr>"
    by (rule thread_step.deliver_packet [OF _ s1 d1]) simp
  moreover have "?w\<lparr>w_van := v\<rparr> = w'" using s by (simp add: w' set_queue_def)
  moreover have "(ch(uid \<mapsto> pkt))(uid := None) = ch" using free by auto
  ultimately show ?thesis using taken by (auto intro: rtranclp_step)
qed

lemma coarse_step_runs:
  assumes "server_step env s s'" shows "(thread_step env)\<^sup>*\<^sup>* (threads_of s) (threads_of s')"
  using assms
proof cases
  case (receive busy w fd q io answer w')
  let ?ws = "map waiting_worker busy"
  have "length ?ws < revc_socket_pool_thread_num" using receive(3) by simp
  from receive_runs [OF this receive(4,5)] show ?thesis
    using receive(1,2) by (cases answer) (auto simp: threads_of_def waiting_worker_def)
next
  case (reply io fd reply cb w w' b1 b2)
  from send_reply_runs [OF reply(3)] show ?thesis
    using reply(1,2) by (simp add: threads_of_def waiting_worker_def)
next
  case (channel io uid w w' busy)
  then show ?thesis using run_once_runs [OF channel(3)] by (simp add: threads_of_def)
next
  case (accept e w s v busy)
  then show ?thesis by (auto simp: threads_of_def intro: thread_step.accept)
qed

text \<open>So every run of the coarse system is one of the threads.\<close>

interpretation fine_runs: simulation "server_step env" "(thread_step env)\<^sup>*\<^sup>*" threads_of "\<lambda>_. True" for env
  by unfold_locales (auto intro: coarse_step_runs)

lemma coarse_runs:
  assumes "(server_step env)\<^sup>*\<^sup>* s s'" shows "(thread_step env)\<^sup>*\<^sup>* (threads_of s) (threads_of s')"
  using fine_runs.reach_sim [OF assms] by simp

end
