(* ===== verification/Thread_Rely.thy ===== *)
theory Thread_Rely
  imports Thread_System
begin

text \<open>
  What the threads of the server keep whatever steps are interleaved, and what each may rely on while
  the others run: conversations lose their numbering (theory \<open>Races\<close>), but what a thread has found
  out (a user exists, a sender exists, a file is registered) stays true while it goes on.
\<close>

subsection \<open>What threads keep and rely on\<close>

text \<open>
  Messages are written by registered users (or by the user 0 of an unknown token) to registered
  users: the foreign keys of the table, which SQLite does not check unless it is told to.
\<close>

definition written_by_users :: "('d \<Rightarrow> string \<Rightarrow> sql_row list) \<Rightarrow> 'd \<Rightarrow> bool" where
  "written_by_users tbl d \<longleftrightarrow> (\<forall>a b. conv_of tbl d a b \<noteq> [] \<longrightarrow>
     (a = 0 \<or> known_user tbl d a) \<and> known_user tbl d b)"

definition threads_db ::
    "('d \<Rightarrow> string \<Rightarrow> sql_row list) \<Rightarrow> ('d \<Rightarrow> string \<Rightarrow> column list option) \<Rightarrow> 'd \<Rightarrow> bool" where
  "threads_db tbl sch d \<longleftrightarrow> db_ok tbl sch d \<and> written_by_users tbl d"

text \<open>Accounts are never changed or removed, files stay registered, conversations only grow at the end.\<close>

definition grows :: "('d \<Rightarrow> string \<Rightarrow> sql_row list) \<Rightarrow> 'd \<Rightarrow> 'd \<Rightarrow> bool" where
  "grows tbl d d' \<longleftrightarrow>
     (\<forall>n u. accounts_of tbl d n = Some u \<longrightarrow> accounts_of tbl d' n = Some u) \<and>
     (\<forall>i. files_of tbl d i \<noteq> None \<longrightarrow> files_of tbl d' i \<noteq> None) \<and>
     (\<forall>a b. prefix (conv_of tbl d a b) (conv_of tbl d' a b))"

definition evolves :: "('d \<Rightarrow> string \<Rightarrow> sql_row list) \<Rightarrow> ('a, 'd) world \<Rightarrow> ('a, 'd) world \<Rightarrow> bool" where
  "evolves tbl w w' \<longleftrightarrow> grows tbl (w_db w) (w_db w') \<and>
     (\<forall>u. keepalive_sender_mp (w_server w) u \<noteq> None \<longrightarrow> keepalive_sender_mp (w_server w') u \<noteq> None)"

text \<open>
  The undefined behaviour that a request can run into: a conversation with the largest number, a reply
  that is larger than the buffer, and a callback that reads a local variable of a block that was left.
  In particular no dangling pointer to a sender.
\<close>

definition tolerated :: "fault \<Rightarrow> bool" where
  "tolerated e \<longleftrightarrow> (\<forall>s. e = UndefinedBehaviour s \<longrightarrow> 
     s = ''signed overflow'' \<or> s = ''send reads past buf'' \<or> s = ''dead local'')"

definition fails_in :: "(fault \<Rightarrow> bool) \<Rightarrow> 'r run \<Rightarrow> bool" where
  "fails_in F m \<longleftrightarrow> (\<forall>e. m = Inl e \<longrightarrow> F e)"

abbreviation thread_safe where
  "thread_safe F env tbl sch \<equiv> safe F (world_inv (threads_db tbl sch) env tbl) (evolves tbl)"

lemma grows_refl [simp]: "grows tbl d d"
  by (simp add: grows_def)

lemma grows_trans: "grows tbl d d' \<Longrightarrow> grows tbl d' d'' \<Longrightarrow> grows tbl d d''"
  unfolding grows_def by (blast intro: prefix_order.trans)

interpretation threads: rely "world_inv (threads_db tbl sch) env tbl" "evolves tbl" for env tbl sch
  by unfold_locales (auto simp: evolves_def intro: grows_trans)

lemma grows_known: "grows tbl d d' \<Longrightarrow> known_user tbl d u \<Longrightarrow> known_user tbl d' u"
  unfolding grows_def known_user_def by blast

lemma grows_extends: "grows tbl d d' \<Longrightarrow> extends tbl d d'"
  unfolding extends_def by (blast intro: grows_known dest: grows_def [THEN iffD1])

lemma grows_frame:
  assumes "accounts_of tbl d' = accounts_of tbl d" and "files_of tbl d' = files_of tbl d"
    and "conv_of tbl d' = conv_of tbl d"
  shows "grows tbl d d'"
  using assms by (simp add: grows_def)

lemma written_grows:
  assumes "written_by_users tbl d" and "grows tbl d d'" and "conv_of tbl d' = conv_of tbl d"
  shows "written_by_users tbl d'"
  using assms grows_known [OF assms(2)] unfolding written_by_users_def by metis

lemma evolves_known: "evolves tbl w w' \<Longrightarrow> known_user tbl (w_db w) u \<Longrightarrow> known_user tbl (w_db w') u"
  unfolding evolves_def by (blast intro: grows_known)

lemma evolves_files:
  "evolves tbl w w' \<Longrightarrow> files_of tbl (w_db w) i \<noteq> None \<Longrightarrow> files_of tbl (w_db w') i \<noteq> None"
  by (simp add: evolves_def grows_def del: not_None_eq)

lemma evolves_sender:
  "evolves tbl w w' \<Longrightarrow> keepalive_sender_mp (w_server w) u \<noteq> None \<Longrightarrow>
   keepalive_sender_mp (w_server w') u \<noteq> None"
  by (simp add: evolves_def del: not_None_eq)

lemma evolves_callback: "evolves tbl w w' \<Longrightarrow> callback_ok tbl (w_db w) cb \<Longrightarrow> callback_ok tbl (w_db w') cb"
  using grows_extends [of tbl "w_db w" "w_db w'"] linked_server.callback_ok_extends
  by (cases cb) (auto simp: evolves_def extends_def)

lemma evolves_frame [simp]:
  "evolves tbl w (w\<lparr>w_van := v\<rparr>)" "evolves tbl w (w\<lparr>w_disk := k\<rparr>)"
  by (simp_all add: evolves_def)

lemma world_inv_db:
  assumes "world_inv (threads_db tbl sch) env tbl w" and "threads_db tbl sch d"
    and "grows tbl (w_db w) d" and "accounts_ok env tbl d"
  shows "world_inv (threads_db tbl sch) env tbl (w\<lparr>w_db := d\<rparr>) \<and> evolves tbl w (w\<lparr>w_db := d\<rparr>)"
  using server_inv_grow [OF assms(1), OF assms(2) grows_extends [OF assms(3)] assms(4)] assms(3)
  by (simp add: evolves_def)

subsection \<open>How the operations fail\<close>

named_theorems tolerable \<open>operations whose undefined behaviour is listed\<close>

lemma fails_in_Inr [simp]: "fails_in F (Inr r)"
  by (simp add: fails_in_def)

lemma fails_in_rbind:
  "fails_in F m \<Longrightarrow> (\<And>x. m = Inr x \<Longrightarrow> fails_in F (f x)) \<Longrightarrow> fails_in F (rbind m f)"
  by (auto simp: fails_in_def rbind_eq_Inl_iff)

abbreviation tolerates :: "'r run \<Rightarrow> bool" where
  "tolerates \<equiv> fails_in tolerated"

lemma tolerates_simps [simp]:
  "tolerates (Inl (UncaughtException x))" "tolerates (Inl (FatalLog x))" "tolerates (Inl StillWaiting)"
  by (simp_all add: fails_in_def tolerated_def)

text \<open>
  Without the database, the exceptions are those of \<open>create_directory\<close>, of \<open>exists\<close> and of the
  constructor of a thread.
\<close>

definition calm_fault :: "fault \<Rightarrow> bool" where
  "calm_fault e \<longleftrightarrow> tolerated e \<and> (\<forall>x. e = UncaughtException x \<longrightarrow>
     x = ''create_directory'' \<or> x = ''exists'' \<or> x = ''thread'')"

lemma calm_simps [simp]:
  "fails_in calm_fault (Inl (FatalLog x))" "fails_in calm_fault (Inl StillWaiting)"
  "fails_in calm_fault (Inl (UncaughtException ''create_directory''))"
  "fails_in calm_fault (Inl (UncaughtException ''exists''))" "calm_fault (UncaughtException ''thread'')"
  "fails_in calm_fault (Inl (UndefinedBehaviour ''send reads past buf''))"
  "fails_in calm_fault (Inl (UndefinedBehaviour ''signed overflow''))"
  "fails_in calm_fault (Inl (UndefinedBehaviour ''dead local''))"
  by (simp_all add: fails_in_def calm_fault_def tolerated_def)

lemma calm_tolerates: "fails_in calm_fault m \<Longrightarrow> tolerates m"
  by (simp add: fails_in_def calm_fault_def)

lemma calm_pure:
  "fails_in calm_fault (genToken c x)" "fails_in calm_fault (Control del_ok ret fd cmd v)"
  "fails_in calm_fault (checkDiskExistence dio f dsk)" "fails_in calm_fault (read_captured io y)"
  by (auto simp: genToken_def InitSodium_def Control_def controlEpollDel_def checkDiskExistence_def read_captured_def Let_def
      intro!: fails_in_rbind)

lemma calm_loops: "fails_in calm_fault (send_loop buf n ks)" "fails_in calm_fault (recv_loop buf rs)"
proof -
  show "fails_in calm_fault (send_loop buf n ks)"
    by (induction buf n ks rule: send_loop.induct) (auto split: send_answer.split)
  show "fails_in calm_fault (recv_loop buf rs)"
    by (induction buf rs rule: recv_loop.induct) (auto simp: Let_def)
qed

lemma calm_van: "fails_in calm_fault (Van_Send wc p fd ks v)" "fails_in calm_fault (Van_Recv wc rs v)"
proof -
  have "fails_in calm_fault (SendMesg wc p ks)" "fails_in calm_fault (RecvMesg wc rs)"
    by (auto simp: SendMesg_def RecvMesg_def Let_def intro!: fails_in_rbind calm_loops split: option.split)
  then show "fails_in calm_fault (Van_Send wc p fd ks v)" "fails_in calm_fault (Van_Recv wc rs v)"
    by (auto simp: Van_Send_def Van_Recv_def Let_def intro!: fails_in_rbind)
qed

lemmas tolerable_calls [tolerable] = calm_pure [THEN calm_tolerates] calm_van [THEN calm_tolerates]

lemma getColumn_tolerates: "tolerates (getColumn r n)"
  by (simp add: getColumn_def split: option.split)

lemma rmap_tolerates: "(\<And>x. tolerates (f x)) \<Longrightarrow> tolerates (rmap f xs)"
  by (induction xs) (auto intro!: fails_in_rbind)

lemma read_tolerates: "tolerates (read_User eng r)" "tolerates (read_Message eng r)" "tolerates (read_File eng r)"
  by (auto simp: read_User_def read_Message_def read_File_def intro!: fails_in_rbind getColumn_tolerates)

lemma fetch_tolerates:
  assumes "\<And>r. tolerates (f r)"
  shows "tolerates (fetch_first eng d st vs f)" and "tolerates (fetch_all eng d st vs f)"
  using assms rmap_tolerates [of f]
  by (auto simp: fetch_first_def fetch_all_def intro!: fails_in_rbind split: option.splits prod.splits list.splits)

lemma tolerable_queries [tolerable]:
  "tolerates (getUser_name eng d n)" "tolerates (getUser_id eng d i)" "tolerates (getAllUsers eng d)"
  "tolerates (getFile eng d u)" "tolerates (getMessage eng d a b i)" "tolerates (getAllMessages eng d a b)"
  by (simp_all add: getUser_name_def getUser_id_def getAllUsers_def getFile_def getMessage_def
      getAllMessages_def fetch_tolerates read_tolerates)

lemma tolerable_writes [tolerable]:
  "tolerates (next_message eng d rm now)" "tolerates (insert_message eng m d)"
  "tolerates (createFile eng d u)" "tolerates (updateFile eng d f)"
proof -
  show "tolerates (next_message eng d rm now)"
    unfolding next_message_def
    by (rule fails_in_rbind [OF tolerable_queries(6)])
      (simp add: fails_in_def tolerated_def split: option.split)
qed (auto simp: insert_message_def createFile_def updateFile_def Let_def intro!: fails_in_rbind tolerable_queries
    split: option.splits prod.splits sum.splits)

subsection \<open>Rules for the kinds of steps\<close>

lemma safe_um_get:
  "(\<And>w' t. evolves tbl w w' \<Longrightarrow> world_inv (threads_db tbl sch) env tbl w' \<Longrightarrow> evolves tbl w' t \<Longrightarrow>
     Q (f (w_server w')) t) \<Longrightarrow> thread_safe F env tbl sch Q (um_get f) w"
  unfolding um_get_def by (rule threads.safe_query) auto

lemma safe_um_put:
  assumes "\<And>w'. evolves tbl w w' \<Longrightarrow> world_inv (threads_db tbl sch) env tbl w' \<Longrightarrow>
    world_inv (threads_db tbl sch) env tbl (w'\<lparr>w_server := f (w_server w')\<rparr>)"
    and "\<And>s u. keepalive_sender_mp s u \<noteq> None \<Longrightarrow> keepalive_sender_mp (f s) u \<noteq> None"
  shows "thread_safe F env tbl sch (\<lambda>_ _. True) (um_put f) w"
  unfolding um_put_def
  by (rule threads.safe_change) (use assms in \<open>simp add: evolves_def del: not_None_eq\<close>)

lemma safe_db_get:
  assumes "\<And>w'. evolves tbl w w' \<Longrightarrow> world_inv (threads_db tbl sch) env tbl w' \<Longrightarrow> fails_in F (f (w_db w'))"
    and "\<And>w' r t. evolves tbl w w' \<Longrightarrow> world_inv (threads_db tbl sch) env tbl w' \<Longrightarrow>
      f (w_db w') = Inr r \<Longrightarrow> evolves tbl w' t \<Longrightarrow> Q r t"
  shows "thread_safe F env tbl sch Q (db_get f) w"
  unfolding db_get_def by (rule threads.safe_query) (use assms in \<open>auto simp: fails_in_def\<close>)

lemma safe_db_put:
  assumes "\<And>w'. evolves tbl w w' \<Longrightarrow> world_inv (threads_db tbl sch) env tbl w' \<Longrightarrow> fails_in F (f (w_db w'))"
    and "\<And>w' r d. evolves tbl w w' \<Longrightarrow> world_inv (threads_db tbl sch) env tbl w' \<Longrightarrow>
      f (w_db w') = Inr (r, d) \<Longrightarrow>
      threads_db tbl sch d \<and> grows tbl (w_db w') d \<and> accounts_ok env tbl d \<and>
      (\<forall>d'. grows tbl d d' \<longrightarrow> P r d')"
  shows "thread_safe F env tbl sch (\<lambda>r w. P r (w_db w)) (db_put f) w"
  unfolding db_put_def
proof (rule threads.safe_atomic)
  fix w' e assume "evolves tbl w w'" "world_inv (threads_db tbl sch) env tbl w'" "rbind (f (w_db w')) (\<lambda>(r, db). Inr (w'\<lparr>w_db := db\<rparr>, r)) = Inl e"
  then show "F e" using assms(1) by (auto simp: rbind_eq_Inl_iff fails_in_def)
next
  fix w' w'' r
  assume w': "evolves tbl w w'" "world_inv (threads_db tbl sch) env tbl w'"
    and "rbind (f (w_db w')) (\<lambda>(r, db). Inr (w'\<lparr>w_db := db\<rparr>, r)) = Inr (w'', r)"
  then obtain d where d: "f (w_db w') = Inr (r, d)" "w'' = w'\<lparr>w_db := d\<rparr>" by auto
  show "world_inv (threads_db tbl sch) env tbl w'' \<and> evolves tbl w' w'' \<and>
      (\<forall>t. evolves tbl w'' t \<longrightarrow> world_inv (threads_db tbl sch) env tbl t \<longrightarrow> P r (w_db t))"
    using assms(2) [OF w' d(1)] world_inv_db [OF w'(2)] by (auto simp: d(2) evolves_def)
qed

lemma safe_disk_step:
  "(\<And>k. fails_in F (f k)) \<Longrightarrow> thread_safe F env tbl sch (\<lambda>_ _. True) (disk_step f) w"
  unfolding disk_step_def by (rule threads.safe_atomic) (auto simp: rbind_eq_Inl_iff fails_in_def)

lemma safe_van_step:
  "(\<And>v. fails_in F (f v)) \<Longrightarrow> thread_safe F env tbl sch (\<lambda>_ _. True) (van_step f) w"
  unfolding van_step_def by (rule threads.safe_atomic) (auto simp: rbind_eq_Inl_iff fails_in_def)

lemma safe_result_any: "(\<And>t. evolves tbl w t \<Longrightarrow> Q r t) \<Longrightarrow> thread_safe F env tbl sch Q (Return r) w"
  by (rule safe_Return) blast

text \<open>A step whose result says nothing for good.\<close>

lemmas safe_then = threads.safe_bind [where Q' = "\<lambda>_ _. True"]

subsection \<open>What the writes to the database keep\<close>

context sqlite_laws
begin

lemma createUser_grows:
  assumes db: "threads_db tbl sch d" and c: "createUser eng d u = (b, d')"
  shows "threads_db tbl sch d' \<and> grows tbl d d' \<and> conv_of tbl d' = conv_of tbl d \<and>
    (accounts_of tbl d' = accounts_of tbl d \<or>
     (\<exists>i. accounts_of tbl d' =
        (accounts_of tbl d)(usr_username u \<mapsto> make_User i (usr_username u) (usr_password u))))"
proof (cases b)
  case False
  have "db_ok tbl sch d" using db by (simp add: threads_db_def)
  then have same: "tbl d' = tbl d" "sch d' = sch d" using createUser_False [of d u d'] c False by simp_all
  then have "accounts_of tbl d' = accounts_of tbl d" "conv_of tbl d' = conv_of tbl d"
    "files_of tbl d' = files_of tbl d"
    by (simp_all add: accounts_of_def conv_of_def conv_rows_def files_of_def fun_eq_iff)
  then show ?thesis
    using db same grows_frame [of tbl d' d] written_grows [of tbl d d'] by (simp add: threads_db_def db_ok_def)
next
  case True
  have ok: "db_ok tbl sch d" using db by (simp add: threads_db_def)
  have c': "createUser eng d u = (True, d')" using c True by simp
  have t: "tbl d' t = tbl d t" if "t \<noteq> ''users''" for t
    by (rule createUser_True [OF ok c']) (use that in blast)
  have ok': "db_ok tbl sch d'" by (rule createUser_True [OF ok c'])
  have conv: "conv_of tbl d' = conv_of tbl d" and files: "files_of tbl d' = files_of tbl d"
    by (rule frames_of_tables, rule t, simp)+
  obtain i where i: "accounts_of tbl d (usr_username u) = None" "accounts_of tbl d' =
      (accounts_of tbl d)(usr_username u \<mapsto> make_User i (usr_username u) (usr_password u))"
    using createUser_accounts [OF ok c'] by blast
  then have g: "grows tbl d d'" by (auto simp: grows_def conv files)
  then show ?thesis using db ok' i(2) conv written_grows [OF _ g conv] by (auto simp: threads_db_def)
qed

text \<open>What inserting a message does, whoever wrote it.\<close>

lemma insert_message_effect:
  assumes ok: "db_ok tbl sch d" and c: "insert_message eng m d = Inr (b, d')"
  shows "b \<and> db_ok tbl sch d' \<and> accounts_of tbl d' = accounts_of tbl d \<and> files_of tbl d' = files_of tbl d \<and>
    conv_of tbl d' = (\<lambda>a b. if a = raw_from (msg_message m) \<and> b = raw_to (msg_message m)
      then conv_of tbl d a b @ [m\<lparr>msg_id := last_row eng d'\<rparr>] else conv_of tbl d a b)"
proof -
  have b: b using createMsg_None [OF ok, of m d'] c by (cases b) (auto simp: createMsg_split)
  then have "createMsg eng d m = Inr (Some (last_row eng d'), d')" using c by (simp add: createMsg_split)
  then show ?thesis
  proof (rule createMsg_Some [OF ok])
    fix k
    assume k: "last_row eng d' = to_int32 k" and t: "tbl d' ''messages'' = tbl d ''messages'' @ [message_row m k]"
      and fr: "\<And>t. t \<noteq> ''messages'' \<Longrightarrow> tbl d' t = tbl d t" and ok': "db_ok tbl sch d'"
    have acc: "accounts_of tbl d' = accounts_of tbl d" and files: "files_of tbl d' = files_of tbl d"
      by (rule frames_of_tables, rule fr, simp)+
    show ?thesis
      using b ok' acc files by (auto simp: conv_of_def conv_rows_append [OF t] row_message_row k fun_eq_iff)
  qed
qed

lemma insert_message_grows:
  assumes db: "threads_db tbl sch d" and c: "insert_message eng m d = Inr (b, d')"
    and from_user: "raw_from (msg_message m) = 0 \<or> known_user tbl d (raw_from (msg_message m))"
    and to_user: "known_user tbl d (raw_to (msg_message m))"
  shows "b \<and> threads_db tbl sch d' \<and> grows tbl d d' \<and> accounts_of tbl d' = accounts_of tbl d"
proof -
  have "db_ok tbl sch d" using db by (simp add: threads_db_def)
  note e = insert_message_effect [OF this c]
  then have "grows tbl d d'" by (simp add: grows_def)
  moreover have "written_by_users tbl d'"
    using db from_user to_user e by (auto simp: threads_db_def written_by_users_def known_user_def)
  ultimately show ?thesis using e by (simp add: threads_db_def)
qed

lemma createFile_grows:
  assumes db: "threads_db tbl sch d" and c: "createFile eng d u = Inr (oi, d')"
  shows "threads_db tbl sch d' \<and> grows tbl d d' \<and> accounts_of tbl d' = accounts_of tbl d \<and>
    conv_of tbl d' = conv_of tbl d \<and>
    (\<forall>i. oi = Some i \<longrightarrow> files_of tbl d' i \<noteq> None)"
proof -
  have ok: "db_ok tbl sch d" using db by (simp add: threads_db_def)
  note m = createFile_maps [OF ok c]
  have acc: "accounts_of tbl d' = accounts_of tbl d" and conv: "conv_of tbl d' = conv_of tbl d"
    by (rule frames_of_tables, use m in simp)+
  have g: "grows tbl d d'" using m by (cases oi) (auto simp: grows_def acc conv)
  then show ?thesis using db m acc conv written_grows [OF _ g conv] by (auto simp: threads_db_def)
qed

lemma updateFile_grows:
  assumes db: "threads_db tbl sch d" and c: "updateFile eng d f = Inr (b, d')"
  shows "threads_db tbl sch d' \<and> grows tbl d d' \<and> accounts_of tbl d' = accounts_of tbl d \<and>
    conv_of tbl d' = conv_of tbl d"
proof -
  have ok: "db_ok tbl sch d" using db by (simp add: threads_db_def)
  note m = updateFile_rows [OF ok c]
  have acc: "accounts_of tbl d' = accounts_of tbl d" and conv: "conv_of tbl d' = conv_of tbl d"
    by (rule frames_of_tables, use m in simp)+
  have g: "grows tbl d d'" using m by (cases b) (auto simp: grows_def acc conv)
  then show ?thesis using db m acc conv written_grows [OF _ g conv] by (simp add: threads_db_def)
qed

end

end
