(* ===== verification/Server_Totality.thy ===== *)
theory Server_Totality
  imports Server_System
begin

text \<open>
  When a request cannot fail: with a database that throws no exception (beyond a violated constraint),
  room for another message in every conversation, and a directory for the files, every request of
  the protocol is answered and its callback returns. These are the only ways in which handling a
  request ends the process.
\<close>

text \<open>The directory of the files exists or can be made, and asking whether a path exists does not fail.\<close>

definition can_store_files :: "io \<Rightarrow> disk \<Rightarrow> bool" where
  "can_store_files io dsk \<longleftrightarrow> io_exists_dir (io_disk io) \<and> io_exists_file (io_disk io) \<and>
     (dsk path_prefix \<noteq> None \<or> io_mkdir (io_disk io))"

lemma disk_total: "can_store_files io dsk \<Longrightarrow> \<exists>b d. checkDiskExistence (io_disk io) f dsk = Inr (b, d)"
  by (auto simp: can_store_files_def checkDiskExistence_def Let_def)

subsection \<open>A database that does not throw\<close>

locale calm_server = linked_server env tbl sch
  for env :: "('a, 'd) env" and tbl :: "'d \<Rightarrow> string \<Rightarrow> sql_row list"
    and sch :: "'d \<Rightarrow> string \<Rightarrow> column list option" +
  assumes prepare_calm: "db_ok tbl sch d \<Longrightarrow> sql_prepare (env_sql env) d st = None"
    and select_calm: "db_ok tbl sch d \<Longrightarrow> \<exists>rs. sql_step (env_sql env) d (SelectAll t cs) vs = (rs, None)"
    and insert_calm: "db_ok tbl sch d \<Longrightarrow>
      \<exists>n d'. sql_exec (env_sql env) d (InsertInto ''messages'' message_columns_bound) (message_values m) =
        (Inr n, d')"
begin

lemma fetch_first_total:
  assumes ok: "db_ok tbl sch d" and s: "sch d t \<noteq> None"
    and rd: "\<forall>r \<in> set (tbl d t). f r = Inr (g r)"
  shows "\<exists>res. fetch_first (env_sql env) d (SelectAll t cs) vs f = Inr res"
proof -
  obtain rs where st: "sql_step (env_sql env) d (SelectAll t cs) vs = (rs, None)"
    using select_calm [OF ok] by blast
  have "set rs \<subseteq> set (tbl d t)" using sql.select_sub [OF s st] set_mset_mono by fastforce
  then show ?thesis using rd st prepare_calm [OF ok] by (cases rs) (auto simp: fetch_first_def)
qed

lemma fetch_all_total:
  assumes ok: "db_ok tbl sch d" and s: "sch d t \<noteq> None"
    and rd: "\<forall>r \<in> set (tbl d t). f r = Inr (g r)"
  shows "\<exists>res. fetch_all (env_sql env) d (SelectAll t cs) vs f = Inr res"
proof -
  obtain rs where st: "sql_step (env_sql env) d (SelectAll t cs) vs = (rs, None)"
    using select_calm [OF ok] by blast
  have "set rs \<subseteq> set (tbl d t)" using sql.select_sub [OF s st] set_mset_mono by fastforce
  then have "rmap f rs = Inr (map g rs)" using rd by (intro rmap_Inr) auto
  then show ?thesis using st prepare_calm [OF ok] by (simp add: fetch_all_def)
qed

lemma queries_total:
  assumes ok: "db_ok tbl sch d"
  shows "\<exists>r. getUser_name (env_sql env) d n = Inr r" and "\<exists>r. getUser_id (env_sql env) d i = Inr r"
    and "\<exists>r. getAllUsers (env_sql env) d = Inr r" and "\<exists>r. getFile (env_sql env) d n = Inr r"
    and "\<exists>r. getMessage (env_sql env) d a b i = Inr r"
    and "\<exists>r. getAllMessages (env_sql env) d a b = Inr r"
proof -
  have s: "sch d ''users'' \<noteq> None" "sch d ''files'' \<noteq> None" "sch d ''messages'' \<noteq> None"
    using ok by (simp_all add: db_ok_iff)
  have u: "\<forall>r \<in> set (tbl d ''users''). read_User (env_sql env) r = Inr (row_user r)"
    and f: "\<forall>r \<in> set (tbl d ''files''). read_File (env_sql env) r = Inr (row_file r)"
    and m: "\<forall>r \<in> set (tbl d ''messages''). read_Message (env_sql env) r = Inr (row_message r)"
    using sql.db_rows [OF ok] sql.read_User_row sql.read_File_row sql.read_Message_row by blast+
  show "\<exists>r. getUser_name (env_sql env) d n = Inr r" "\<exists>r. getUser_id (env_sql env) d i = Inr r"
    "\<exists>r. getAllUsers (env_sql env) d = Inr r" "\<exists>r. getFile (env_sql env) d n = Inr r"
    "\<exists>r. getMessage (env_sql env) d a b i = Inr r" "\<exists>r. getAllMessages (env_sql env) d a b = Inr r"
    unfolding getUser_name_def getUser_id_def getAllUsers_def getFile_def getMessage_def getAllMessages_def
    using fetch_first_total [OF ok s(1) u] fetch_all_total [OF ok s(1) u]
      fetch_first_total [OF ok s(2) f] fetch_first_total [OF ok s(3) m] fetch_all_total [OF ok s(3) m]
    by blast+
qed

lemma createMsg_total:
  assumes "db_ok tbl sch d" shows "\<exists>r d'. createMsg (env_sql env) d m = Inr (r, d')"
proof -
  obtain n d' where "sql_exec (env_sql env) d (InsertInto ''messages'' message_columns_bound)
      (message_values m) = (Inr n, d')" using insert_calm [OF assms] by blast
  then show ?thesis using prepare_calm [OF assms]
    by (auto simp: createMsg_def Let_def message_values_def)
qed

lemma createMsgByRawMsg_total:
  assumes inv: "store_inv tbl sch d"
    and room: "int (length (conv_of tbl d (raw_from rm) (raw_to rm))) < 2 ^ 31 - 1"
  shows "\<exists>r d'. createMsgByRawMsg (env_sql env) d rm now = Inr (r, d')"
proof -
  have ok: "db_ok tbl sch d" by (rule sql.store_inv_ok [OF inv])
  obtain ms where ms: "getAllMessages (env_sql env) d (raw_from rm) (raw_to rm) = Inr ms"
    using queries_total(6) [OF ok] by blast
  have "mset ms = mset (conv_of tbl d (raw_from rm) (raw_to rm))" by (rule sql.getAllMessages_conv [OF ok ms])
  then have "set ms = set (conv_of tbl d (raw_from rm) (raw_to rm))" by (metis set_mset_mset)
  then have "sint (max_internal_id ms 0) = int (length (conv_of tbl d (raw_from rm) (raw_to rm)))"
    using numbered_ids [OF conversation_store.inv_numbered [OF convs_contract inv]]
    by (intro max_internal_id_numbered) simp
  then obtain ii where ii: "int32_succ (max_internal_id ms 0) = Some ii"
    using room by (auto simp: int32_succ_def)
  let ?m = "\<lparr>msg_message = \<lparr>raw_from = raw_from rm, raw_to = raw_to rm, raw_type = raw_type rm,
      raw_content = raw_content rm\<rparr>, msg_id = 0, msg_timestamp = getTimestamp now, msg_internalId = ii\<rparr>"
  obtain r d' where "createMsg (env_sql env) d ?m = Inr (r, d')" using createMsg_total [OF ok] by blast
  then show ?thesis using ms ii by (cases r) (simp_all add: createMsgByRawMsg_def Let_def)
qed

lemma file_updates_total:
  assumes "db_ok tbl sch d"
  shows "\<exists>r d'. createFile (env_sql env) d u = Inr (r, d')"
    and "\<exists>r d'. updateFile (env_sql env) d f = Inr (r, d')"
  using prepare_calm [OF assms]
  by (auto simp: createFile_def updateFile_def Let_def split: prod.split sum.split)

subsection \<open>Every handler returns\<close>

lemma register_total: "\<exists>x. on_RegisterRequest env pkt w = Inr x"
proof -
  obtain h where "SHA256 (env_crypto env) (rq_rawPassword
      (unpacked unpack_Register \<lparr>rq_username = [], rq_rawPassword = []\<rparr> env pkt)) = Inr h"
    using SHA256_inv by blast
  then show ?thesis by (auto simp: on_RegisterRequest_def Let_def split: prod.split)
qed

lemma logins_total:
  assumes "db_ok tbl sch (w_db w)"
  shows "\<exists>x. on_LoginPreRequest env io pkt w = Inr x" and "\<exists>x. on_LoginRequest env io pkt w = Inr x"
proof -
  let ?q = "unpacked unpack_LoginPre \<lparr>lpq_username = []\<rparr> env pkt"
  let ?r = "unpacked unpack_Login \<lparr>lq_username = [], lq_hashPassword = []\<rparr> env pkt"
  obtain x y where x: "getUser_name (env_sql env) (w_db w) (lpq_username ?q) = Inr x"
    and y: "getUser_name (env_sql env) (w_db w) (lq_username ?r) = Inr y"
    using queries_total(1) [OF assms] by blast
  show "\<exists>x. on_LoginPreRequest env io pkt w = Inr x"
    using x by (auto simp: on_LoginPreRequest_def Let_def split: option.split)
  show "\<exists>x. on_LoginRequest env io pkt w = Inr x"
  proof (cases y)
    case None
    then show ?thesis using y by (simp add: on_LoginRequest_def Let_def)
  next
    case (Some u)
    obtain s where "SHA256 (env_crypto env) (usr_password u @ getChallengeMp (w_server w) (usr_id u)) = Inr s"
      using SHA256_inv by blast
    moreover obtain t where "genToken (env_crypto env) (io_uuid io) = Inr t"
      using crypto.SHA256_total [of "[]"] by (auto simp: genToken_def SHA256_def)
    ultimately show ?thesis using y Some by (simp add: on_LoginRequest_def Let_def)
  qed
qed

lemma send_total:
  assumes inv: "store_inv tbl sch (w_db w)"
    and room: "\<forall>a b. int (length (conv_of tbl (w_db w) a b)) < 2 ^ 31 - 1"
  shows "\<exists>x. on_SendMessageRequest env io pkt w = Inr x"
proof -
  let ?m = "smq_message (unpacked unpack_SendMessage
    \<lparr>smq_token = [], smq_message = default_RawMessage\<rparr> env pkt)"
  have ok: "db_ok tbl sch (w_db w)" by (rule sql.store_inv_ok [OF inv])
  obtain u where u: "getUser_id (env_sql env) (w_db w) (raw_to ?m) = Inr u"
    using queries_total(2) [OF ok] by blast
  obtain r d where c: "createMsgByRawMsg (env_sql env) (w_db w) ?m (io_now io) = Inr (r, d)"
    using createMsgByRawMsg_total [OF inv] room by blast
  have "db_ok tbl sch d"
    by (rule sql.store_inv_ok [OF conversation_store.append_inv [OF convs_contract inv c]])
  then obtain f d' where f: "createFile (env_sql env) d (io_uuid io) = Inr (f, d')"
    using file_updates_total(1) by blast
  show ?thesis using u c f by (cases r; cases f) (simp_all add: on_SendMessageRequest_def Let_def)
qed

lemma fetch_message_total:
  assumes "db_ok tbl sch (w_db w)" shows "\<exists>x. on_ContactMessageRequest env pkt w = Inr x"
proof -
  let ?r = "unpacked unpack_ContactMessage \<lparr>cmq_token = [], cmq_id = 0, cmq_internalId = 0\<rparr> env pkt"
  obtain r where "getMessage (env_sql env) (w_db w) (getUserIdByToken (w_server w) (cmq_token ?r))
      (cmq_id ?r) (cmq_internalId ?r) = Inr r" using queries_total(5) [OF assms] by blast
  then show ?thesis by (cases r) (simp_all add: on_ContactMessageRequest_def Let_def)
qed

lemma files_total:
  assumes ok: "db_ok tbl sch (w_db w)" and disk: "can_store_files io (w_disk w)"
  shows "\<exists>x. on_FileUploadRequest env io pkt w = Inr x" and "\<exists>x. on_FileDownloadRequest env io pkt w = Inr x"
proof -
  let ?r = "unpacked unpack_FileUpload
    \<lparr>fuq_token = [], fuq_id = [], fuq_file = default_File, fuq_hash = []\<rparr> env pkt"
  let ?q = "unpacked unpack_FileDownload \<lparr>fdq_token = [], fdq_id = []\<rparr> env pkt"
  obtain x y where x: "getFile (env_sql env) (w_db w) (fuq_id ?r) = Inr x"
    and y: "getFile (env_sql env) (w_db w) (fdq_id ?q) = Inr y" using queries_total(4) [OF ok] by blast
  show "\<exists>x. on_FileUploadRequest env io pkt w = Inr x"
  proof (cases x)
    case None
    then show ?thesis using x by (simp add: on_FileUploadRequest_def Let_def)
  next
    case (Some f)
    let ?f = "setName (setHash f (fuq_hash ?r)) (file_name (fuq_file ?r))"
    obtain b d where b: "checkDiskExistence (io_disk io) ?f (w_disk w) = Inr (b, d)"
      using disk_total [OF disk] by blast
    obtain u d' where "updateFile (env_sql env) (w_db w) ?f = Inr (u, d')"
      using file_updates_total(2) [OF ok] by blast
    then show ?thesis using x Some b by (auto simp: on_FileUploadRequest_def Let_def split: prod.split)
  qed
  show "\<exists>x. on_FileDownloadRequest env io pkt w = Inr x"
  proof (cases y)
    case None
    then show ?thesis using y by (simp add: on_FileDownloadRequest_def Let_def)
  next
    case (Some f)
    obtain b d where "checkDiskExistence (io_disk io) f (w_disk w) = Inr (b, d)"
      using disk_total [OF disk] by blast
    then show ?thesis using y Some by (simp add: on_FileDownloadRequest_def Let_def split: prod.split)
  qed
qed

lemma handle_packet_total:
  assumes inv: "store_inv tbl sch (w_db w)" and disk: "can_store_files io (w_disk w)"
    and room: "\<forall>a b. int (length (conv_of tbl (w_db w) a b)) < 2 ^ 31 - 1"
    and t: "packet_type_of_id (packetId pkt) = Some t" "response_type t = Some rt"
  shows "\<exists>x. handle_packet env io pkt w = Inr (Some x)"
proof -
  have ok: "db_ok tbl sch (w_db w)" by (rule sql.store_inv_ok [OF inv])
  note total = register_total [of pkt w] logins_total [OF ok, of io pkt] send_total [OF inv room, of io pkt]
    fetch_message_total [OF ok, of pkt] files_total [OF ok disk, of pkt]
  have easy: "\<exists>x. on_SetupChannelRequest env pkt w = Inr x"
    "\<exists>x. on_ServerStatusRequest env w = Inr x" "\<exists>x. on_ServerStatusUpdateRequest env w = Inr x"
    by (simp_all add: on_SetupChannelRequest_def on_ServerStatusRequest_def
        on_ServerStatusUpdateRequest_def Let_def)
  show ?thesis using t total easy by (cases t) (auto simp: handle_packet_def)
qed

lemma contact_list_total:
  assumes ok: "db_ok tbl sch d" shows "\<exists>b. contact_list env d u = Inr b"
proof -
  obtain us where us: "getAllUsers (env_sql env) d = Inr us" using queries_total(3) [OF ok] by blast
  have "\<forall>x :: User. \<exists>ms. getAllMessages (env_sql env) d u (usr_id x) = Inr ms"
    using queries_total(6) [OF ok] by blast
  then obtain g where "\<And>x :: User. getAllMessages (env_sql env) d u (usr_id x) = Inr (g x)" by metis
  then have "rmap (\<lambda>x. rbind (getAllMessages (env_sql env) d u (usr_id x)) (\<lambda>msgs.
      Inr (to_int32 (int (length msgs))))) us = Inr (map (\<lambda>x. to_int32 (int (length (g x)))) us)"
    by (intro rmap_Inr) simp
  then show ?thesis using us by (simp add: contact_list_def)
qed

lemma run_callback_total:
  assumes "db_ok tbl sch (w_db w)" and io: "io_del_ok io" "io_thread_ok io" "io_locals_kept io"
  shows "\<exists>w'. run_callback env io fd cb w = Inr w'"
proof (cases cb)
  case (SetupChannelCallback u)
  obtain b where "contact_list env (w_db w) u = Inr b" using contact_list_total [OF assms(1)] by blast
  then show ?thesis using SetupChannelCallback io
    by (simp add: run_callback_defs read_captured_def start_sender_def Let_def Control_def controlEpollDel_def)
qed (simp_all add: run_callback_def read_captured_def io)

lemma every_packet_answered:
  assumes inv: "server_inv env tbl sch w" and disk: "can_store_files io (w_disk w)" and del: "io_del_ok io"
    and room: "\<forall>a b. int (length (conv_of tbl (w_db w) a b)) < 2 ^ 31 - 1"
    and t: "packet_type_of_id (packetId pkt) = Some t" "response_type t = Some rt"
  shows "\<exists>b cb w1. handle_packet env io pkt w = Inr (Some (new_packet env rt b, cb, w1)) \<and>
    (io_thread_ok io \<and> io_locals_kept io \<longrightarrow>
      (\<forall>v. \<exists>w2. run_callback env io fd cb (w1\<lparr>w_van := v\<rparr>) = Inr w2))"
proof -
  have st: "store_inv tbl sch (w_db w)" using inv by (simp add: server_inv_def)
  obtain reply cb w1 where h: "handle_packet env io pkt w = Inr (Some (reply, cb, w1))"
    using handle_packet_total [OF st disk room t] by (metis prod_cases3)
  have "server_inv env tbl sch w1" using handle_packet_keeps [OF inv h] by blast
  then have "db_ok tbl sch (w_db (w1\<lparr>w_van := v\<rparr>))" for v
    using sql.store_inv_ok [of "w_db w1"] by (simp add: server_inv_def)
  then have "io_thread_ok io \<and> io_locals_kept io \<longrightarrow> (\<forall>v. \<exists>w2. run_callback env io fd cb (w1\<lparr>w_van := v\<rparr>) = Inr w2)"
    using run_callback_total [OF _ del] by blast
  moreover obtain b where "reply = new_packet env rt b"
    by (rule handle_packet_reply [OF h]) (use t in auto)
  ultimately show ?thesis using h by blast
qed

text \<open>From the arrival of the request to the end of its callback.\<close>

lemma request_returns:
  assumes inv: "server_inv env tbl sch w" and wire: "wire_codec_laws (env_wire env)"
    and small: "length (SerializeToArray (env_wire env) pkt) < kMaxMessageSize"
    and nonempty: "SerializeToArray (env_wire env) pkt \<noteq> []"
    and chunks: "concat chunks = SerializeToArray (env_wire env) pkt" "[] \<notin> set chunks"
    and recv: "io_recv io = map RecvData chunks @ RecvWouldBlock # later"
    and send: "SendFails \<notin> set (io_send io)" "SendTakes 0 \<notin> set (io_send io)"
    and io: "can_store_files io (w_disk w)" "io_del_ok io" "io_thread_ok io" "io_locals_kept io"
    and room: "\<forall>a b. int (length (conv_of tbl (w_db w) a b)) < 2 ^ 31 - 1"
    and t: "packet_type_of_id (packetId pkt) = Some t" "response_type t = Some rt"
  shows "\<exists>v b cb w1. handle_packet env io pkt (w\<lparr>w_van := v\<rparr>) = Inr (Some (new_packet env rt b, cb, w1)) \<and>
    (length (SerializeToArray (env_wire env) (new_packet env rt b)) \<le> min kMaxMessageSize (length (io_send io)) \<longrightarrow>
      (\<exists>w' calls. processRecvSocket env io fd w = Inr w' \<and> van_calls (w_van w') = van_calls (w_van w) @
         CallSend fd (SerializeToArray (env_wire env) (new_packet env rt b)) # calls))"
proof -
  have "RecvMesg (env_wire env) (io_recv io) = Inr (int (length (SerializeToArray (env_wire env) pkt)), Some pkt)"
    unfolding recv by (rule RecvMesg_chunks [OF wire small chunks]) simp
  then obtain n v where rv: "Van_Recv (env_wire env) (io_recv io) (w_van w) = Inr (n, Some pkt, v)" "0 < n"
    using nonempty by (auto simp: Van_Recv_def)
  have vc: "van_calls v = van_calls (w_van w)" using Van_Recv_van [OF rv(1)] by auto
  have "server_inv env tbl sch (w\<lparr>w_van := v\<rparr>)" using inv by simp
  from every_packet_answered [OF this _ io(2) _ t, where fd = fd] io room
  obtain b cb w1 where h: "handle_packet env io pkt (w\<lparr>w_van := v\<rparr>) = Inr (Some (new_packet env rt b, cb, w1))"
    and c: "\<forall>v. \<exists>w2. run_callback env io fd cb (w1\<lparr>w_van := v\<rparr>) = Inr w2" by auto
  have van: "w_van w1 = v" by (rule handle_packet_reply [OF h]) simp
  let ?r = "new_packet env rt b"
  have "\<exists>w' calls. processRecvSocket env io fd w = Inr w' \<and>
      van_calls (w_van w') = van_calls (w_van w) @ CallSend fd (SerializeToArray (env_wire env) ?r) # calls"
    if fits: "length (SerializeToArray (env_wire env) ?r) \<le> min kMaxMessageSize (length (io_send io))"
  proof -
    obtain rest where "SendMesg (env_wire env) ?r (io_send io) =
        Inr (int (length (SerializeToArray (env_wire env) ?r)), SerializeToArray (env_wire env) ?r, rest)"
      using SendMesg_ok [of "env_wire env" ?r "io_send io"] fits send by auto
    then obtain k v1 where sd: "Van_Send (env_wire env) ?r fd (io_send io) (w_van w1) = Inr (k, v1)" "0 \<le> k"
      by (auto simp: Van_Send_def Let_def)
    obtain w2 where w2: "run_callback env io fd cb (w1\<lparr>w_van := v1\<rparr>) = Inr w2" using c by blast
    then have p: "processRecvSocket env io fd w = Inr w2"
      using rv h sd by (simp add: processRecvSocket_defs Let_def)
    have "van_calls v1 = van_calls (w_van w) @ [CallSend fd (SerializeToArray (env_wire env) ?r)]"
      by (cases rule: Van_Send_van [OF sd(1)]) (use sd(2) vc van in simp_all)
    with w2 p show ?thesis using run_callback_calls [OF w2] by simp
  qed
  with h show ?thesis by blast
qed

end

subsection \<open>The reference engine does not throw\<close>

lemma message_row_ok:
  "row_ok messages_columns (ref_tbl d ''messages'')
     (message_row m (next_key messages_columns (ref_tbl d ''messages'') seq))"
proof -
  let ?k = "next_key messages_columns (ref_tbl d ''messages'') seq"
  have fresh: "fresh_key messages_columns (ref_tbl d ''messages'') ?k" by (rule next_key_fresh)
  have "cell r ''message_id'' \<noteq> SqlInt ?k" if "r \<in> set (ref_tbl d ''messages'')" for r
    using fresh that
    by (auto simp: fresh_key_def auto_keys_def messages_columns_def is_auto_def list_all_iff
        split: sql_value.splits)
  then show ?thesis
    by (auto simp: row_ok_def message_row_def messages_columns_def is_required_def is_auto_def
        is_unique_def list_all_iff bind_int_def)
qed

interpretation calm_ref: calm_server ref_env ref_tbl ref_sch
proof (unfold_locales, goal_cases)
  case (3 d m)
  then have "ref_sch d ''messages'' = Some messages_columns" by (simp add: db_ok_iff)
  then show ?case using message_row_ok by (auto simp: ref_engine_def Let_def messages_new_row)
qed (simp_all add: ref_engine_def)

end
