(* ===== verification/Thread_Requests.thy ===== *)
theory Thread_Requests
  imports Thread_Rely Server_Totality
begin

text \<open>
  Every handler and every callback, step by step, keeps the invariant of the threads and makes only
  changes the other threads allow for, and none of them uses a sender that is gone.
\<close>

subsection \<open>Every request is safe\<close>

text \<open>The result of the \<open>switch\<close>: a callback that may run at any later time.\<close>

definition later_ok :: "('d \<Rightarrow> string \<Rightarrow> sql_row list) \<Rightarrow> 'a Packet \<times> callback \<Rightarrow> ('a, 'd) world \<Rightarrow> bool" where
  "later_ok tbl r w = callback_ok tbl (w_db w) (case r of (reply, cb) \<Rightarrow> cb)"

definition answer_ok ::
    "('d \<Rightarrow> string \<Rightarrow> sql_row list) \<Rightarrow> ('a Packet \<times> callback) option \<Rightarrow> ('a, 'd) world \<Rightarrow> bool" where
  "answer_ok tbl answer w = (case answer of None \<Rightarrow> True | Some r \<Rightarrow> later_ok tbl r w)"

lemma safe_if:
  "(b \<Longrightarrow> safe F I R Q p s) \<Longrightarrow> (\<not> b \<Longrightarrow> safe F I R Q q s) \<Longrightarrow> safe F I R Q (if b then p else q) s"
  by simp

lemma safe_option:
  "(r = None \<Longrightarrow> safe F I R Q p s) \<Longrightarrow> (\<And>x. r = Some x \<Longrightarrow> safe F I R Q (q x) s) \<Longrightarrow>
   safe F I R Q (case r of None \<Rightarrow> p | Some x \<Rightarrow> q x) s"
  by (simp split: option.split)

lemma safe_no_callback [intro!]: "thread_safe F env tbl sch (later_ok tbl) (Return (reply, NoCallback)) w"
  by (rule safe_result_any) (simp add: later_ok_def)

subsection \<open>How the called operations fail\<close>

text \<open>
  \<open>F\<close> bounds the faults of all the operations a request calls, those on the database while it is
  well formed. What the handlers add is only the use of a sender, which has to be shown harmless.
\<close>

locale fault_bound = linked_server env tbl sch
  for env :: "('a, 'd) env" and tbl :: "'d \<Rightarrow> string \<Rightarrow> sql_row list"
    and sch :: "'d \<Rightarrow> string \<Rightarrow> column list option" +
  fixes F :: "fault \<Rightarrow> bool"
  assumes name_fails: "db_ok tbl sch d \<Longrightarrow> fails_in F (getUser_name (env_sql env) d n)"
    and id_fails: "db_ok tbl sch d \<Longrightarrow> fails_in F (getUser_id (env_sql env) d i)"
    and users_fail: "db_ok tbl sch d \<Longrightarrow> fails_in F (getAllUsers (env_sql env) d)"
    and file_fails: "db_ok tbl sch d \<Longrightarrow> fails_in F (getFile (env_sql env) d n)"
    and message_fails: "db_ok tbl sch d \<Longrightarrow> fails_in F (getMessage (env_sql env) d a b i)"
    and messages_fail: "db_ok tbl sch d \<Longrightarrow> fails_in F (getAllMessages (env_sql env) d a b)"
    and next_fails: "db_ok tbl sch d \<Longrightarrow> fails_in F (next_message (env_sql env) d rm now)"
    and insert_fails: "db_ok tbl sch d \<Longrightarrow> fails_in F (insert_message (env_sql env) m d)"
    and create_fails: "db_ok tbl sch d \<Longrightarrow> fails_in F (createFile (env_sql env) d n)"
    and update_fails: "db_ok tbl sch d \<Longrightarrow> fails_in F (updateFile (env_sql env) d f)"
    and token_fails: "fails_in F (genToken (env_crypto env) x)"
    and disk_fails: "fails_in F (checkDiskExistence dio f dsk)"
    and send_fails: "fails_in F (Van_Send (env_wire env) p fd ks v)"
    and receive_fails: "fails_in F (Van_Recv (env_wire env) rs v)"
    and captured_fails: "fails_in F (read_captured io (uid :: int32))"
    and thread_fails: "F (UncaughtException ''thread'')"
    and control_fails: "fails_in F (Control del_ok ret fd cmd v)"

lemma world_db_ok: "world_inv (threads_db tbl sch) env tbl w \<Longrightarrow> db_ok tbl sch (w_db w)"
  by (simp add: world_inv_def threads_db_def)

context fault_bound
begin

lemmas db_fails = name_fails id_fails users_fail file_fails message_fails messages_fail next_fails
  insert_fails create_fails update_fails

lemma register_safe: "thread_safe F env tbl sch (later_ok tbl) (register_steps env pkt) w"
proof -
  let ?r = "unpacked unpack_Register \<lparr>rq_username = [], rq_rawPassword = []\<rparr> env pkt"
  show ?thesis
  proof (cases "credentials_ok ?r")
    case False
    then show ?thesis by (auto simp: register_steps_def Let_def credentials_ok_def)
  next
    case True
    obtain h where h: "SHA256 (env_crypto env) (rq_rawPassword ?r) = Inr h" using SHA256_inv by blast
    let ?u = "make_User 0 (rq_username ?r) h"
    have "threads_db tbl sch d \<and> grows tbl (w_db w') d \<and> accounts_ok env tbl d"
      if i: "world_inv (threads_db tbl sch) env tbl w'"
        and c: "createUser (env_sql env) (w_db w') ?u = (b, d)" for w' b d
    proof -
      have db: "threads_db tbl sch (w_db w')" and acc: "accounts_ok env tbl (w_db w')"
        using i by (simp_all add: world_inv_def)
      note g = sql.createUser_grows [OF db c]
      have "accounts_ok env tbl d"
        by (rule accounts_ok_register [OF acc True h refl]) (use g in blast)
      then show ?thesis using g by blast
    qed
    then have put: "thread_safe F env tbl sch (\<lambda>_ _. True)
        (db_put (\<lambda>d. Inr (createUser (env_sql env) d ?u))) w" for w
      by (intro safe_db_put) auto
    show ?thesis
      using True h by (auto simp: register_steps_def Let_def credentials_ok_def intro!: safe_then [OF put])
  qed
qed

text \<open>A user that was found stays.\<close>

lemma getUser_name_safe:
  "thread_safe F env tbl sch (\<lambda>r w. case r of None \<Rightarrow> True | Some u \<Rightarrow> known_user tbl (w_db w) (usr_id u))
     (db_get (\<lambda>d. getUser_name (env_sql env) d n)) w"
proof (rule safe_db_get)
  fix w' t :: "('a, 'd) world" and r
  assume "world_inv (threads_db tbl sch) env tbl w'" and g: "getUser_name (env_sql env) (w_db w') n = Inr r"
    and t: "evolves tbl w' t"
  then have "db_ok tbl sch (w_db w')" by (simp add: world_inv_def threads_db_def)
  then have "r = accounts_of tbl (w_db w') (c_str n)" by (rule sql.getUser_name_accounts [OF _ g])
  then show "case r of None \<Rightarrow> True | Some u \<Rightarrow> known_user tbl (w_db t) (usr_id u)"
    using evolves_known [OF t] account_known by (auto split: option.split)
qed (simp add: db_fails world_db_ok)

lemma getUser_id_safe:
  "thread_safe F env tbl sch (\<lambda>r w. r = None \<or> known_user tbl (w_db w) i)
     (db_get (\<lambda>d. getUser_id (env_sql env) d i)) w"
proof (rule safe_db_get)
  fix w' t :: "('a, 'd) world" and r
  assume "world_inv (threads_db tbl sch) env tbl w'" and g: "getUser_id (env_sql env) (w_db w') i = Inr r"
    and t: "evolves tbl w' t"
  then have ok: "db_ok tbl sch (w_db w')" by (simp add: world_inv_def threads_db_def)
  show "r = None \<or> known_user tbl (w_db t) i"
    using getUser_id_known [OF ok] g evolves_known [OF t] by (cases r) auto
qed (simp add: db_fails world_db_ok)

text \<open>The user of a token, found once, is 0 or has an account from then on.\<close>

lemma token_safe:
  "thread_safe F env tbl sch (\<lambda>u w. u = 0 \<or> known_user tbl (w_db w) u)
     (um_get (\<lambda>s. getUserIdByToken s token)) w"
  by (rule safe_um_get) (use uid_known evolves_known in blast)

lemma login_pre_safe: "thread_safe F env tbl sch (later_ok tbl) (login_pre_steps env io pkt) w"
  unfolding login_pre_steps_def Let_def
proof (rule threads.safe_bind [OF getUser_name_safe])
  fix r :: "User option" and w' :: "('a, 'd) world"
  assume u: "case r of None \<Rightarrow> True | Some u \<Rightarrow> known_user tbl (w_db w') (usr_id u)"
  have "thread_safe F env tbl sch (\<lambda>_ _. True) (um_put (setChallengeMp (usr_id u) c)) w'"
    if "r = Some u" for u :: User and c
    by (rule safe_um_put) (use u that in \<open>auto simp: frame_simps intro: server_inv_setChallenge evolves_known\<close>)
  then show "thread_safe F env tbl sch (later_ok tbl) (case r of
        None \<Rightarrow> Return (new_packet env LoginPreResponse (LoginPreResponse_body []), NoCallback)
      | Some user \<Rightarrow> bind_prog (um_put (setChallengeMp (usr_id user) (genChallenge (env_crypto env) (io_rand io) (io_now io))))
          (\<lambda>_. Return (new_packet env LoginPreResponse
             (LoginPreResponse_body (genChallenge (env_crypto env) (io_rand io) (io_now io))), NoCallback))) w'"
    by (auto split: option.split intro!: safe_then)
qed

lemma login_safe: "thread_safe F env tbl sch (later_ok tbl) (login_steps env io pkt) w"
proof -
  have del: "thread_safe F env tbl sch (\<lambda>_ _. True) (um_put (delChallengeMp u)) w" for u w
    by (rule safe_um_put) (auto simp: frame_simps intro: server_inv_delChallenge)
  have put: "thread_safe F env tbl sch (\<lambda>_ _. True) (um_put (setUserIdByToken t u)) w"
    if "known_user tbl (w_db w) u" for t u w
    by (rule safe_um_put) (use that in \<open>auto simp: frame_simps intro: server_inv_token evolves_known\<close>)
  have tok: "thread_safe F env tbl sch (\<lambda>_ _. True) (pure_prog (genToken (env_crypto env) x)) w" for x w
    by (rule threads.safe_pure) (use token_fails in \<open>auto simp: fails_in_def\<close>)
  have sha: "thread_safe F env tbl sch (\<lambda>_ _. True) (pure_prog (SHA256 (env_crypto env) x)) w" for x w
    using SHA256_inv [of x] by (auto intro: safe_result_any)
  have get: "thread_safe F env tbl sch (\<lambda>_ _. True) (um_get f) w" for f :: "'a Server \<Rightarrow> string" and w
    by (rule safe_um_get) simp
  have logged: "thread_safe F env tbl sch (later_ok tbl) (bind_prog (um_put (setUserIdByToken t u)) (\<lambda>_.
      bind_prog (um_put (delChallengeMp v)) (\<lambda>_. Return (reply, NoCallback)))) w"
    if "known_user tbl (w_db w) u" for t u v reply w
    by (rule safe_then [OF put [OF that]], rule safe_then [OF del], rule safe_no_callback)
  show ?thesis
    unfolding login_steps_def Let_def
    by (rule threads.safe_bind [OF getUser_name_safe],
        auto split: option.split intro!: safe_then [OF get] safe_then [OF sha] safe_then [OF tok]
          safe_then [OF del])
      (rule logged, blast dest: evolves_known)
qed

lemma setup_channel_safe: "thread_safe F env tbl sch (later_ok tbl) (setup_channel_steps env pkt) w"
  unfolding setup_channel_steps_def Let_def
  by (rule threads.safe_bind [OF token_safe])
    (auto simp: later_ok_def intro!: safe_result_any intro: evolves_known)

text \<open>A write that leaves the accounts alone.\<close>

lemma safe_store:
  fixes P :: "'r \<Rightarrow> 'd \<Rightarrow> bool"
  assumes "\<And>d. db_ok tbl sch d \<Longrightarrow> fails_in F (f d)"
    and "\<And>w' r d. evolves tbl w w' \<Longrightarrow> threads_db tbl sch (w_db w') \<Longrightarrow> f (w_db w') = Inr (r, d) \<Longrightarrow>
      threads_db tbl sch d \<and> grows tbl (w_db w') d \<and> accounts_of tbl d = accounts_of tbl (w_db w') \<and>
      (\<forall>d'. grows tbl d d' \<longrightarrow> P r d')"
  shows "thread_safe F env tbl sch (\<lambda>r w. P r (w_db w)) (db_put f) w"
proof (rule safe_db_put)
  fix w' :: "('a, 'd) world" assume "world_inv (threads_db tbl sch) env tbl w'"
  then show "fails_in F (f (w_db w'))" using assms(1) world_db_ok by blast
next
  fix w' :: "('a, 'd) world" and r d
  assume e: "evolves tbl w w'" and i: "world_inv (threads_db tbl sch) env tbl w'" and r: "f (w_db w') = Inr (r, d)"
  have "threads_db tbl sch (w_db w')" "accounts_ok env tbl (w_db w')" using i by (simp_all add: world_inv_def)
  with assms(2) [OF e _ r] show "threads_db tbl sch d \<and> grows tbl (w_db w') d \<and> accounts_ok env tbl d \<and>
      (\<forall>d'. grows tbl d d' \<longrightarrow> P r d')" by (simp add: accounts_ok_def)
qed

lemma message_safe:
  assumes "raw_from m = 0 \<or> known_user tbl (w_db w) (raw_from m)" and "known_user tbl (w_db w) (raw_to m)"
  shows "thread_safe F env tbl sch (\<lambda>_ _. True) (createMsgByRawMsg_steps env m now) w"
  unfolding createMsgByRawMsg_steps_def
proof (rule threads.safe_bind)
  show "thread_safe F env tbl sch (\<lambda>x _. msg_message x = m) (db_get (\<lambda>d. next_message (env_sql env) d m now)) w"
    by (rule safe_db_get) (auto simp: world_db_ok intro!: db_fails dest: next_message_id [OF _ _ refl refl])
  fix x :: Message and w' assume ev: "evolves tbl w w'" and x: "msg_message x = m"
  have "thread_safe F env tbl sch (\<lambda>_ w. True) (db_put (insert_message (env_sql env) x)) w'"
  proof (rule safe_store)
    fix w'' :: "('a, 'd) world" and r d
    assume ev': "evolves tbl w' w''" and db: "threads_db tbl sch (w_db w'')"
      and i: "insert_message (env_sql env) x (w_db w'') = Inr (r, d)"
    have "raw_from m = 0 \<or> known_user tbl (w_db w'') (raw_from m)" "known_user tbl (w_db w'') (raw_to m)"
      using assms ev ev' by (blast dest: evolves_known)+
    then show "threads_db tbl sch d \<and> grows tbl (w_db w'') d \<and>
        accounts_of tbl d = accounts_of tbl (w_db w'') \<and> (\<forall>d'. grows tbl d d' \<longrightarrow> True)"
      using sql.insert_message_grows [OF db i] x by simp
  qed (simp add: db_fails world_db_ok)
  then show "thread_safe F env tbl sch (\<lambda>_ _. True) (bind_prog (createMsg_steps env x) (\<lambda>result.
      Return (case result of Some i \<Rightarrow> Some (x\<lparr>msg_id := i\<rparr>) | None \<Rightarrow> None))) w'"
    unfolding createMsg_steps_def bind_assoc
    by (rule safe_then) (auto intro!: safe_then safe_db_get safe_result_any)
qed

lemma createFile_safe:
  "thread_safe F env tbl sch (\<lambda>r w. r = None \<or> files_of tbl (w_db w) (the r) \<noteq> None)
     (db_put (\<lambda>d. createFile (env_sql env) d u)) w"
proof (rule safe_store [where P = "\<lambda>r d. r = None \<or> files_of tbl d (the r) \<noteq> None"])
  fix w' :: "('a, 'd) world" and r d
  assume db: "threads_db tbl sch (w_db w')" and c: "createFile (env_sql env) (w_db w') u = Inr (r, d)"
  show "threads_db tbl sch d \<and> grows tbl (w_db w') d \<and> accounts_of tbl d = accounts_of tbl (w_db w') \<and>
      (\<forall>d'. grows tbl d d' \<longrightarrow> r = None \<or> files_of tbl d' (the r) \<noteq> None)"
    using sql.createFile_grows [OF db c] by (cases r) (auto simp: grows_def)
qed (simp add: db_fails world_db_ok)

lemma query_any: "(\<And>d. db_ok tbl sch d \<Longrightarrow> fails_in F (f d)) \<Longrightarrow> thread_safe F env tbl sch (\<lambda>_ _. True) (db_get f) w"
  by (rule safe_db_get) (simp_all add: world_db_ok)

text \<open>The second half of a message that announces a file.\<close>

lemma file_message_safe:
  assumes known: "known_user tbl (w_db w) u"
  shows "thread_safe F env tbl sch (later_ok tbl)
    (bind_prog (db_put (\<lambda>d. createFile (env_sql env) d uuid)) (\<lambda>r. case r of
        None \<Rightarrow> Return (reply0, NoCallback)
      | Some i \<Rightarrow> Return (reply1 i, FileMsgCallback i u (with_file_id i x)))) w"
proof (rule threads.safe_bind [OF createFile_safe])
  fix r :: "string option" and w' :: "('a, 'd) world"
  assume ev: "evolves tbl w w'" and r: "r = None \<or> files_of tbl (w_db w') (the r) \<noteq> None"
  have "later_ok tbl (reply, FileMsgCallback i u (with_file_id i x)) t"
    if "evolves tbl w' t" and "r = Some i" for i t reply
    using r that evolves_files [OF that(1)] evolves_known [OF that(1) evolves_known [OF ev known]]
    by (simp add: later_ok_def with_file_id_def del: not_None_eq)
  then show "thread_safe F env tbl sch (later_ok tbl) (case r of None \<Rightarrow> Return (reply0, NoCallback)
      | Some i \<Rightarrow> Return (reply1 i, FileMsgCallback i u (with_file_id i x))) w'"
    by (auto split: option.split intro: safe_result_any)
qed

lemma forward_safe: "thread_safe F env tbl sch (later_ok tbl) (Return (reply, ForwardCallback u m)) w"
  by (rule safe_result_any) (simp add: later_ok_def)

lemma send_message_safe: "thread_safe F env tbl sch (later_ok tbl) (send_message_steps env io pkt) w"
  unfolding send_message_steps_def Let_def
  by (rule threads.safe_bind [OF token_safe], rule safe_if, rule safe_no_callback,
      rule threads.safe_bind [OF getUser_id_safe], rule safe_if, rule safe_no_callback,
      rule safe_then [OF message_safe], metis evolves_known, blast, rule safe_option,
      rule safe_no_callback, rule safe_if,
      rule file_message_safe [unfolded with_file_id_def], metis evolves_known, rule forward_safe)

lemma contact_message_safe: "thread_safe F env tbl sch (later_ok tbl) (contact_message_steps env pkt) w"
  unfolding contact_message_steps_def Let_def
  by (rule threads.safe_bind [OF token_safe], rule safe_then [OF query_any])
    (auto simp: db_fails split: option.split)

lemma upload_safe: "thread_safe F env tbl sch (later_ok tbl) (upload_steps env io pkt) w"
proof -
  have upd: "thread_safe F env tbl sch (\<lambda>_ _. True) (db_put (\<lambda>d. updateFile (env_sql env) d f)) w" for f w
    by (rule safe_store [where P = "\<lambda>_ _. True"]) (auto simp: update_fails dest: sql.updateFile_grows)
  have disk: "thread_safe F env tbl sch (\<lambda>_ _. True)
      (if b then Return False else disk_step (\<lambda>dsk. Inr (saveToDisk dio f x dsk))) w" for b dio f x w
    by (auto intro: safe_result_any safe_disk_step)
  have finished: "thread_safe F env tbl sch (later_ok tbl) (Return (reply, FileUploadedCallback i)) w" for reply i w
    by (rule safe_result_any) (simp add: later_ok_def)
  show ?thesis
    unfolding upload_steps_def Let_def
    by (rule threads.safe_bind [OF token_safe])
      (auto simp: db_fails disk_fails split: option.split intro!: safe_then [OF query_any] safe_then [OF safe_disk_step]
        safe_then [OF disk] safe_then [OF upd] finished)
qed

lemma download_safe: "thread_safe F env tbl sch (later_ok tbl) (download_steps env io pkt) w"
proof -
  have disk: "thread_safe F env tbl sch (\<lambda>_ _. True)
      (if b then disk_step (\<lambda>dsk. Inr (loadIntoProto dio f x dsk, dsk)) else Return (False, x)) w" for b dio f x w
    by (auto intro: safe_result_any safe_disk_step)
  show ?thesis
    unfolding download_steps_def Let_def
    by (rule threads.safe_bind [OF token_safe])
      (auto simp: db_fails disk_fails split: option.split intro!: safe_then [OF query_any] safe_then [OF safe_disk_step]
        safe_then [OF disk])
qed

subsection \<open>Every callback is safe\<close>

text \<open>The two halves of \<open>setKpAliveSender\<close>.\<close>

lemma server_inv_open_sender:
  assumes inv: "world_inv J env tbl w" and u: "u = 0 \<or> known_user tbl (w_db w) u"
    and s: "open_sender u fd (w_server w) = (found, s)"
  shows "world_inv J env tbl (w\<lparr>w_server := s\<rparr>)"
proof (rule server_inv_channels [OF inv])
  fix v q x assume q: "pending_packets s v = Some q" "x \<in> set q"
  have "\<forall>v q p. pending_packets (w_server w) v = Some q \<longrightarrow> p \<in> set q \<longrightarrow> is_push env p"
    using inv by (simp add: server_inv_def)
  moreover have "q = [] \<or> pending_packets (w_server w) v = Some q"
    using q(1) s by (auto simp: pending_packets_def open_sender_def setFd_def make_sender_def empty_queue_def
        split: if_splits option.splits)
  ultimately show "is_push env x" using q(2) by auto
qed (use s u in \<open>auto simp: open_sender_def split: option.splits if_splits\<close>)

lemma keepalive_dom_open_sender:
  "open_sender u fd s = (found, s') \<Longrightarrow>
   keepalive_sender_mp s' v \<noteq> None \<longleftrightarrow> v = u \<or> keepalive_sender_mp s v \<noteq> None"
  by (auto simp: open_sender_def split: option.splits)

lemma server_inv_clear_sender:
  assumes inv: "world_inv J env tbl w" and sdr: "keepalive_sender_mp (w_server w) u = Some sdr"
  shows "world_inv J env tbl (w\<lparr>w_server := (w_server w)\<lparr>keepalive_sender_mp :=
    (keepalive_sender_mp (w_server w))(u \<mapsto> sender_Clear sdr)\<rparr>\<rparr>)"
proof (rule server_inv_channels [OF inv])
  fix v q x
  assume "pending_packets ((w_server w)\<lparr>keepalive_sender_mp := (keepalive_sender_mp (w_server w))(u \<mapsto> sender_Clear sdr)\<rparr>) v = Some q"
    and "x \<in> set q"
  moreover have "\<forall>v q p. pending_packets (w_server w) v = Some q \<longrightarrow> p \<in> set q \<longrightarrow> is_push env p"
    using inv by (simp add: server_inv_def)
  ultimately show "is_push env x" by (auto simp: pending_packets_def sender_Clear_def split: if_splits)
qed (use sdr in \<open>auto split: if_splits\<close>)

text \<open>A sender, once made, is never removed: so the pointer that \<open>getSender\<close> gave stays valid.\<close>

lemma add_send_task_safe:
  assumes there: "u \<noteq> 0" "keepalive_sender_mp (w_server w) u \<noteq> None" and p: "is_push env p"
  shows "thread_safe F env tbl sch (\<lambda>_ _. True) (add_send_task u p) w"
  unfolding add_send_task_def
proof (rule threads.safe_atomic)
  fix w' e
  assume "evolves tbl w w'" and "(case keepalive_sender_mp (w_server w') u of None \<Rightarrow> Inl (UndefinedBehaviour ''dangling sender'')
    | Some sdr \<Rightarrow> Inr (w'\<lparr>w_server := (w_server w')\<lparr>keepalive_sender_mp :=
        (keepalive_sender_mp (w_server w'))(u \<mapsto> addSendTask p sdr)\<rparr>\<rparr>, ())) = Inl e"
  then show "F e" using evolves_sender [of tbl w w' u] there(2) by (auto split: option.splits)
next
  fix w' w'' r
  assume inv: "world_inv (threads_db tbl sch) env tbl w'"
    and "(case keepalive_sender_mp (w_server w') u of None \<Rightarrow> Inl (UndefinedBehaviour ''dangling sender'')
    | Some sdr \<Rightarrow> Inr (w'\<lparr>w_server := (w_server w')\<lparr>keepalive_sender_mp :=
        (keepalive_sender_mp (w_server w'))(u \<mapsto> addSendTask p sdr)\<rparr>\<rparr>, ())) = Inr (w'', r)"
  then have w'': "w'' = w'\<lparr>w_server := post_to u p (w_server w')\<rparr>"
    using there(1) by (auto simp: post_to_def getSender_def split: option.splits)
  then show "world_inv (threads_db tbl sch) env tbl w'' \<and> evolves tbl w' w'' \<and>
      (\<forall>t. evolves tbl w'' t \<longrightarrow> world_inv (threads_db tbl sch) env tbl t \<longrightarrow> True)"
    using server_inv_post_to [OF inv p] keepalive_dom_post_to [of u p "w_server w'"]
    by (simp add: evolves_def del: not_None_eq)
qed

lemma post_safe:
  assumes "is_push env p" shows "thread_safe F env tbl sch (\<lambda>_ _. True) (post_steps u p) w"
  unfolding post_steps_def
proof (rule threads.safe_bind)
  show "thread_safe F env tbl sch (\<lambda>found w. found \<longrightarrow> u \<noteq> 0 \<and> keepalive_sender_mp (w_server w) u \<noteq> None)
      (um_get (\<lambda>s. getSender s u \<noteq> None)) w"
    by (rule safe_um_get) (auto simp: getSender_def simp del: not_None_eq dest: evolves_sender)
qed (use assms in \<open>auto intro: safe_if add_send_task_safe safe_result_any simp del: not_None_eq\<close>)

lemma contact_list_safe: "thread_safe F env tbl sch (\<lambda>_ _. True) (contact_list_steps env u) w"
proof -
  have each: "thread_safe F env tbl sch (\<lambda>_ _. True) (each_prog (\<lambda>x. db_get (\<lambda>d.
      rbind (getAllMessages (env_sql env) d u (usr_id x)) (\<lambda>msgs. Inr (to_int32 (int (length msgs)))))) xs) w"
    for xs :: "User list" and w
    by (rule threads.safe_each, rule query_any) (auto intro!: fails_in_rbind db_fails)
  show ?thesis
    unfolding contact_list_steps_def
    by (rule safe_then [OF query_any], rule users_fail, assumption, rule safe_then [OF each], rule safe_result_any, rule TrueI)
qed

lemma pushes [simp]:
  "is_push env (new_packet env ContactListRequest b)"
  "is_push env (new_packet env ContactMessageListRequest b)"
  by (auto simp: is_push_def is_reply_def)

lemma set_sender_safe:
  assumes u: "u = 0 \<or> known_user tbl (w_db w) u"
  shows "thread_safe F env tbl sch (\<lambda>_ _. True) (set_sender_steps io u fd) w"
  unfolding set_sender_steps_def
proof (rule threads.safe_bind)
  show "thread_safe F env tbl sch (\<lambda>found w. found \<longrightarrow> keepalive_sender_mp (w_server w) u \<noteq> None) (open_sender_step io u fd) w"
    unfolding open_sender_step_def
  proof (rule threads.safe_atomic)
    fix w' w'' found
    assume ev: "evolves tbl w w'" and inv: "world_inv (threads_db tbl sch) env tbl w'"
      and "(if keepalive_sender_mp (w_server w') u = None \<and> \<not> io_thread_ok io then Inl (UncaughtException ''thread'')
        else case open_sender u fd (w_server w') of (found, s) \<Rightarrow> Inr (w'\<lparr>w_server := s\<rparr>, found)) = Inr (w'', found)"
    then obtain s where s: "open_sender u fd (w_server w') = (found, s)" and w'': "w'' = w'\<lparr>w_server := s\<rparr>"
      by (auto split: prod.splits if_splits)
    have "u = 0 \<or> known_user tbl (w_db w') u" using u evolves_known [OF ev] by blast
    from server_inv_open_sender [OF inv this s] keepalive_dom_open_sender [OF s]
    show "world_inv (threads_db tbl sch) env tbl w'' \<and> evolves tbl w' w'' \<and> (\<forall>t. evolves tbl w'' t \<longrightarrow>
        world_inv (threads_db tbl sch) env tbl t \<longrightarrow> found \<longrightarrow> keepalive_sender_mp (w_server t) u \<noteq> None)"
      using evolves_sender [of tbl w'' _ u] by (auto simp: w'' evolves_def simp del: not_None_eq)
  qed (use thread_fails in \<open>auto split: prod.splits if_splits\<close>)
next
  fix found and w' :: "('a, 'd) world"
  assume there: "found \<longrightarrow> keepalive_sender_mp (w_server w') u \<noteq> None"
  have "thread_safe F env tbl sch (\<lambda>_ _. True) (clear_sender_step u) w'" if found
    unfolding clear_sender_step_def
  proof (rule threads.safe_atomic)
    fix t e
    assume "evolves tbl w' t" and "(case keepalive_sender_mp (w_server t) u of None \<Rightarrow> Inl (UndefinedBehaviour ''dangling sender'')
      | Some sdr \<Rightarrow> Inr (t\<lparr>w_server := (w_server t)\<lparr>keepalive_sender_mp :=
          (keepalive_sender_mp (w_server t))(u \<mapsto> sender_Clear sdr)\<rparr>\<rparr>, ())) = Inl e"
    then show "F e" using evolves_sender [of tbl w' t u] there that by (auto split: option.splits)
  next
    fix t t' r
    assume inv: "world_inv (threads_db tbl sch) env tbl t"
      and "(case keepalive_sender_mp (w_server t) u of None \<Rightarrow> Inl (UndefinedBehaviour ''dangling sender'')
      | Some sdr \<Rightarrow> Inr (t\<lparr>w_server := (w_server t)\<lparr>keepalive_sender_mp :=
          (keepalive_sender_mp (w_server t))(u \<mapsto> sender_Clear sdr)\<rparr>\<rparr>, ())) = Inr (t', r)"
    then obtain sdr where sdr: "keepalive_sender_mp (w_server t) u = Some sdr"
      and t': "t' = t\<lparr>w_server := (w_server t)\<lparr>keepalive_sender_mp :=
          (keepalive_sender_mp (w_server t))(u \<mapsto> sender_Clear sdr)\<rparr>\<rparr>"
      by (auto split: option.splits)
    show "world_inv (threads_db tbl sch) env tbl t' \<and> evolves tbl t t' \<and>
        (\<forall>x. evolves tbl t' x \<longrightarrow> world_inv (threads_db tbl sch) env tbl x \<longrightarrow> True)"
      using server_inv_clear_sender [OF inv sdr] sdr by (auto simp: t' evolves_def)
  qed
  then show "thread_safe F env tbl sch (\<lambda>_ _. True) (if found then clear_sender_step u else Return ()) w'"
    by (auto intro: safe_result_any)
qed

lemma safe_captured:
  fixes x :: int32
  assumes "thread_safe F env tbl sch Q (p x) w"
  shows "thread_safe F env tbl sch Q (bind_prog (pure_prog (read_captured io x)) p) w"
  by (rule threads.safe_bind, rule threads.safe_pure [where Q = "\<lambda>y t. y = x \<and> evolves tbl w t"])
    (use assms captured_fails [of io x] threads.safe_stable [OF assms] in \<open>auto simp: fails_in_def\<close>)

lemma channel_callback_safe:
  assumes "u = 0 \<or> known_user tbl (w_db w) u"
  shows "thread_safe F env tbl sch (\<lambda>_ _. True) (callback_steps env io fd (SetupChannelCallback u)) w"
proof -
  show ?thesis
    unfolding callback_steps_defs callback.case
    by (rule safe_captured, rule safe_then [OF set_sender_safe [OF assms]], rule safe_then [OF contact_list_safe], rule safe_then [OF post_safe], rule pushes,
        rule safe_then [OF safe_van_step], rule control_fails, rule safe_result_any, rule TrueI)
qed

lemma callback_safe:
  assumes "callback_ok tbl (w_db w) cb"
  shows "thread_safe F env tbl sch (\<lambda>_ _. True) (callback_steps env io fd cb) w"
proof (cases cb)
  case NoCallback
  then show ?thesis by (simp add: callback_steps_defs safe_result_any)
next
  case (SetupChannelCallback u)
  then show ?thesis using channel_callback_safe assms by simp
next
  case (FileMsgCallback i u m)
  have "thread_safe F env tbl sch (\<lambda>_ _. True) (um_put (setFileMsg i u m)) w"
  proof (rule safe_um_put)
    fix w' :: "('a, 'd) world"
    assume "evolves tbl w w'" and inv: "world_inv (threads_db tbl sch) env tbl w'"
    then have "callback_ok tbl (w_db w') (FileMsgCallback i u m)"
      using assms by (simp only: FileMsgCallback evolves_callback)
    then show "world_inv (threads_db tbl sch) env tbl (w'\<lparr>w_server := setFileMsg i u m (w_server w')\<rparr>)"
      by (rule server_inv_setFileMsg [OF inv])
  qed (simp add: frame_simps)
  then show ?thesis by (simp add: callback_steps_defs FileMsgCallback)
next
  case (ForwardCallback u m)
  have online: "thread_safe F env tbl sch (\<lambda>_ _. True) (um_get (\<lambda>s. isOnline s u)) w"
    by (rule safe_um_get) simp
  show ?thesis
    unfolding callback_steps_defs ForwardCallback callback.case
    by (rule safe_captured, rule safe_then [OF online], rule safe_if, rule safe_result_any, rule TrueI, rule post_safe, rule pushes)
next
  case (FileUploadedCallback i)
  have waiting: "thread_safe F env tbl sch (\<lambda>_ _. True) (um_get (\<lambda>s. getFileMsg s i)) w"
    by (rule safe_um_get) simp
  have del: "thread_safe F env tbl sch (\<lambda>_ _. True) (um_put (delFileMsg i)) w" for w
    by (rule safe_um_put) (auto simp: frame_simps intro: server_inv_delFileMsg)
  show ?thesis
    unfolding callback_steps_defs FileUploadedCallback callback.case
    by (rule safe_then [OF waiting])
      (auto intro!: safe_if safe_result_any safe_then [OF del] post_safe)
qed

subsection \<open>The whole request\<close>

lemma handle_safe: "thread_safe F env tbl sch (answer_ok tbl) (handle_steps env io pkt) w"
proof -
  have answer: "thread_safe F env tbl sch (answer_ok tbl) (bind_prog h (\<lambda>r. Return (Some r))) w"
    if "thread_safe F env tbl sch (later_ok tbl) h w" for h
    by (rule threads.safe_bind [OF that])
      (auto intro!: safe_result_any simp: answer_ok_def later_ok_def dest: evolves_callback)
  have static: "thread_safe F env tbl sch (answer_ok tbl) (Return (Some (reply, NoCallback))) w"
    "thread_safe F env tbl sch (answer_ok tbl) (Return None) w" for reply
    by (rule safe_result_any, simp add: answer_ok_def later_ok_def)+
  show ?thesis
    by (cases "packet_type_of_id (packetId pkt)")
      (auto simp: handle_steps_def Let_def static split: PacketType.split
        intro!: answer register_safe login_pre_safe login_safe setup_channel_safe send_message_safe
          contact_message_safe upload_safe download_safe)
qed

lemma reply_safe:
  assumes "callback_ok tbl (w_db w) cb"
  shows "thread_safe F env tbl sch (\<lambda>_ _. True) (reply_steps env io fd reply cb) w"
proof -
  have control: "thread_safe F env tbl sch (\<lambda>_ _. True)
      (van_step (Control (io_del_ok io) (io_close_ret io) fd cmd)) w" for cmd w
    by (rule safe_van_step) (rule control_fails)
  show ?thesis
    unfolding reply_steps_def
    by (rule safe_if, rule safe_result_any, rule TrueI, rule safe_then [OF safe_van_step], rule send_fails)
      (auto intro!: safe_then [OF control] safe_result_any callback_safe evolves_callback [OF _ assms])
qed

end

subsection \<open>What the faults are\<close>

text \<open>With any database: listed undefined behaviour, exceptions, fatal logs, and calls that still wait.\<close>

context linked_server
begin

lemma listed_bound: "fault_bound env tbl sch tolerated"
  by unfold_locales (simp_all add: tolerable tolerated_def)

end

sublocale linked_server \<subseteq> listed: fault_bound env tbl sch tolerated
  by (rule listed_bound)

context calm_server
begin

lemma total_fails_in: "\<exists>r. m = Inr r \<Longrightarrow> fails_in F m" "\<exists>r d. m' = Inr (r, d) \<Longrightarrow> fails_in F m'"
  by (auto simp: fails_in_def)

lemma next_message_calm:
  assumes "db_ok tbl sch d" shows "fails_in calm_fault (next_message (env_sql env) d rm now)"
  unfolding next_message_def
  by (rule fails_in_rbind, rule total_fails_in(1) [OF queries_total(6) [OF assms]]) (simp split: option.split)

lemma insert_message_calm:
  assumes "db_ok tbl sch d" shows "fails_in F (insert_message (env_sql env) m d)"
  using insert_calm [OF assms, of m] prepare_calm [OF assms]
  by (auto simp: insert_message_def Let_def message_values_def fails_in_def)

lemma calm_bound: "fault_bound env tbl sch calm_fault"
  by unfold_locales
    (simp_all add: calm_pure calm_van total_fails_in queries_total file_updates_total next_message_calm insert_message_calm)

end

text \<open>With a database that does not throw, only the directory of the files can be missing.\<close>

sublocale calm_server \<subseteq> calm: fault_bound env tbl sch calm_fault
  by (rule calm_bound)

interpretation ref_faults: fault_bound ref_env ref_tbl ref_sch calm_fault
  by unfold_locales

end
