(* ===== verification/Thread_Invariant.thy ===== *)
theory Thread_Invariant
  imports Thread_Requests
begin

text \<open>
  The invariant of the running threads: it holds in every state they can reach from a started server,
  whatever steps are interleaved, and later states keep what earlier ones have.
\<close>

subsection \<open>The invariant\<close>

fun worker_safe ::
    "(fault \<Rightarrow> bool) \<Rightarrow> ('a, 'd) env \<Rightarrow> ('d \<Rightarrow> string \<Rightarrow> sql_row list) \<Rightarrow> ('d \<Rightarrow> string \<Rightarrow> column list option) \<Rightarrow>
     ('a, 'd) world \<Rightarrow> ('a, 'd) worker \<Rightarrow> bool" where
  "worker_safe F env tbl sch w (Receiving fd io) = True"
| "worker_safe F env tbl sch w (Handling fd pkt p) = thread_safe F env tbl sch (answer_ok tbl) p w"
| "worker_safe F env tbl sch w (Answering fd reply cb) = callback_ok tbl (w_db w) cb"
| "worker_safe F env tbl sch w (Replying p) = thread_safe F env tbl sch (\<lambda>_ _. True) p w"

definition channels_safe :: "('a, 'd) env \<Rightarrow> ('a, 'd) world \<Rightarrow> (int32 \<Rightarrow> 'a Packet option) \<Rightarrow> bool" where
  "channels_safe env w ch \<longleftrightarrow> (\<forall>u p. ch u = Some p \<longrightarrow>
     is_push env p \<and> keepalive_sender_mp (w_server w) u \<noteq> None)"

definition threads_inv ::
    "(fault \<Rightarrow> bool) \<Rightarrow> ('a, 'd) env \<Rightarrow> ('d \<Rightarrow> string \<Rightarrow> sql_row list) \<Rightarrow> ('d \<Rightarrow> string \<Rightarrow> column list option) \<Rightarrow>
     ('a, 'd) threads \<Rightarrow> bool" where
  "threads_inv F env tbl sch s \<longleftrightarrow> world_inv (threads_db tbl sch) env tbl (th_world s) \<and>
     length (th_workers s) \<le> revc_socket_pool_thread_num \<and>
     (\<forall>k \<in> set (th_workers s). worker_safe F env tbl sch (th_world s) k) \<and>
     channels_safe env (th_world s) (th_channels s)"

text \<open>The other threads do not disturb one.\<close>

lemma worker_safe_stable:
  "worker_safe F env tbl sch w k \<Longrightarrow> evolves tbl w w' \<Longrightarrow> worker_safe F env tbl sch w' k"
  by (cases k) (auto intro: threads.safe_stable evolves_callback)

lemma channels_safe_stable: "channels_safe env w ch \<Longrightarrow> evolves tbl w w' \<Longrightarrow> channels_safe env w' ch"
  unfolding channels_safe_def using evolves_sender [of tbl w w'] by blast

text \<open>A step that changes the world, and one worker or none.\<close>

lemma threads_inv_worker:
  assumes inv: "threads_inv F env tbl sch \<lparr>th_world = w, th_workers = ws1 @ k # ws2, th_channels = ch\<rparr>"
    and w: "world_inv (threads_db tbl sch) env tbl w'" "evolves tbl w w'"
    and k: "worker_safe F env tbl sch w' k'"
  shows "threads_inv F env tbl sch \<lparr>th_world = w', th_workers = ws1 @ k' # ws2, th_channels = ch\<rparr>"
  using inv w k worker_safe_stable [OF _ w(2)] channels_safe_stable [OF _ w(2)] by (simp add: threads_inv_def)

lemma threads_inv_world:
  assumes inv: "threads_inv F env tbl sch \<lparr>th_world = w, th_workers = ws, th_channels = ch\<rparr>"
    and w: "world_inv (threads_db tbl sch) env tbl w'" "evolves tbl w w'"
    and ch: "\<And>u p. ch' u = Some p \<Longrightarrow> ch u = Some p \<or>
      (is_push env p \<and> keepalive_sender_mp (w_server w) u \<noteq> None)"
  shows "threads_inv F env tbl sch \<lparr>th_world = w', th_workers = ws, th_channels = ch'\<rparr>"
proof -
  have "channels_safe env w ch'"
    unfolding channels_safe_def using inv ch by (fastforce simp: threads_inv_def channels_safe_def)
  then show ?thesis
    using inv w worker_safe_stable [OF _ w(2)] channels_safe_stable [OF _ w(2)] by (simp add: threads_inv_def)
qed

subsection \<open>Every step keeps it\<close>

lemma world_inv_set_queue:
  assumes inv: "world_inv J env tbl w" and s: "keepalive_sender_mp (w_server w) u = Some sdr"
    and q: "items (msg_queue sdr) = p # items q"
  shows "world_inv J env tbl (w\<lparr>w_server := set_queue u q (w_server w)\<rparr>) \<and> is_push env p \<and>
    evolves tbl w (w\<lparr>w_server := set_queue u q (w_server w)\<rparr>)"
proof (intro conjI)
  have push: "is_push env x" if "pending_packets (w_server w) v = Some xs" "x \<in> set xs" for v xs x
    using inv that unfolding world_inv_def by blast
  have pend: "pending_packets (w_server w) u = Some (p # items q)" using s q by (simp add: pending_packets_def)
  show "is_push env p" using push [OF pend] by simp
  show "world_inv J env tbl (w\<lparr>w_server := set_queue u q (w_server w)\<rparr>)"
  proof (rule server_inv_channels [OF inv])
    fix v xs x
    assume "pending_packets (set_queue u q (w_server w)) v = Some xs" "x \<in> set xs"
    then show "is_push env x"
      using s push [OF pend] push [of v] by (auto simp: set_queue_def pending_packets_def split: if_splits)
  qed (use s in \<open>auto simp: set_queue_def split: if_splits\<close>)
  show "evolves tbl w (w\<lparr>w_server := set_queue u q (w_server w)\<rparr>)"
    using s by (simp add: evolves_def set_queue_def)
qed

lemma world_inv_accept:
  assumes inv: "world_inv J env tbl w" and e: "on_event e (Some (w_server w), w_van w) = Inr (Some s, v)"
  shows "world_inv J env tbl (w\<lparr>w_server := s, w_van := v\<rparr>) \<and> evolves tbl w (w\<lparr>w_server := s, w_van := v\<rparr>)"
proof -
  have s: "s = (w_server w)\<lparr>revc_socket_pool := revc_socket_pool s\<rparr>" using on_event_Inr [OF e] by blast
  then have "keepalive_sender_mp s = keepalive_sender_mp (w_server w)"
    by (metis Server.ext_inject Server.surjective Server.update_convs(1))
  moreover have "world_inv J env tbl ((w\<lparr>w_server := (w_server w)\<lparr>revc_socket_pool := revc_socket_pool s\<rparr>\<rparr>)\<lparr>w_van := v\<rparr>)"
    using inv by simp
  ultimately show ?thesis by (subst (asm) s [symmetric]) (simp add: evolves_def)
qed

text \<open>A worker that is at work takes one step of its program.\<close>

lemma worker_step:
  assumes inv: "threads_inv F env tbl sch \<lparr>th_world = w, th_workers = ws1 @ k # ws2, th_channels = ch\<rparr>"
    and k: "worker_safe F env tbl sch w k" "\<And>w'. worker_safe F env tbl sch w' k' = thread_safe F env tbl sch Q p' w'"
    and p: "thread_safe F env tbl sch Q p w" and step: "prog_step (w, p) (w', p')"
  shows "threads_inv F env tbl sch \<lparr>th_world = w', th_workers = ws1 @ k' # ws2, th_channels = ch\<rparr> \<and>
    evolves tbl w w'"
proof -
  have "world_inv (threads_db tbl sch) env tbl w" using inv by (simp add: threads_inv_def)
  note s = threads.safe_step [OF p this step]
  then show ?thesis using threads_inv_worker [OF inv, of w' k'] k(2) by simp
qed

lemma worker_gone:
  "threads_inv F env tbl sch \<lparr>th_world = w, th_workers = ws1 @ k # ws2, th_channels = ch\<rparr> \<Longrightarrow>
   threads_inv F env tbl sch \<lparr>th_world = w, th_workers = ws1 @ ws2, th_channels = ch\<rparr>"
  by (auto simp: threads_inv_def)

context fault_bound
begin

lemma thread_step_keeps:
  assumes inv: "threads_inv F env tbl sch s" and step: "thread_step env s s'"
  shows "threads_inv F env tbl sch s' \<and> evolves tbl (th_world s) (th_world s')"
  using step
proof cases
  case (take_socket ws w fd q ch io)
  then show ?thesis
    using inv take_socket(3) threads_inv_world [OF inv [unfolded take_socket(1)],
        of "w\<lparr>w_van := (w_van w)\<lparr>RecvSocketQueue := q\<rparr>\<rparr>" ch]
    by (simp add: take_socket(1,2) threads_inv_def Suc_le_eq)
next
  case (receive io w n pkt v ws1 fd ws2 ch)
  have "world_inv (threads_db tbl sch) env tbl w" using inv by (simp add: receive(1) threads_inv_def)
  then show ?thesis
    using threads_inv_worker [OF inv [unfolded receive(1)], of "w\<lparr>w_van := v\<rparr>" "Handling fd pkt (handle_steps env io pkt)"]
    by (simp add: receive(1,2) handle_safe)
next
  case (ignore io w n r v ws1 fd ws2 ch)
  have w: "world_inv (threads_db tbl sch) env tbl w" using inv by (simp add: ignore(1) threads_inv_def)
  have "threads_inv F env tbl sch \<lparr>th_world = w\<lparr>w_van := v\<rparr>, th_workers = ws1 @ Receiving fd io # ws2, th_channels = ch\<rparr>"
    by (rule threads_inv_worker [OF inv [unfolded ignore(1)]]) (use w in simp_all)
  then show ?thesis using worker_gone by (fastforce simp: ignore(1,2))
next
  case (handle w p w' p' ws1 fd pkt ws2 ch)
  have "thread_safe F env tbl sch (answer_ok tbl) p w" using inv by (simp add: handle(1) threads_inv_def)
  then show ?thesis
    using worker_step [OF inv [unfolded handle(1)], of "Handling fd pkt p'", OF _ _ _ handle(3)] by (simp add: handle)
next
  case (no_answer w ws1 fd pkt ws2 ch)
  then show ?thesis using inv worker_gone by (fastforce simp: evolves_def)
next
  case (answer w ws1 fd pkt reply cb ws2 ch)
  have w: "world_inv (threads_db tbl sch) env tbl w"
    and k: "thread_safe F env tbl sch (answer_ok tbl) (Return (Some (reply, cb))) w"
    using inv by (simp_all add: answer(1) threads_inv_def)
  have "callback_ok tbl (w_db w) cb" using threads.safe_result [OF k w] by (simp add: answer_ok_def later_ok_def)
  then show ?thesis
    using threads_inv_worker [OF inv [unfolded answer(1)] w threads.R_refl, of "Answering fd reply cb"]
    by (simp add: answer threads.R_refl)
next
  case (send w ws1 fd reply cb ws2 ch io)
  have w: "world_inv (threads_db tbl sch) env tbl w" and cb: "callback_ok tbl (w_db w) cb"
    using inv by (simp_all add: send(1) threads_inv_def)
  then show ?thesis
    using threads_inv_worker [OF inv [unfolded send(1)] w threads.R_refl, of "Replying (reply_steps env io fd reply cb)"]
    by (simp add: send reply_safe threads.R_refl)
next
  case (reply w p w' p' ws1 ws2 ch)
  have "thread_safe F env tbl sch (\<lambda>_ _. True) p w" using inv by (simp add: reply(1) threads_inv_def)
  then show ?thesis
    using worker_step [OF inv [unfolded reply(1)], of "Replying p'", OF _ _ _ reply(3)] by (simp add: reply)
next
  case (replied w ws1 ws2 ch)
  then show ?thesis using inv worker_gone by (fastforce simp: evolves_def)
next
  case (take_packet ch uid w sdr pkt q ws)
  have w: "world_inv (threads_db tbl sch) env tbl w" using inv by (simp add: take_packet(1) threads_inv_def)
  have "items (msg_queue sdr) = pkt # items q" using take_packet(5) by (simp add: WaitAndPop_Some_iff)
  note q = world_inv_set_queue [OF w take_packet(4) this]
  have "threads_inv F env tbl sch \<lparr>th_world = w\<lparr>w_server := set_queue uid q (w_server w)\<rparr>, th_workers = ws,
      th_channels = ch(uid \<mapsto> pkt)\<rparr>"
    by (rule threads_inv_world [OF inv [unfolded take_packet(1)]])
      (use q take_packet(4) in \<open>auto split: if_splits\<close>)
  then show ?thesis using q by (simp add: take_packet(1,2))
next
  case (deliver_packet ch uid pkt w sdr io v ws)
  have w: "world_inv (threads_db tbl sch) env tbl w" using inv by (simp add: deliver_packet(1) threads_inv_def)
  have "threads_inv F env tbl sch \<lparr>th_world = w\<lparr>w_van := v\<rparr>, th_workers = ws, th_channels = ch(uid := None)\<rparr>"
    by (rule threads_inv_world [OF inv [unfolded deliver_packet(1)]]) (use w in \<open>auto split: if_splits\<close>)
  then show ?thesis by (simp add: deliver_packet(1,2))
next
  case (accept e w s1 v ws ch)
  have w: "world_inv (threads_db tbl sch) env tbl w" using inv by (simp add: accept(1) threads_inv_def)
  show ?thesis
    using threads_inv_world [OF inv [unfolded accept(1)], of _ ch] world_inv_accept [OF w accept(3)]
    by (simp add: accept)
qed

text \<open>The growth of the world is a simulation, whose invariant is that of the threads.\<close>

lemma threads_running:
  "simulation (thread_step env) (evolves tbl) th_world (threads_inv F env tbl sch)"
  using thread_step_keeps by unfold_locales blast+

lemma threads_run:
  assumes "threads_inv F env tbl sch s" and "(thread_step env)\<^sup>*\<^sup>* s s'"
  shows "threads_inv F env tbl sch s' \<and> evolves tbl (th_world s) (th_world s')"
proof
  show "threads_inv F env tbl sch s'" by (rule simulation.reach_inv [OF threads_running assms(2,1)])
  have "(evolves tbl)\<^sup>*\<^sup>* (th_world s) (th_world s')"
    by (rule simulation.reach_sim [OF threads_running assms(2,1)])
  then show "evolves tbl (th_world s) (th_world s')"
    by (induction rule: rtranclp_induct) (auto intro: threads.R_refl threads.R_trans)
qed

end

subsection \<open>A server that starts\<close>

text \<open>
  The pools are empty; the database may be one an earlier run of the program left, with conversations
  that lost their numbering.
\<close>

definition ready :: "('a, 'd) env \<Rightarrow> ('d \<Rightarrow> string \<Rightarrow> sql_row list) \<Rightarrow> ('d \<Rightarrow> string \<Rightarrow> column list option) \<Rightarrow>
    ('a, 'd) world \<Rightarrow> bool" where
  "ready env tbl sch w \<longleftrightarrow>
     threads_db tbl sch (w_db w) \<and> accounts_ok env tbl (w_db w) \<and> w_server w = empty_Server"

lemma ready_inv: "ready env tbl sch w \<Longrightarrow> threads_inv F env tbl sch (at_rest w)"
  by (simp add: ready_def threads_inv_def at_rest_def channels_safe_def world_inv_def empty_Server_def
      pending_packets_def)

text \<open>The fault with which a worker's next step would end the process.\<close>

fun next_fault :: "('a, 'd) env \<Rightarrow> ('a, 'd) world \<Rightarrow> ('a, 'd) worker \<Rightarrow> fault option" where
  "next_fault env w (Receiving fd io) =
     (case Van_Recv (env_wire env) (io_recv io) (w_van w) of Inl e \<Rightarrow> Some e | Inr _ \<Rightarrow> None)"
| "next_fault env w (Handling fd pkt (Step f)) = (case f w of Inl e \<Rightarrow> Some e | Inr _ \<Rightarrow> None)"
| "next_fault env w (Replying (Step f)) = (case f w of Inl e \<Rightarrow> Some e | Inr _ \<Rightarrow> None)"
| "next_fault env w _ = None"

context fault_bound
begin

lemma next_fault_bounded:
  assumes "threads_inv F env tbl sch s" and "k \<in> set (th_workers s)" and "next_fault env (th_world s) k = Some e"
  shows "F e"
proof -
  have w: "world_inv (threads_db tbl sch) env tbl (th_world s)" and k: "worker_safe F env tbl sch (th_world s) k"
    using assms(1,2) by (auto simp: threads_inv_def)
  show ?thesis
    using k assms(3) receive_fails by (cases "(env, th_world s, k)" rule: next_fault.cases)
      (auto split: sum.splits simp: fails_in_def dest: threads.safe_fault [OF _ w])
qed

end

context linked_server
begin

lemma threads_reach:
  assumes "ready env tbl sch w0" and "(thread_step env)\<^sup>*\<^sup>* (at_rest w0) s"
  shows "threads_inv tolerated env tbl sch s"
  using listed.threads_run [OF ready_inv [OF assms(1)] assms(2)] by blast

lemma threads_grow:
  assumes "ready env tbl sch w0" and "(thread_step env)\<^sup>*\<^sup>* (at_rest w0) s" and "(thread_step env)\<^sup>*\<^sup>* s s'"
  shows "evolves tbl (th_world s) (th_world s')"
  using listed.threads_run [OF threads_reach [OF assms(1,2)] assms(3)] by blast

end

context calm_server
begin

lemma threads_calm:
  assumes "ready env tbl sch w0" and "(thread_step env)\<^sup>*\<^sup>* (at_rest w0) s"
  shows "threads_inv calm_fault env tbl sch s"
  using calm.threads_run [OF ready_inv [OF assms(1)] assms(2)] by blast

end

text \<open>An example: one socket waits, and a worker takes it.\<close>

lemma ready_waiting: "ready ref_env ref_tbl ref_sch waiting_world"
proof -
  have "db_ok ref_tbl ref_sch fresh_db" using store_inv_fresh_db by (simp add: store_inv_def)
  then show ?thesis
    by (simp add: ready_def threads_db_def written_by_users_def conv_of_def conv_rows_def accounts_ok_def
        accounts_of_def waiting_world_def start_world_def)
qed

lemma worker_starts:
  "\<exists>w. (thread_step ref_env)\<^sup>*\<^sup>* (at_rest waiting_world)
     \<lparr>th_world = w, th_workers = [Receiving 5 io], th_channels = (\<lambda>_. None)\<rparr>"
proof -
  have "length [] < revc_socket_pool_thread_num" by (simp add: revc_socket_pool_thread_num_def)
  from thread_step.take_socket [OF this waiting_pop, of ref_env "\<lambda>_. None" io] show ?thesis
    by (auto simp: at_rest_def)
qed

subsection \<open>Properties\<close>

text \<open>
  C4: Whatever steps of the threads are interleaved: a token identifies nobody or a user with an account;
  only users with an account are online; every file message that waits is about a registered file,
  is addressed to a user and names the file; only contact lists and new messages are delivered on
  channels, by threads whose sender exists; every stored message was written by a user with an
  account (or without a session, by user 0) to a user with an account; and at most ten workers are
  at work.
\<close>

theorem threads_invariant:
  assumes laws: "linked_server env tbl sch" and start: "ready env tbl sch w0"
    and run: "(thread_step env)\<^sup>*\<^sup>* (at_rest w0) s" and w: "w = th_world s"
  shows "(\<forall>t. getUserIdByToken (w_server w) t = 0 \<or>
       known_user tbl (w_db w) (getUserIdByToken (w_server w) t)) \<and>
    (\<forall>u. isOnline (w_server w) u \<longrightarrow> known_user tbl (w_db w) u) \<and>
    (\<forall>i u m. file_msg_pool (w_server w) i = Some (u, m) \<longrightarrow>
       known_user tbl (w_db w) u \<and> files_of tbl (w_db w) i \<noteq> None \<and> raw_content (msg_message m) = i) \<and>
    (\<forall>u p. th_channels s u = Some p \<longrightarrow> keepalive_sender_mp (w_server w) u \<noteq> None \<and>
       (is_reply env ContactListRequest p \<or> is_reply env ContactMessageListRequest p)) \<and>
    (\<forall>a b. conv_of tbl (w_db w) a b \<noteq> [] \<longrightarrow>
       (a = 0 \<or> known_user tbl (w_db w) a) \<and> known_user tbl (w_db w) b) \<and>
    length (th_workers s) \<le> revc_socket_pool_thread_num"
proof (intro conjI)
  note sys = linked_server.threads_reach [OF laws start run]
  then have inv: "world_inv (threads_db tbl sch) env tbl w" by (simp add: threads_inv_def w)
  show "\<forall>t. getUserIdByToken (w_server w) t = 0 \<or>
      known_user tbl (w_db w) (getUserIdByToken (w_server w) t)" using uid_known [OF inv] by blast
  show "\<forall>u. isOnline (w_server w) u \<longrightarrow> known_user tbl (w_db w) u"
    using inv by (auto simp: world_inv_def isOnline_def getSender_def)
  show "\<forall>i u m. file_msg_pool (w_server w) i = Some (u, m) \<longrightarrow>
      known_user tbl (w_db w) u \<and> files_of tbl (w_db w) i \<noteq> None \<and> raw_content (msg_message m) = i"
    using inv unfolding world_inv_def by blast
  show "\<forall>u p. th_channels s u = Some p \<longrightarrow> keepalive_sender_mp (w_server w) u \<noteq> None \<and>
      (is_reply env ContactListRequest p \<or> is_reply env ContactMessageListRequest p)"
    using sys unfolding threads_inv_def channels_safe_def is_push_def w by blast
  show "\<forall>a b. conv_of tbl (w_db w) a b \<noteq> [] \<longrightarrow>
      (a = 0 \<or> known_user tbl (w_db w) a) \<and> known_user tbl (w_db w) b"
    using inv unfolding world_inv_def threads_db_def written_by_users_def by blast
  show "length (th_workers s) \<le> revc_socket_pool_thread_num" using sys by (simp add: threads_inv_def)
qed

theorem threads_invariant_witness:
  "\<exists>s. (thread_step ref_env)\<^sup>*\<^sup>* (at_rest waiting_world) s \<and> length (th_workers s) = 1 \<and>
     (\<forall>t. getUserIdByToken (w_server (th_world s)) t = 0 \<or>
       known_user ref_tbl (w_db (th_world s)) (getUserIdByToken (w_server (th_world s)) t))"
proof -
  obtain w where run: "(thread_step ref_env)\<^sup>*\<^sup>* (at_rest waiting_world) \<lparr>th_world = w,
      th_workers = [Receiving 5 status_io], th_channels = (\<lambda>_. None)\<rparr>"
    using worker_starts by blast
  show ?thesis
    using threads_invariant [OF ref_server.linked_server_axioms ready_waiting run refl] run
    by (intro exI [of _ "\<lparr>th_world = w, th_workers = [Receiving 5 status_io],
      th_channels = (\<lambda>_. None)\<rparr>"]) simp
qed

text \<open>
  C9: In whatever order the threads take their steps, and whatever the operating system answers, the
  undefined behaviour a worker can run into is one of three: the number after the largest one of a
  conversation, a reply larger than the buffer it is sent from, and a callback (of a channel request
  or of a forwarded text message) that reads a local variable of a block that was left, which the
  two lambdas capture by reference. In particular the sender that \<open>getSender\<close> returned is still
  there when \<open>addSendTask\<close> or \<open>Clear\<close> is called without the mutex. When the database does not throw,
  the exceptions that can end the process are those of \<open>create_directory\<close>, of \<open>exists\<close> and of the
  constructor of a sender's thread.
\<close>

theorem threads_faults:
  assumes laws: "linked_server env tbl sch" and start: "ready env tbl sch w0"
    and run: "(thread_step env)\<^sup>*\<^sup>* (at_rest w0) s" and k: "k \<in> set (th_workers s)"
    and e: "next_fault env (th_world s) k = Some e"
  shows "(\<forall>x. e = UndefinedBehaviour x \<longrightarrow>
      x = ''signed overflow'' \<or> x = ''send reads past buf'' \<or> x = ''dead local'') \<and>
    (calm_server env tbl sch \<longrightarrow> (\<forall>x. e = UncaughtException x \<longrightarrow>
      x = ''create_directory'' \<or> x = ''exists'' \<or> x = ''thread''))"
proof
  show "\<forall>x. e = UndefinedBehaviour x \<longrightarrow>
      x = ''signed overflow'' \<or> x = ''send reads past buf'' \<or> x = ''dead local''"
    using fault_bound.next_fault_bounded [OF linked_server.listed_bound [OF laws]
        linked_server.threads_reach [OF laws start run] k e] by (simp add: tolerated_def)
  show "calm_server env tbl sch \<longrightarrow> (\<forall>x. e = UncaughtException x \<longrightarrow>
      x = ''create_directory'' \<or> x = ''exists'' \<or> x = ''thread'')"
  proof
    assume "calm_server env tbl sch"
    from fault_bound.next_fault_bounded [OF calm_server.calm_bound [OF this] calm_server.threads_calm [OF this start run] k e]
    show "\<forall>x. e = UncaughtException x \<longrightarrow>
        x = ''create_directory'' \<or> x = ''exists'' \<or> x = ''thread''" by (simp add: calm_fault_def)
  qed
qed

theorem threads_faults_witness:
  "\<exists>w k e. (thread_step ref_env)\<^sup>*\<^sup>* (at_rest waiting_world)
       \<lparr>th_world = w, th_workers = [k], th_channels = (\<lambda>_. None)\<rparr> \<and> next_fault ref_env w k = Some e \<and>
     (\<forall>x. e \<noteq> UndefinedBehaviour x \<or> x = ''signed overflow'' \<or> x = ''send reads past buf'' \<or> x = ''dead local'') \<and>
     (\<forall>x. e \<noteq> UncaughtException x \<or> x = ''create_directory'' \<or> x = ''exists'' \<or> x = ''thread'')"
proof -
  obtain w k s where s: "s = \<lparr>th_world = w, th_workers = [k], th_channels = (\<lambda>_. None)\<rparr>"
      and run: "(thread_step ref_env)\<^sup>*\<^sup>* (at_rest waiting_world) s"
      and e: "next_fault ref_env (th_world s) k = Some StillWaiting"
    using worker_starts [of example_io_now] by (auto simp: Van_Recv_def RecvMesg_def example_io_now_def)
  have "k \<in> set (th_workers s)" by (simp add: s)
  note threads_faults [OF ref_server.linked_server_axioms ready_waiting run this e]
  then show ?thesis using run e calm_ref.calm_server_axioms unfolding s threads.simps by blast
qed

text \<open>
  C11: While the threads run, in whatever order they take their steps: an account is never removed or
  changed; a file that is registered stays registered (an upload overwrites its name and hash); what
  a conversation holds stays as it is, and new messages come after it; and a user who has a sender
  keeps having one (its socket and its queue change when the user opens a channel again).
\<close>

theorem threads_history:
  assumes laws: "linked_server env tbl sch" and start: "ready env tbl sch w0"
    and run: "(thread_step env)\<^sup>*\<^sup>* (at_rest w0) s" and on: "(thread_step env)\<^sup>*\<^sup>* s s'"
    and d: "d = w_db (th_world s)" and d': "d' = w_db (th_world s')"
  shows "(\<forall>n u. accounts_of tbl d n = Some u \<longrightarrow> accounts_of tbl d' n = Some u) \<and>
    (\<forall>i. files_of tbl d i \<noteq> None \<longrightarrow> files_of tbl d' i \<noteq> None) \<and>
    (\<forall>a b. prefix (conv_of tbl d a b) (conv_of tbl d' a b)) \<and>
    (\<forall>u. getSender (w_server (th_world s)) u \<noteq> None \<longrightarrow> getSender (w_server (th_world s')) u \<noteq> None)"
proof -
  have ev: "evolves tbl (th_world s) (th_world s')" by (rule linked_server.threads_grow [OF laws start run on])
  then have "grows tbl d d'" by (simp add: evolves_def d d')
  moreover have "getSender (w_server (th_world s)) u \<noteq> None \<longrightarrow> getSender (w_server (th_world s')) u \<noteq> None" for u
    using evolves_sender [OF ev, of u] by (simp add: getSender_def del: not_None_eq)
  ultimately show ?thesis unfolding grows_def by blast
qed

theorem threads_history_witness:
  "\<exists>s. (thread_step ref_env)\<^sup>*\<^sup>* (at_rest waiting_world) s \<and> length (th_workers s) = 1 \<and>
     (\<forall>a b. prefix (conv_of ref_tbl fresh_db a b) (conv_of ref_tbl (w_db (th_world s)) a b))"
proof -
  obtain w where run: "(thread_step ref_env)\<^sup>*\<^sup>* (at_rest waiting_world) \<lparr>th_world = w,
      th_workers = [Receiving 5 status_io], th_channels = (\<lambda>_. None)\<rparr>"
    using worker_starts by blast
  have d: "fresh_db = w_db (th_world (at_rest waiting_world))"
    by (simp add: at_rest_def waiting_world_def start_world_def)
  show ?thesis
    using threads_history [OF ref_server.linked_server_axioms ready_waiting rtranclp.rtrancl_refl run d refl] run
    by (intro exI [of _ "\<lparr>th_world = w, th_workers = [Receiving 5 status_io],
      th_channels = (\<lambda>_. None)\<rparr>"]) simp
qed

end
