(* ===== verification/Program.thy ===== *)
theory Program
  imports Chat_Refinement Thread_Invariant
begin

text \<open>
  \<open>src/main.cpp\<close>: the program opens its database and constructs the server, and so reaches a state from
  which the invariants of the running server hold, whatever an earlier run of the program has left.
\<close>

subsection \<open>Starting\<close>

text \<open>
  \<open>DataAccess::DataAccess\<close>: \<open>opened\<close> is the database that SQLite opened, \<open>None\<close> when that threw.
\<close>

definition make_DataAccess :: "'d sqlite \<Rightarrow> 'd option \<Rightarrow> 'd run" where
  "make_DataAccess eng opened =
     (case opened of
        None \<Rightarrow> Inl (UncaughtException ''unable to open database file'')
      | Some d \<Rightarrow> checkAndCreateTables eng d)"

text \<open>
  \<open>main\<close>, up to the end of the server's construction. When it returns, the destructor of the server
  waits for the accepting thread, which never ends: the program runs on from this state.
\<close>

definition main_starts ::
    "('a, 'd) env \<Rightarrow> 'd option \<Rightarrow> disk \<Rightarrow> boot_io \<Rightarrow> event list \<Rightarrow> ('a, 'd) world run" where
  "main_starts env opened dsk io early =
     rbind (make_DataAccess (env_sql env) opened) (\<lambda>g_db.
     rbind (Server_Init io early) (\<lambda>(um, van).
       case um of
         None \<Rightarrow> Inl (UndefinedBehaviour ''null server_ptr_'')
       | Some server \<Rightarrow> Inr \<lparr>w_server = server, w_db = g_db, w_disk = dsk, w_van = van\<rparr>))"

text \<open>A server that has just been constructed on a database that it has opened.\<close>

definition started ::
    "('a, 'd) env \<Rightarrow> ('d \<Rightarrow> string \<Rightarrow> sql_row list) \<Rightarrow> ('d \<Rightarrow> string \<Rightarrow> column list option) \<Rightarrow>
     ('a, 'd) world \<Rightarrow> bool" where
  "started env tbl sch w \<longleftrightarrow>
     store_inv tbl sch (w_db w) \<and> accounts_ok env tbl (w_db w) \<and> w_server w = empty_Server"

lemma started_inv: "started env tbl sch w \<Longrightarrow> system_inv env tbl sch (idle w)"
  by (simp add: started_def system_inv_def server_inv_def empty_Server_def pending_packets_def)

subsection \<open>The database that was opened\<close>

text \<open>
  What the program can find: no tables, or empty ones; or the database of an earlier run, at any moment
  at which its process ended, with its threads wherever they were then.
\<close>

definition new_database ::
    "('d \<Rightarrow> string \<Rightarrow> sql_row list) \<Rightarrow> ('d \<Rightarrow> string \<Rightarrow> column list option) \<Rightarrow> 'd \<Rightarrow> bool" where
  "new_database tbl sch d \<longleftrightarrow>
     (\<forall>(t, sc) \<in> set app_tables. sch d t = None \<or> (sch d t = Some sc \<and> tbl d t = []))"

inductive left_database :: "('a, 'd) env \<Rightarrow> ('d \<Rightarrow> string \<Rightarrow> sql_row list) \<Rightarrow>
    ('d \<Rightarrow> string \<Rightarrow> column list option) \<Rightarrow> 'd \<Rightarrow> bool" for env tbl sch where
  no_run: "new_database tbl sch d \<Longrightarrow> left_database env tbl sch d"
| earlier_run: "left_database env tbl sch d \<Longrightarrow> main_starts env (Some d) dsk io early = Inr w \<Longrightarrow>
    (thread_step env)\<^sup>*\<^sup>* (at_rest w) s \<Longrightarrow> left_database env tbl sch (w_db (th_world s))"

context sqlite_laws
begin

lemma open_new:
  assumes c: "checkAndCreateTables eng d = Inr d'" and new: "new_database tbl sch d"
  shows "store_inv tbl sch d' \<and> accounts_of tbl d' = Map.empty \<and> conv_of tbl d' = (\<lambda>a b. [])"
proof -
  have "\<forall>(t, sc) \<in> set app_tables. sch d t = None \<or> (sch d t = Some sc \<and> table_ok sc (tbl d t))"
  proof
    fix x assume "x \<in> set app_tables"
    then have "case x of (t, sc) \<Rightarrow> sch d t = None \<or> (sch d t = Some sc \<and> tbl d t = [])"
      using new by (simp add: new_database_def)
    then show "case x of (t, sc) \<Rightarrow> sch d t = None \<or> (sch d t = Some sc \<and> table_ok sc (tbl d t))"
      by (cases x) (auto simp: table_ok_def unique_ok_def list_all_iff)
  qed
  note made = checkAndCreateTables_Inr [OF c this]
  have e: "tbl d' t = []" if "(t, sc) \<in> set app_tables" for t sc
    using made new that by (cases "sch d t = None") (auto simp: new_database_def)
  have "db_ok tbl sch d'" "tbl d' ''users'' = []" "tbl d' ''messages'' = []"
    using made e by (auto simp: app_tables_def)
  then show ?thesis
    by (simp add: store_inv_def conv_rows_def numbered_rows_def accounts_of_def conv_of_def fun_eq_iff)
qed

lemma open_existing:
  assumes c: "checkAndCreateTables eng d = Inr d'" and ok: "db_ok tbl sch d"
  shows "db_ok tbl sch d'" and "accounts_of tbl d' = accounts_of tbl d" and "conv_of tbl d' = conv_of tbl d"
    and "files_of tbl d' = files_of tbl d" and "store_inv tbl sch d \<Longrightarrow> store_inv tbl sch d'"
proof -
  have "\<forall>(t, sc) \<in> set app_tables. sch d t = None \<or> (sch d t = Some sc \<and> table_ok sc (tbl d t))"
    using ok by (simp add: db_ok_def list_all_iff split_beta)
  from checkAndCreateTables_Inr [OF c this]
  have ok': "db_ok tbl sch d'" and keep: "\<And>t. sch d t \<noteq> None \<Longrightarrow> tbl d' t = tbl d t" by auto
  have t: "tbl d' ''users'' = tbl d ''users''" "tbl d' ''messages'' = tbl d ''messages''" "tbl d' ''files'' = tbl d ''files''"
    by (rule keep, use ok in \<open>simp add: db_ok_iff\<close>)+
  show "db_ok tbl sch d'" by (rule ok')
  show "accounts_of tbl d' = accounts_of tbl d" "conv_of tbl d' = conv_of tbl d" "files_of tbl d' = files_of tbl d"
    by (simp_all add: accounts_of_def conv_of_def conv_rows_def files_of_def t fun_eq_iff)
  show "store_inv tbl sch d \<Longrightarrow> store_inv tbl sch d'" using ok' by (simp add: store_inv_def conv_rows_def t)
qed

end

lemma Server_Init_Inr:
  assumes "Server_Init io early = Inr (um, v)"
  shows "um = Some empty_Server"
proof -
  obtain v0 um1 v1 where a: "Accept_events early (None, v0) = Inr (um1, v1)" and um: "um = BindServer empty_Server um1"
    using assms by (auto simp: Server_Init_def)
  have "um1 = None" using Accept_events_Inr [OF a] by simp
  then show ?thesis by (simp add: um BindServer_def)
qed

text \<open>A database that can be opened: a new one, or one with the invariant of the threads.\<close>

definition usable_database ::
    "('a, 'd) env \<Rightarrow> ('d \<Rightarrow> string \<Rightarrow> sql_row list) \<Rightarrow> ('d \<Rightarrow> string \<Rightarrow> column list option) \<Rightarrow> 'd \<Rightarrow> bool" where
  "usable_database env tbl sch d \<longleftrightarrow> new_database tbl sch d \<or> (threads_db tbl sch d \<and> accounts_ok env tbl d)"

context linked_server
begin

lemma usable_ready:
  assumes usable: "usable_database env tbl sch d" and m: "main_starts env (Some d) dsk io early = Inr w"
  shows "ready env tbl sch w"
proof -
  obtain um v where c: "checkAndCreateTables (env_sql env) d = Inr (w_db w)"
    and i: "Server_Init io early = Inr (um, v)" "um = Some (w_server w)"
    using m by (auto simp: main_starts_def make_DataAccess_def split: option.splits)
  have "threads_db tbl sch (w_db w) \<and> accounts_ok env tbl (w_db w)"
    using usable unfolding usable_database_def
  proof
    assume "new_database tbl sch d"
    from sql.open_new [OF c this] show ?thesis
      by (simp add: threads_db_def written_by_users_def accounts_ok_def sql.store_inv_ok)
  next
    assume d: "threads_db tbl sch d \<and> accounts_ok env tbl d"
    then have "db_ok tbl sch d" by (simp add: threads_db_def)
    note made = sql.open_existing [OF c this]
    from made(2) have "known_user tbl (w_db w) = known_user tbl d" by (simp add: known_user_def fun_eq_iff)
    then show ?thesis using d made(1-3) by (simp add: threads_db_def written_by_users_def accounts_ok_def)
  qed
  then show ?thesis using Server_Init_Inr [OF i(1)] i(2) by (simp add: ready_def)
qed

lemma left_usable: "left_database env tbl sch d \<Longrightarrow> usable_database env tbl sch d"
proof (induction rule: left_database.induct)
  case (earlier_run d dsk io early w s)
  from threads_reach [OF usable_ready [OF earlier_run.IH earlier_run.hyps(2)] earlier_run.hyps(3)]
  show ?case by (simp add: usable_database_def threads_inv_def world_inv_def)
qed (simp add: usable_database_def)

end

subsection \<open>Properties\<close>

text \<open>
  C22: The program can be started again and again. On a new database, or on the one that earlier runs have
  left, wherever their threads were when their processes ended, a start that comes up reaches a state
  from which the properties of the threads follow (\<open>ready\<close>): the tables exist, every account is well
  formed, every message is between users, all pools are empty, and accounts, conversations and files
  are those of the database that was opened. The properties of uninterrupted requests follow, too
  (\<open>started\<close>), when the database is new or its conversations still have their numbering.
\<close>

theorem program_starts:
  assumes laws: "linked_server env tbl sch" and left: "left_database env tbl sch d"
    and m: "main_starts env (Some d) dsk io early = Inr w"
  shows "ready env tbl sch w \<and> w_disk w = dsk \<and>
    (db_ok tbl sch d \<longrightarrow> accounts_of tbl (w_db w) = accounts_of tbl d \<and>
       conv_of tbl (w_db w) = conv_of tbl d \<and> files_of tbl (w_db w) = files_of tbl d) \<and>
    (new_database tbl sch d \<or> store_inv tbl sch d \<longrightarrow> started env tbl sch w)"
proof -
  have sql: "sqlite_laws (env_sql env) tbl sch" using laws by (simp add: linked_server_def)
  have ready: "ready env tbl sch w"
    by (rule linked_server.usable_ready [OF laws linked_server.left_usable [OF laws left] m])
  have c: "checkAndCreateTables (env_sql env) d = Inr (w_db w)" and disk: "w_disk w = dsk"
    using m by (auto simp: main_starts_def make_DataAccess_def split: option.splits)
  note made = sqlite_laws.open_existing [OF sql c]
  have "store_inv tbl sch (w_db w)" if "new_database tbl sch d \<or> store_inv tbl sch d"
    using that sqlite_laws.open_new [OF sql c] made(5) sqlite_laws.store_inv_ok [OF sql] by blast
  then show ?thesis using ready disk made(2-4) by (simp add: ready_def started_def)
qed

theorem program_starts_witness:
  "\<exists>w s w'. main_starts ref_env (Some empty_refdb) [''files'' \<mapsto> Directory] example_boot [] = Inr w \<and>
     (thread_step ref_env)\<^sup>*\<^sup>* (at_rest w) s \<and>
     main_starts ref_env (Some (w_db (th_world s))) (w_disk (th_world s)) example_boot [] = Inr w' \<and>
     ready ref_env ref_tbl ref_sch w'"
proof -
  obtain v where v: "make_ServerVan example_boot = Inr (v :: string ServerVan)"
    by (simp add: make_ServerVan_def make_Van_def Van_Bind_def example_boot_def Let_def)
  then obtain w where w: "main_starts ref_env (Some empty_refdb) [''files'' \<mapsto> Directory] example_boot [] = Inr w"
      "w_db w = fresh_db"
    by (simp add: main_starts_def make_DataAccess_def fresh_db_created Server_Init_def BindServer_def)
  have "new_database ref_tbl ref_sch empty_refdb" by (simp add: new_database_def empty_refdb_def)
  then have "left_database ref_env ref_tbl ref_sch empty_refdb" by (rule no_run)
  note left = earlier_run [OF this w(1) rtranclp.rtrancl_refl]
  obtain db where "checkAndCreateTables ref_engine fresh_db = Inr db"
    by (simp add: checkAndCreateTables_def ensure_table_def ref_engine_def fresh_db_def app_tables_def)
  then obtain w' where w': "main_starts ref_env (Some (w_db (th_world (at_rest w)))) (w_disk w) example_boot [] = Inr w'"
    using v w by (auto simp: main_starts_def make_DataAccess_def Server_Init_def BindServer_def at_rest_def)
  from program_starts [OF ref_server.linked_server_axioms left w'] w w' show ?thesis by (auto simp: at_rest_def)
qed

end
