(* ===== verification/Thread_Races.thy ===== *)
theory Thread_Races
  imports Thread_Invariant
begin

text \<open>
  Interleavings that go wrong, as runs of the threads: two messages of one conversation at the same
  time, two uploads of one file at the same time, and an upload that overtakes the callback of the
  message that announces the file.
\<close>

subsection \<open>Following one worker\<close>

lemma handling_then:
  assumes "run_alone p w = Inr (w', r)"
    and "(thread_step env)\<^sup>*\<^sup>* \<lparr>th_world = w', th_workers = ws1 @ Handling fd pkt (g r) # ws2, th_channels = ch\<rparr> s"
  shows "(thread_step env)\<^sup>*\<^sup>* \<lparr>th_world = w, th_workers = ws1 @ Handling fd pkt (bind_prog p g) # ws2, th_channels = ch\<rparr> s"
  using handling_runs [OF assms(1)] assms(2) by (rule rtranclp_trans)

lemma replying_then:
  assumes "run_alone p w = Inr (w', r)"
    and "(thread_step env)\<^sup>*\<^sup>* \<lparr>th_world = w', th_workers = ws1 @ Replying (g r) # ws2, th_channels = ch\<rparr> s"
  shows "(thread_step env)\<^sup>*\<^sup>* \<lparr>th_world = w, th_workers = ws1 @ Replying (bind_prog p g) # ws2, th_channels = ch\<rparr> s"
  using replying_runs [OF assms(1)] assms(2) by (rule rtranclp_trans)

lemma replying_ends:
  assumes "run_alone p w = Inr (w', ())"
    and "(thread_step env)\<^sup>*\<^sup>* \<lparr>th_world = w', th_workers = ws1 @ ws2, th_channels = ch\<rparr> s"
  shows "(thread_step env)\<^sup>*\<^sup>* \<lparr>th_world = w, th_workers = ws1 @ Replying p # ws2, th_channels = ch\<rparr> s"
proof -
  have "(thread_step env)\<^sup>*\<^sup>* \<lparr>th_world = w', th_workers = ws1 @ Replying (Return ()) # ws2, th_channels = ch\<rparr> s"
    by (rule rtranclp_step [of "thread_step env", OF thread_step.replied assms(2)])
  from replying_then [OF assms(1), of env ws1 Return, OF this] show ?thesis by simp
qed

subsection \<open>Two messages at once\<close>

text \<open>What a worker still has to do when its message is about to be inserted.\<close>

definition message_answer :: "('a, 'd) env \<Rightarrow> Message \<Rightarrow> int32 option \<Rightarrow> ('a Packet \<times> callback) option" where
  "message_answer env x result = Some (case result of
       None \<Rightarrow> (new_packet env SendMessageResponse (SendMessageResponse_body failed_message), NoCallback)
     | Some i \<Rightarrow> (new_packet env SendMessageResponse (SendMessageResponse_body (x\<lparr>msg_id := i\<rparr>)),
         ForwardCallback (raw_to (msg_message x)) (x\<lparr>msg_id := i\<rparr>)))"

definition after_insert ::
    "('a, 'd) env \<Rightarrow> Message \<Rightarrow> bool \<Rightarrow> ('a, 'd, ('a Packet \<times> callback) option) server_prog" where
  "after_insert env x inserted = bind_prog
     (if inserted then db_get (\<lambda>d. Inr (Some (last_row (env_sql env) d))) else Return None)
     (\<lambda>result. Return (message_answer env x result))"

lemma sending_reads:
  assumes t: "packet_type_of_id (packetId pkt) = Some SendMessageRequest"
    and r: "r = unpacked unpack_SendMessage \<lparr>smq_token = [], smq_message = default_RawMessage\<rparr> env pkt"
    and uid: "getUserIdByToken (w_server w) (smq_token r) = raw_from (smq_message r)"
    and to_user: "getUser_id (env_sql env) (w_db w) (raw_to (smq_message r)) = Inr (Some u)"
    and plain: "raw_type (smq_message r) \<noteq> IMAGE" "raw_type (smq_message r) \<noteq> FILE"
    and x: "next_message (env_sql env) (w_db w) (smq_message r) (io_now io) = Inr x"
  shows "(thread_step env)\<^sup>*\<^sup>*
    \<lparr>th_world = w, th_workers = ws1 @ Handling fd pkt (handle_steps env io pkt) # ws2, th_channels = ch\<rparr>
    \<lparr>th_world = w, th_workers = ws1 @ Handling fd pkt (bind_prog (db_put (insert_message (env_sql env) x))
       (after_insert env x)) # ws2, th_channels = ch\<rparr>"
proof -
  have m: "msg_message x = smq_message r" using next_message_id [OF x x refl refl] by simp
  have answer: "bind_prog (case (case result of None \<Rightarrow> None | Some i \<Rightarrow> Some (x\<lparr>msg_id := i\<rparr>)) of
      None \<Rightarrow> Return (new_packet env SendMessageResponse (SendMessageResponse_body failed_message), NoCallback)
    | Some reply_msg \<Rightarrow> Return (new_packet env SendMessageResponse (SendMessageResponse_body reply_msg),
        ForwardCallback (raw_to (smq_message r)) reply_msg)) (\<lambda>r. Return (Some r)) =
    (Return (message_answer env x result) :: ('a, 'd, ('a Packet \<times> callback) option) server_prog)" for result
    by (cases result) (simp_all add: message_answer_def m)
  show ?thesis
    using t uid plain
    apply (simp add: handle_steps_def send_message_steps_def Let_def r [symmetric] bind_assoc)
    apply (rule handling_then, simp)
    apply (simp add: uid bind_assoc)
    apply (rule handling_then, simp add: to_user)
    apply (simp add: bind_assoc createMsgByRawMsg_steps_def)
    apply (rule handling_then, simp add: x)
    apply (simp add: bind_assoc createMsg_steps_def answer after_insert_def [abs_def])
    done
qed

lemma inserting:
  assumes "insert_message (env_sql env) x (w_db w) = Inr (True, d)"
  shows "(thread_step env)\<^sup>*\<^sup>*
    \<lparr>th_world = w, th_workers = ws1 @ Handling fd pkt (bind_prog (db_put (insert_message (env_sql env) x))
       (after_insert env x)) # ws2, th_channels = ch\<rparr>
    \<lparr>th_world = w\<lparr>w_db := d\<rparr>, th_workers = ws1 @ Handling fd pkt (after_insert env x True) # ws2, th_channels = ch\<rparr>"
  by (rule handling_runs) (simp add: assms)

lemma answering:
  "(thread_step env)\<^sup>*\<^sup>*
    \<lparr>th_world = w, th_workers = ws1 @ Handling fd pkt (after_insert env x True) # ws2, th_channels = ch\<rparr>
    \<lparr>th_world = w, th_workers = ws1 @ Handling fd pkt (Return (message_answer env x
       (Some (last_row (env_sql env) (w_db w))))) # ws2, th_channels = ch\<rparr>"
  unfolding after_insert_def if_True by (rule handling_runs) simp

subsection \<open>Two uploads at once, and an upload that is early\<close>

text \<open>The callback of an upload after it has found the message that waits.\<close>

definition announce_steps ::
    "('a, 'd) env \<Rightarrow> string \<Rightarrow> int32 \<times> Message \<Rightarrow> ('a, 'd, unit) server_prog" where
  "announce_steps env i waiting =
     (if fst waiting = 0 then Return ()
      else bind_prog (um_put (delFileMsg i)) (\<lambda>_. post_steps (fst waiting)
        (new_packet env ContactMessageListRequest (ContactMessageListRequest_body [snd waiting]))))"

lemma uploaded_steps:
  "callback_steps env io fd (FileUploadedCallback i) = bind_prog (um_get (\<lambda>s. getFileMsg s i)) (announce_steps env i)"
  by (simp add: callback_steps_defs announce_steps_def [abs_def] case_prod_beta')

lemma announce_alone:
  "u \<noteq> 0 \<Longrightarrow> run_alone (announce_steps env i (u, m)) w = Inr (w\<lparr>w_server := post_to u
     (new_packet env ContactMessageListRequest (ContactMessageListRequest_body [m])) (delFileMsg i (w_server w))\<rparr>, ())"
  by (simp add: announce_steps_def post_alone)

lemma no_message_waits: "run_alone (callback_steps env io fd (FileUploadedCallback i)) w = Inr (w, ())"
  if "file_msg_pool (w_server w) i = None"
  using that by (simp add: uploaded_steps announce_steps_def getFileMsg_def)

lemma upload_leaves_server:
  assumes "handle_packet env io pkt w = Inr (Some (reply, FileUploadedCallback i, w'))"
  shows "w_server w' = w_server w"
proof -
  obtain t where t: "packet_type_of_id (packetId pkt) = Some t"
    using assms by (cases "packet_type_of_id (packetId pkt)") (auto simp: handle_packet_def)
  show ?thesis
    using assms t by (cases t)
      (auto simp: handle_packet_def Let_def on_RegisterRequest_def on_LoginPreRequest_def on_LoginRequest_def
        on_SetupChannelRequest_def on_SendMessageRequest_def on_ContactMessageRequest_def on_FileUploadRequest_def
        on_FileDownloadRequest_def on_ServerStatusRequest_def on_ServerStatusUpdateRequest_def
        split: option.splits prod.splits if_splits)
qed

subsection \<open>Properties\<close>

text \<open>
  C30: Two workers that handle messages of one conversation at the same time can both read the
  conversation before either inserts, and both insert before either asks for the id of its row.
  Then the conversation has two messages under one number, and the first sender's reply carries the
  id of the second sender's message.
\<close>

theorem racing_sends:
  fixes env :: "('a, 'd) env"
  assumes laws: "linked_server env tbl sch" and db: "db_ok tbl sch (w_db w)"
    and t: "packet_type_of_id (packetId p1) = Some SendMessageRequest"
      "packet_type_of_id (packetId p2) = Some SendMessageRequest"
    and m1: "m1 = unpacked unpack_SendMessage \<lparr>smq_token = [], smq_message = default_RawMessage\<rparr> env p1"
    and m2: "m2 = unpacked unpack_SendMessage \<lparr>smq_token = [], smq_message = default_RawMessage\<rparr> env p2"
    and plain: "raw_type (smq_message m1) \<notin> {IMAGE, FILE}" "raw_type (smq_message m2) \<notin> {IMAGE, FILE}"
    and conv: "raw_from (smq_message m1) = a" "raw_to (smq_message m1) = b"
      "raw_from (smq_message m2) = a" "raw_to (smq_message m2) = b"
    and user: "getUserIdByToken (w_server w) (smq_token m1) = a" "getUserIdByToken (w_server w) (smq_token m2) = a"
    and to_user: "getUser_id (env_sql env) (w_db w) b = Inr (Some u)"
    and x: "next_message (env_sql env) (w_db w) (smq_message m1) (io_now io1) = Inr x1"
      "next_message (env_sql env) (w_db w) (smq_message m2) (io_now io2) = Inr x2"
    and d: "insert_message (env_sql env) x1 (w_db w) = Inr (True, d1)" "insert_message (env_sql env) x2 d1 = Inr (True, d2)"
    and i: "i = last_row (env_sql env) d1" "j = last_row (env_sql env) d2"
  shows "(thread_step env)\<^sup>*\<^sup>*
      \<lparr>th_world = w, th_workers = ws1 @ Handling fd1 p1 (handle_steps env io1 p1) # ws2 @
         Handling fd2 p2 (handle_steps env io2 p2) # ws3, th_channels = ch\<rparr>
      \<lparr>th_world = w\<lparr>w_db := d2\<rparr>, th_workers = ws1 @ Handling fd1 p1 (Return (Some
           (new_packet env SendMessageResponse (SendMessageResponse_body (x1\<lparr>msg_id := j\<rparr>)),
            ForwardCallback b (x1\<lparr>msg_id := j\<rparr>)))) # ws2 @
         Handling fd2 p2 (Return (Some
           (new_packet env SendMessageResponse (SendMessageResponse_body (x2\<lparr>msg_id := j\<rparr>)),
            ForwardCallback b (x2\<lparr>msg_id := j\<rparr>)))) # ws3, th_channels = ch\<rparr> \<and>
    conv_of tbl d2 a b = conv_of tbl (w_db w) a b @ [x1\<lparr>msg_id := i\<rparr>, x2\<lparr>msg_id := j\<rparr>] \<and>
    msg_internalId x1 = msg_internalId x2"
proof -
  have mm: "msg_message x1 = smq_message m1" "msg_message x2 = smq_message m2" "msg_internalId x1 = msg_internalId x2"
    using next_message_id [OF x(1) x(1)] next_message_id [OF x(2) x(2)] next_message_id [OF x(2) x(1)] conv by simp_all
  note app = sqlite_laws.insert_message_effect [OF linked_server.axioms(1) [OF laws]]
  have c1: "db_ok tbl sch d1" "conv_of tbl d1 a b = conv_of tbl (w_db w) a b @ [x1\<lparr>msg_id := i\<rparr>]"
    using app [OF db d(1)] by (simp_all add: mm conv i)
  have c2: "conv_of tbl d2 a b = conv_of tbl d1 a b @ [x2\<lparr>msg_id := j\<rparr>]"
    using app [OF c1(1) d(2)] by (simp add: mm conv i)
  let ?run = "(thread_step env)\<^sup>*\<^sup>*"
  let ?s = "\<lambda>w q1 q2. \<lparr>th_world = w, th_workers = ws1 @ Handling fd1 p1 q1 # ws2 @ Handling fd2 p2 q2 # ws3, th_channels = ch\<rparr>"
  let ?ins = "\<lambda>x. bind_prog (db_put (insert_message (env_sql env) x)) (after_insert env x)"
  let ?ans = "\<lambda>x. Return (message_answer env x (Some j))"
  have swap: "ws1 @ Handling fd1 p1 q1 # ws2 @ k # ws3 = (ws1 @ Handling fd1 p1 q1 # ws2) @ k # ws3" for q1 and k :: "('a, 'd) worker" by simp
  have "?run (?s w (handle_steps env io1 p1) (handle_steps env io2 p2)) (?s w (?ins x1) (handle_steps env io2 p2))"
    by (rule sending_reads [OF t(1) m1 _ _ _ _ x(1)]) (use plain conv user to_user in simp_all)
  also have "?run \<dots> (?s w (?ins x1) (?ins x2))"
    unfolding swap by (rule sending_reads [OF t(2) m2 _ _ _ _ x(2)]) (use plain conv user to_user in simp_all)
  also have "?run \<dots> (?s (w\<lparr>w_db := d1\<rparr>) (after_insert env x1 True) (?ins x2))" by (rule inserting [OF d(1)])
  also have "?run \<dots> (?s (w\<lparr>w_db := d2\<rparr>) (after_insert env x1 True) (after_insert env x2 True))"
    unfolding swap by (rule inserting [of env x2 "w\<lparr>w_db := d1\<rparr>" d2, simplified]) (rule d(2))
  also have "?run \<dots> (?s (w\<lparr>w_db := d2\<rparr>) (?ans x1) (after_insert env x2 True))"
    unfolding i by (rule answering [of env "w\<lparr>w_db := d2\<rparr>", simplified])
  also have "?run \<dots> (?s (w\<lparr>w_db := d2\<rparr>) (?ans x1) (?ans x2))"
    unfolding swap i by (rule answering [of env "w\<lparr>w_db := d2\<rparr>", simplified])
  finally show ?thesis using c1 c2 by (simp add: message_answer_def mm conv)
qed

text \<open>An example: the two messages are the same greeting, from one client on two sockets.\<close>

lemma racing_hellos:
  "\<exists>x d1 d2. next_message ref_engine bob_db hello 100 = Inr x \<and>
     insert_message ref_engine x bob_db = Inr (True, d1) \<and> insert_message ref_engine x d1 = Inr (True, d2) \<and>
     last_row ref_engine d1 \<noteq> last_row ref_engine d2"
  by (simp add: next_message_def getAllMessages_def fetch_all_def insert_message_def last_row_def
      ref_eval bind_int_def int32_succ_def hello_def bob_db_def createUser_def)

theorem racing_sends_witness:
  "\<exists>x i j d cb1 cb2. (thread_step ref_env)\<^sup>*\<^sup>*
      \<lparr>th_world = online_world, th_workers = [Handling 5 send_hello (handle_steps ref_env example_io_now send_hello),
         Handling 6 send_hello (handle_steps ref_env example_io_now send_hello)], th_channels = (\<lambda>_. None)\<rparr>
      \<lparr>th_world = online_world\<lparr>w_db := d\<rparr>, th_workers =
         [Handling 5 send_hello (Return (Some (new_packet ref_env SendMessageResponse
            (SendMessageResponse_body (x\<lparr>msg_id := j\<rparr>)), cb1))),
          Handling 6 send_hello (Return (Some (new_packet ref_env SendMessageResponse
            (SendMessageResponse_body (x\<lparr>msg_id := j\<rparr>)), cb2)))], th_channels = (\<lambda>_. None)\<rparr> \<and>
     i \<noteq> j \<and> conv_of ref_tbl d 1 1 = [x\<lparr>msg_id := i\<rparr>, x\<lparr>msg_id := j\<rparr>]"
proof -
  obtain x d1 d2 where r: "next_message ref_engine bob_db hello 100 = Inr x"
    "insert_message ref_engine x bob_db = Inr (True, d1)" "insert_message ref_engine x d1 = Inr (True, d2)"
    "last_row ref_engine d1 \<noteq> last_row ref_engine d2" using racing_hellos by blast
  obtain u where u: "getUser_id ref_engine bob_db 1 = Inr (Some u)" using bob_by_id by blast
  have t: "packet_type_of_id (packetId send_hello) = Some SendMessageRequest"
    by (simp add: packet_type_of_id_iff)
  have q: "\<lparr>smq_token = ''t'', smq_message = hello\<rparr> =
      unpacked unpack_SendMessage \<lparr>smq_token = [], smq_message = default_RawMessage\<rparr> ref_env send_hello"
    by (simp add: ref_server.any.send_message [simplified])
  have ok: "db_ok ref_tbl ref_sch (w_db online_world)" using store_inv_bob_db by (simp add: store_inv_def)
  have now: "io_now example_io_now = 100" by (simp add: example_io_now_def)
  have h: "raw_from hello = 1" "raw_to hello = 1" "raw_type hello \<noteq> IMAGE" "raw_type hello \<noteq> FILE" by (simp_all add: hello_def)
  have "conv_of ref_tbl bob_db 1 1 = []"
    by (simp add: conv_of_def conv_rows_def bob_db_def createUser_def ref_eval)
  then show ?thesis
    using racing_sends [OF ref_server.linked_server_axioms ok t t q q, of 1 1 u example_io_now x example_io_now x d1 d2
        "last_row ref_engine d1" "last_row ref_engine d2" "[]" 5 "[]" 6 "[]" "\<lambda>_. None"]
    by (simp add: r u now h) (use r(4) in blast)
qed

text \<open>
  When two uploads of a file are finished at the same time, both callbacks can find the message that
  waits before either forgets it; then its receiver is told twice.
\<close>

theorem racing_uploads:
  assumes waiting: "getFileMsg (w_server w) i = (u, m)" "u \<noteq> 0"
    and online: "pending_packets (w_server w) u = Some q"
    and p: "p = new_packet env ContactMessageListRequest (ContactMessageListRequest_body [m])"
  shows "\<exists>s'. (thread_step env)\<^sup>*\<^sup>*
      \<lparr>th_world = w, th_workers = ws1 @ Replying (callback_steps env io1 fd1 (FileUploadedCallback i)) # ws2 @
         Replying (callback_steps env io2 fd2 (FileUploadedCallback i)) # ws3, th_channels = ch\<rparr>
      \<lparr>th_world = w\<lparr>w_server := s'\<rparr>, th_workers = ws1 @ ws2 @ ws3, th_channels = ch\<rparr> \<and>
    pending_packets s' u = Some (q @ [p, p])"
proof -
  let ?told = "\<lambda>s. post_to u p (delFileMsg i s)"
  let ?run = "(thread_step env)\<^sup>*\<^sup>*"
  let ?found = "announce_steps env i (u, m)"
  let ?cb = "\<lambda>io fd. callback_steps env io fd (FileUploadedCallback i)"
  have swap: "ws1 @ Replying q1 # ws2 @ k # ws3 = (ws1 @ Replying q1 # ws2) @ k # ws3" for q1 k by simp
  have find: "?run \<lparr>th_world = w, th_workers = l @ Replying (?cb io fd) # r, th_channels = ch\<rparr>
      \<lparr>th_world = w, th_workers = l @ Replying ?found # r, th_channels = ch\<rparr>" for io fd l r
    unfolding uploaded_steps using waiting(1) by (intro replying_runs) simp
  have tell: "?run \<lparr>th_world = w', th_workers = l @ Replying ?found # r, th_channels = ch\<rparr>
      \<lparr>th_world = w'\<lparr>w_server := ?told (w_server w')\<rparr>, th_workers = l @ r, th_channels = ch\<rparr>" for w' l r
    by (rule replying_ends [OF announce_alone [OF waiting(2)]]) (simp add: p)
  have "?run \<lparr>th_world = w, th_workers = ws1 @ Replying (?cb io1 fd1) # ws2 @ Replying (?cb io2 fd2) # ws3, th_channels = ch\<rparr>
      \<lparr>th_world = w, th_workers = ws1 @ Replying ?found # ws2 @ Replying (?cb io2 fd2) # ws3, th_channels = ch\<rparr>"
    by (rule find)
  also have "?run \<dots> \<lparr>th_world = w, th_workers = ws1 @ Replying ?found # ws2 @ Replying ?found # ws3, th_channels = ch\<rparr>"
    unfolding swap by (rule find)
  also have "?run \<dots> \<lparr>th_world = w\<lparr>w_server := ?told (w_server w)\<rparr>, th_workers = ws1 @ ws2 @ Replying ?found # ws3,
      th_channels = ch\<rparr>" by (rule tell)
  also have "?run \<dots> \<lparr>th_world = w\<lparr>w_server := ?told (?told (w_server w))\<rparr>, th_workers = ws1 @ ws2 @ ws3,
      th_channels = ch\<rparr>"
    using tell [of "w\<lparr>w_server := ?told (w_server w)\<rparr>" "ws1 @ ws2" ws3] by simp
  finally show ?thesis
    using online waiting(2) by (intro exI conjI) (auto simp: channels.pending_post)
qed

theorem racing_uploads_witness:
  "\<exists>s' p. (thread_step ref_env)\<^sup>*\<^sup>*
      \<lparr>th_world = online_world\<lparr>w_server := setFileMsg ''u1'' 1 failed_message (w_server online_world)\<rparr>,
       th_workers = [Replying (callback_steps ref_env example_io_now 5 (FileUploadedCallback ''u1'')),
         Replying (callback_steps ref_env example_io_now 6 (FileUploadedCallback ''u1''))],
       th_channels = (\<lambda>_. None)\<rparr>
      \<lparr>th_world = online_world\<lparr>w_server := s'\<rparr>, th_workers = [], th_channels = (\<lambda>_. None)\<rparr> \<and>
     pending_packets s' 1 = Some [p, p]"
proof -
  let ?w = "online_world\<lparr>w_server := setFileMsg ''u1'' 1 failed_message (w_server online_world)\<rparr>"
  have 1: "getFileMsg (w_server ?w) ''u1'' = (1, failed_message)" by (simp add: getFileMsg_def setFileMsg_def)
  have 2: "pending_packets (w_server ?w) 1 = Some []" by simp
  show ?thesis
    using racing_uploads [OF 1 _ 2 refl, of ref_env "[]" example_io_now 5 "[]" example_io_now 6 "[]" "\<lambda>_. None"]
    by auto
qed

text \<open>
  C31: The reply to a file message tells the client the id of the file, and only the callback after it
  notes that the message waits for the file. An upload that is handled in between finds no message:
  it succeeds, nobody is told of the file, and the message is left waiting.
\<close>

theorem upload_before_announcement:
  assumes reply: "packet_content reply \<noteq> None"
    and sent: "Van_Send (env_wire env) reply fd (io_send io) (w_van w) = Inr (n, v)" "0 \<le> n"
    and upload: "handle_packet env io2 pkt (w\<lparr>w_van := v\<rparr>) = Inr (Some (reply2, FileUploadedCallback i, w2))"
    and answered: "packet_content reply2 \<noteq> None"
      "Van_Send (env_wire env) reply2 fd2 (io_send io2) (w_van w2) = Inr (n2, v2)" "0 \<le> n2"
    and fresh: "file_msg_pool (w_server w) i = None"
    and s': "s' = setFileMsg i u m (w_server w)"
  shows "(thread_step env)\<^sup>*\<^sup>*
      \<lparr>th_world = w, th_workers = ws1 @ Replying (reply_steps env io fd reply (FileMsgCallback i u m)) # ws2 @
         Handling fd2 pkt (handle_steps env io2 pkt) # ws3, th_channels = ch\<rparr>
      \<lparr>th_world = w2\<lparr>w_van := v2, w_server := s'\<rparr>, th_workers = ws1 @ ws2 @ ws3, th_channels = ch\<rparr> \<and>
    pending_packets s' = pending_packets (w_server w) \<and> getFileMsg s' i = (u, m)"
proof (intro conjI)
  let ?run = "(thread_step env)\<^sup>*\<^sup>*" and ?ann = "FileMsgCallback i u m" and ?w = "w\<lparr>w_van := v\<rparr>"
  let ?A = "ws1 @ Replying (callback_steps env io fd ?ann) # ws2"
  have same: "w_server w2 = w_server w" using upload_leaves_server [OF upload] by simp
  have swap: "ws1 @ Replying q # ws2 @ k # ws3 = (ws1 @ Replying q # ws2) @ k # ws3" for q k by simp
  have handled: "run_alone (handle_steps env io2 pkt) ?w = Inr (w2, Some (reply2, FileUploadedCallback i))"
    using upload by (simp add: handle_alone)
  have answers: "run_alone (reply_steps env io2 fd2 reply2 (FileUploadedCallback i)) w2 = Inr (w2\<lparr>w_van := v2\<rparr>, ())"
    using answered fresh by (auto simp: reply_steps_def no_message_waits same)
  have "?run \<lparr>th_world = w, th_workers = ws1 @ Replying (reply_steps env io fd reply ?ann) # ws2 @
         Handling fd2 pkt (handle_steps env io2 pkt) # ws3, th_channels = ch\<rparr>
      \<lparr>th_world = ?w, th_workers = ws1 @ Replying (callback_steps env io fd ?ann) # ws2 @
         Handling fd2 pkt (handle_steps env io2 pkt) # ws3, th_channels = ch\<rparr>"
    using reply sent by (auto simp: reply_steps_def intro!: replying_then)
  also have "?run \<dots> \<lparr>th_world = w2, th_workers = ?A @ Handling fd2 pkt (Return (Some (reply2, FileUploadedCallback i))) # ws3,
      th_channels = ch\<rparr>"
    unfolding swap using handling_runs [OF handled, of env ?A fd2 pkt Return] by simp
  also have "?run \<dots> \<lparr>th_world = w2, th_workers = ?A @ Replying (reply_steps env io2 fd2 reply2 (FileUploadedCallback i)) # ws3,
      th_channels = ch\<rparr>"
    by (rule rtranclp_step [of "thread_step env", OF thread_step.answer], rule r_into_rtranclp, rule thread_step.send)
  also have "?run \<dots> \<lparr>th_world = w2\<lparr>w_van := v2\<rparr>, th_workers = ?A @ ws3, th_channels = ch\<rparr>"
    by (rule replying_ends [OF answers]) simp
  also have "?run \<dots> \<lparr>th_world = w2\<lparr>w_van := v2, w_server := s'\<rparr>, th_workers = ws1 @ ws2 @ ws3, th_channels = ch\<rparr>"
    unfolding append_assoc append_Cons
    by (rule replying_ends, simp add: callback_steps_defs, simp add: same s')
  finally show "?run \<lparr>th_world = w, th_workers = ws1 @ Replying (reply_steps env io fd reply ?ann) # ws2 @
         Handling fd2 pkt (handle_steps env io2 pkt) # ws3, th_channels = ch\<rparr>
      \<lparr>th_world = w2\<lparr>w_van := v2, w_server := s'\<rparr>, th_workers = ws1 @ ws2 @ ws3, th_channels = ch\<rparr>" .
  show "pending_packets s' = pending_packets (w_server w)" by (simp add: s')
  show "getFileMsg s' i = (u, m)" by (simp add: s' getFileMsg_def setFileMsg_def)
qed

text \<open>An example: the file is small, and everything can be sent.\<close>

definition sending_io :: io where
  "sending_io = example_io_now\<lparr>io_send := replicate 1000 (SendTakes 1000)\<rparr>"

lemma upload_van:
  "on_FileUploadRequest env io pkt (w\<lparr>w_van := v\<rparr>) =
     rbind (on_FileUploadRequest env io pkt w) (\<lambda>(reply, cb, w'). Inr (reply, cb, w'\<lparr>w_van := v\<rparr>))"
  by (auto simp: on_FileUploadRequest_def Let_def rbind_assoc intro!: rbind_cong split: option.split prod.split)

lemma upload_sending: "on_FileUploadRequest env sending_io pkt w = on_FileUploadRequest env example_io_now pkt w"
proof -
  have disk: "io_disk sending_io = io_disk example_io_now" by (simp add: sending_io_def)
  show ?thesis unfolding on_FileUploadRequest_def disk by (rule refl)
qed

lemma upload_reply_sent:
  "\<exists>n v'. Van_Send plain_wire (new_packet ref_env FileUploadResponse (FileUploadResponse_body True)) fd
     (io_send sending_io) v = Inr (n, v') \<and> 0 \<le> n"
proof -
  let ?p = "new_packet ref_env FileUploadResponse (FileUploadResponse_body True)"
  have "length (SerializeToArray plain_wire ?p) < 100"
    by (simp add: plain_wire_def plain_serialize_def text_codec_def text_pack_def enc_fields_def
        enc_field_def enc_int_def enc_bool_def)
  then have "\<exists>rest. SendMesg plain_wire ?p (io_send sending_io) =
      Inr (int (length (SerializeToArray plain_wire ?p)), SerializeToArray plain_wire ?p, rest)"
    by (intro SendMesg_ok) (simp_all add: sending_io_def kMaxMessageSize_def)
  then show ?thesis by (auto simp: Van_Send_def Let_def)
qed

theorem upload_before_announcement_witness:
  "\<exists>w'. (thread_step ref_env)\<^sup>*\<^sup>*
      \<lparr>th_world = file_world, th_workers =
         [Replying (reply_steps ref_env sending_io 5 (new_packet ref_env FileUploadResponse
            (FileUploadResponse_body True)) (FileMsgCallback ''u1'' 1 failed_message)),
          Handling 6 upload_packet (handle_steps ref_env sending_io upload_packet)], th_channels = (\<lambda>_. None)\<rparr>
      \<lparr>th_world = w'\<lparr>w_server := setFileMsg ''u1'' 1 failed_message (w_server file_world)\<rparr>, th_workers = [], th_channels = (\<lambda>_. None)\<rparr> \<and>
     pending_packets (setFileMsg ''u1'' 1 failed_message (w_server file_world)) 1 = Some []"
proof -
  let ?r = "new_packet ref_env FileUploadResponse (FileUploadResponse_body True)"
  obtain n v where 1: "Van_Send plain_wire ?r 5 (io_send sending_io) (w_van file_world) = Inr (n, v)" "0 \<le> n"
    using upload_reply_sent by blast
  obtain cb w1 where u: "on_FileUploadRequest ref_env example_io_now upload_packet file_world = Inr (?r, cb, w1)"
    using upload_runs by blast
  have cb: "cb = FileUploadedCallback ''u1''"
    using upload_correct [OF ref_server.linked_server_axioms file_world_inv(1) u] by simp
  have t: "packet_type_of_id (packetId upload_packet) = Some FileUploadRequest"
    by (simp add: packet_type_of_id_iff)
  have 2: "handle_packet ref_env sending_io upload_packet (file_world\<lparr>w_van := v\<rparr>) =
      Inr (Some (?r, FileUploadedCallback ''u1'', w1\<lparr>w_van := v\<rparr>))"
    using u cb unfolding handle_packet_def t by (simp add: upload_van upload_sending)
  obtain n2 v2 where 3: "Van_Send plain_wire ?r 6 (io_send sending_io) (w_van (w1\<lparr>w_van := v\<rparr>)) = Inr (n2, v2)" "0 \<le> n2"
    using upload_reply_sent by blast
  have 4: "file_msg_pool (w_server file_world) ''u1'' = None"
    by (simp add: file_world_def online_world_def frame_simps empty_Server_def)
  have 5: "pending_packets (w_server file_world) 1 = Some []" by (simp add: file_world_def)
  show ?thesis
    using upload_before_announcement [of ?r ref_env 5 sending_io file_world n v sending_io upload_packet ?r "''u1''"
        "w1\<lparr>w_van := v\<rparr>" 6 n2 v2 _ 1 failed_message "[]" "[]" "[]" "\<lambda>_. None", OF _ _ 1(2) 2 _ _ 3(2) 4 refl] 1 3 5
    by auto
qed

end
