(* ===== verification/Thread_History.thy ===== *)
theory Thread_History
  imports Thread_Races
begin

text \<open>
  Who is answerable for what is stored, under every interleaving: a run of the threads as the list of
  its states, and in it the requests that were received. A token is traced back to a login, an account
  to a registration, a message to the request of the user it names.
\<close>

subsection \<open>Runs\<close>

text \<open>The latest state comes first.\<close>

inductive thread_run :: "('a, 'd) env \<Rightarrow> ('a, 'd) world \<Rightarrow> ('a, 'd) threads list \<Rightarrow> bool" for env w0 where
  begin_run: "thread_run env w0 [at_rest w0]"
| next_step: "thread_run env w0 (s # past) \<Longrightarrow> thread_step env s s' \<Longrightarrow> thread_run env w0 (s' # s # past)"

lemma thread_run_reaches:
  "thread_run env w0 ss \<Longrightarrow> \<exists>s past. ss = s # past \<and> (thread_step env)\<^sup>*\<^sup>* (at_rest w0) s \<and>
     (\<forall>s' \<in> set ss. (thread_step env)\<^sup>*\<^sup>* (at_rest w0) s' \<and> (thread_step env)\<^sup>*\<^sup>* s' s)"
  by (induction rule: thread_run.induct) (auto intro: rtranclp_last)

lemma reaches_thread_run:
  assumes "(thread_step env)\<^sup>*\<^sup>* (at_rest w0) s"
  shows "\<exists>past. thread_run env w0 (s # past)"
  using assms by (induction rule: rtranclp_induct) (blast intro: thread_run.intros)+

subsection \<open>What there has been\<close>

text \<open>In one of the states: a packet that a worker handles, a challenge, the user of a token, an account.\<close>

definition received_on :: "('a, 'd) threads set \<Rightarrow> int32 \<Rightarrow> 'a Packet \<Rightarrow> bool" where
  "received_on S fd pkt \<longleftrightarrow> (\<exists>s \<in> S. \<exists>p. Handling fd pkt p \<in> set (th_workers s))"

definition received :: "('a, 'd) threads set \<Rightarrow> 'a Packet \<Rightarrow> bool" where
  "received S pkt \<longleftrightarrow> (\<exists>fd. received_on S fd pkt)"

definition issued :: "('a, 'd) threads set \<Rightarrow> int32 \<Rightarrow> string \<Rightarrow> bool" where
  "issued S u c \<longleftrightarrow> (\<exists>s \<in> S. challenge_pool (w_server (th_world s)) u = Some c)"

definition identified :: "('a, 'd) threads set \<Rightarrow> string \<Rightarrow> int32 \<Rightarrow> bool" where
  "identified S t u \<longleftrightarrow> (\<exists>s \<in> S. getUserIdByToken (w_server (th_world s)) t = u)"

definition had_account ::
    "('d \<Rightarrow> string \<Rightarrow> sql_row list) \<Rightarrow> ('a, 'd) threads set \<Rightarrow> string \<Rightarrow> User \<Rightarrow> bool" where
  "had_account tbl S n u \<longleftrightarrow> (\<exists>s \<in> S. accounts_of tbl (w_db (th_world s)) n = Some u)"

text \<open>The requests that account for an account, a token and a message.\<close>

definition registered_by :: "('a, 'd) env \<Rightarrow> ('a, 'd) threads set \<Rightarrow> string \<Rightarrow> User \<Rightarrow> bool" where
  "registered_by env S n u \<longleftrightarrow> (\<exists>pkt. received S pkt \<and>
     packet_type_of_id (packetId pkt) = Some RegisterRequest \<and>
     (let r = unpacked unpack_Register \<lparr>rq_username = [], rq_rawPassword = []\<rparr> env pkt in
      credentials_ok r \<and> c_str (rq_username r) = n \<and> usr_username u = n \<and>
      SHA256 (env_crypto env) (rq_rawPassword r) = Inr (usr_password u)))"

definition logged_in_by ::
    "('a, 'd) env \<Rightarrow> ('d \<Rightarrow> string \<Rightarrow> sql_row list) \<Rightarrow> ('a, 'd) threads set \<Rightarrow> string \<Rightarrow> int32 \<Rightarrow> bool" where
  "logged_in_by env tbl S t i \<longleftrightarrow> (\<exists>pkt u c x. received S pkt \<and>
     packet_type_of_id (packetId pkt) = Some LoginRequest \<and> genToken (env_crypto env) x = Inr t \<and>
     (let r = unpacked unpack_Login \<lparr>lq_username = [], lq_hashPassword = []\<rparr> env pkt in
      had_account tbl S (c_str (lq_username r)) u \<and> usr_id u = i \<and> (c = [] \<or> issued S i c) \<and>
      SHA256 (env_crypto env) (usr_password u @ c) = Inr (lq_hashPassword r)))"

definition sent_by :: "('a, 'd) env \<Rightarrow> ('a, 'd) threads set \<Rightarrow> string \<Rightarrow> Message \<Rightarrow> bool" where
  "sent_by env S t m \<longleftrightarrow> (\<exists>pkt. received S pkt \<and>
     packet_type_of_id (packetId pkt) = Some SendMessageRequest \<and>
     (let r = unpacked unpack_SendMessage \<lparr>smq_token = [], smq_message = default_RawMessage\<rparr> env pkt in
      smq_token r = t \<and> smq_message r = msg_message m \<and> identified S t (raw_from (msg_message m))))"

text \<open>A state that is one of the history, and a change the history accounts for.\<close>

definition witnessed ::
    "('a, 'd) env \<Rightarrow> ('d \<Rightarrow> string \<Rightarrow> sql_row list) \<Rightarrow> ('d \<Rightarrow> string \<Rightarrow> column list option) \<Rightarrow>
     ('a, 'd) threads set \<Rightarrow> ('a, 'd) world \<Rightarrow> bool" where
  "witnessed env tbl sch S w \<longleftrightarrow>
     world_inv (threads_db tbl sch) env tbl w \<and> (\<exists>s \<in> S. th_world s = w)"

definition accounted ::
    "('a, 'd) env \<Rightarrow> ('d \<Rightarrow> string \<Rightarrow> sql_row list) \<Rightarrow> ('a, 'd) threads set \<Rightarrow>
     ('a, 'd) world \<Rightarrow> ('a, 'd) world \<Rightarrow> bool" where
  "accounted env tbl S w w' \<longleftrightarrow>
     (\<forall>n u. accounts_of tbl (w_db w') n = Some u \<longrightarrow>
       accounts_of tbl (w_db w) n = Some u \<or> registered_by env S n u) \<and>
     (\<forall>t. getUserIdByToken (w_server w') t = getUserIdByToken (w_server w) t \<or>
       logged_in_by env tbl S t (getUserIdByToken (w_server w') t)) \<and>
     (\<forall>a b. \<forall>m \<in> set (conv_of tbl (w_db w') a b). m \<in> set (conv_of tbl (w_db w) a b) \<or>
       (raw_from (msg_message m) = a \<and> raw_to (msg_message m) = b \<and> (\<exists>t. sent_by env S t m)))"

lemma accounted_frame:
  assumes "accounts_of tbl (w_db w') = accounts_of tbl (w_db w)"
    and "conv_of tbl (w_db w') = conv_of tbl (w_db w)"
    and "token_pool (w_server w') = token_pool (w_server w)"
  shows "accounted env tbl S w w'"
  using assms getUserIdByToken_frame [OF assms(3)] by (simp add: accounted_def)

lemma accounted_refl [simp]: "accounted env tbl S w w"
  by (rule accounted_frame) simp_all

subsection \<open>Rules for the kinds of steps\<close>

abbreviation answered where
  "answered env tbl sch S \<equiv> vouched (witnessed env tbl sch S) (accounted env tbl S)"

text \<open>
  \<open>A\<close> and \<open>G\<close> are about the pools and the database: what a step does to the disk and the van is always
  in \<open>G\<close>, and so is a step that only reads.
\<close>

locale step_rules =
  fixes A :: "('a, 'd) world \<Rightarrow> bool" and G :: "('a, 'd) world \<Rightarrow> ('a, 'd) world \<Rightarrow> bool"
  assumes stays: "A w \<Longrightarrow> G w w"
    and elsewhere: "A w \<Longrightarrow> G w (w\<lparr>w_van := v\<rparr>)" "A w \<Longrightarrow> G w (w\<lparr>w_disk := k\<rparr>)"
begin

lemma get_vouched: "(\<And>w. A w \<Longrightarrow> Q (f (w_server w))) \<Longrightarrow> vouched A G Q (um_get f)"
  unfolding um_get_def query_def by (rule vouched_atomic) (auto intro: stays)

lemma query_vouched: "(\<And>w r. A w \<Longrightarrow> f (w_db w) = Inr r \<Longrightarrow> Q r) \<Longrightarrow> vouched A G Q (db_get f)"
  unfolding db_get_def query_def by (rule vouched_atomic) (auto intro: stays)

lemma put_vouched:
  "(\<And>w. A w \<Longrightarrow> G w (w\<lparr>w_server := f (w_server w)\<rparr>)) \<Longrightarrow> vouched A G (\<lambda>_. True) (um_put f)"
  unfolding um_put_def change_def by (rule vouched_atomic) auto

lemma store_vouched:
  "(\<And>w r d. A w \<Longrightarrow> f (w_db w) = Inr (r, d) \<Longrightarrow> G w (w\<lparr>w_db := d\<rparr>)) \<Longrightarrow> vouched A G (\<lambda>_. True) (db_put f)"
  unfolding db_put_def by (rule vouched_atomic) auto

lemma quiet_vouched:
  "vouched A G (\<lambda>_. True) (um_get f)" "vouched A G (\<lambda>_. True) (db_get g)"
  "vouched A G (\<lambda>_. True) (disk_step l)" "vouched A G (\<lambda>_. True) (van_step v)"
  "vouched A G (\<lambda>_. True) (pure_prog m)"
  unfolding disk_step_def van_step_def
  by (auto intro!: get_vouched query_vouched vouched_pure vouched_atomic elsewhere)

end

text \<open>A callback that reads a dead variable ends there; otherwise it goes on with the value.\<close>

lemma vouched_captured:
  "vouched A G Q (p x) \<Longrightarrow> vouched A G Q (bind_prog (pure_prog (read_captured io x)) p)"
  by (rule vouched_bind [OF vouched_pure [of _ "\<lambda>y. y = x"]]) auto

interpretation accounts: step_rules "witnessed env tbl sch S" "accounted env tbl S" for env tbl sch S
  by unfold_locales (auto intro: accounted_frame)

lemma vouched_any: "vouched A G (\<lambda>_. True) (Return r)"
  by (rule vouched_Return) simp

lemmas vouched_then = vouched_bind [where Q' = "\<lambda>_. True"]

lemma vouched_if:
  "(b \<Longrightarrow> vouched A G Q p) \<Longrightarrow> (\<not> b \<Longrightarrow> vouched A G Q q) \<Longrightarrow> vouched A G Q (if b then p else q)"
  by simp

lemma vouched_option:
  "vouched A G Q p \<Longrightarrow> (\<And>x. r = Some x \<Longrightarrow> vouched A G Q (q x)) \<Longrightarrow>
   vouched A G Q (case r of None \<Rightarrow> p | Some x \<Rightarrow> q x)"
  by (simp split: option.split)

lemma keeps_tokens_vouched:
  "(\<And>s. token_pool (h s) = token_pool s) \<Longrightarrow> answered env tbl sch S (\<lambda>_. True) (um_put h)"
  by (rule accounts.put_vouched) (simp add: accounted_frame)

subsection \<open>Handlers that touch none of the three\<close>

lemmas accounts_rules = vouched_then vouched_if vouched_option vouched_any accounts.quiet_vouched keeps_tokens_vouched

lemma vouched_pools:
  "answered env tbl sch S (\<lambda>_. True) (login_pre_steps env io pkt)"
  "answered env tbl sch S (\<lambda>_. True) (setup_channel_steps env pkt)"
  "answered env tbl sch S (\<lambda>_. True) (contact_message_steps env pkt)"
  "answered env tbl sch S (\<lambda>_. True) (download_steps env io pkt)"
  unfolding login_pre_steps_def setup_channel_steps_def contact_message_steps_def download_steps_def Let_def
  by (auto intro!: accounts_rules simp: frame_simps split: option.split)

lemma vouched_post: "answered env tbl sch S (\<lambda>_. True) (post_steps u p)"
proof -
  have "answered env tbl sch S (\<lambda>_. True) (add_send_task u p)"
    unfolding add_send_task_def
    by (rule vouched_atomic) (auto split: option.splits intro: accounted_frame)
  then show ?thesis unfolding post_steps_def by (auto intro!: accounts_rules)
qed

lemma vouched_callback: "answered env tbl sch S (\<lambda>_. True) (callback_steps env io fd cb)"
proof -
  have "answered env tbl sch S (\<lambda>_. True) (contact_list_steps env u)" for u
    unfolding contact_list_steps_def by (auto intro!: accounts_rules vouched_each)
  moreover have "answered env tbl sch S (\<lambda>_. True) (set_sender_steps io u fd)" for u fd
  proof -
    have "answered env tbl sch S (\<lambda>_. True) (open_sender_step io u fd)"
      unfolding open_sender_step_def
      by (rule vouched_atomic) (auto simp: open_sender_def split: prod.splits option.splits if_splits intro!: accounted_frame)
    moreover have "answered env tbl sch S (\<lambda>_. True) (clear_sender_step u)"
      unfolding clear_sender_step_def by (rule vouched_atomic) (auto split: option.splits intro!: accounted_frame)
    ultimately show ?thesis unfolding set_sender_steps_def by (auto intro!: vouched_then vouched_if vouched_any)
  qed
  ultimately show ?thesis
    by (auto simp: callback_steps_defs frame_simps split: callback.split intro!: accounts_rules vouched_post)
qed

lemma vouched_reply: "answered env tbl sch S (\<lambda>_. True) (reply_steps env io fd reply cb)"
  unfolding reply_steps_def by (auto intro!: accounts_rules vouched_callback)

subsection \<open>The three that do\<close>

context linked_server
begin

lemma upload_vouched: "answered env tbl sch S (\<lambda>_. True) (upload_steps env io pkt)"
proof -
  have "answered env tbl sch S (\<lambda>_. True) (db_put (\<lambda>d. updateFile (env_sql env) d f))" for f
    by (rule accounts.store_vouched) (auto simp: witnessed_def world_inv_def intro!: accounted_frame dest: sql.updateFile_grows)
  then show ?thesis
    unfolding upload_steps_def Let_def by (auto intro!: accounts_rules split: option.split)
qed

lemma register_vouched:
  assumes pkt: "received S pkt" "packet_type_of_id (packetId pkt) = Some RegisterRequest"
  shows "answered env tbl sch S (\<lambda>_. True) (register_steps env pkt)"
proof -
  let ?r = "unpacked unpack_Register \<lparr>rq_username = [], rq_rawPassword = []\<rparr> env pkt"
  have "answered env tbl sch S (\<lambda>_. True) (db_put (\<lambda>d. Inr (createUser (env_sql env) d (make_User 0 (rq_username ?r) h))))"
    if ok: "credentials_ok ?r" and h: "SHA256 (env_crypto env) (rq_rawPassword ?r) = Inr h" for h
  proof (rule accounts.store_vouched)
    fix w b d
    assume w: "witnessed env tbl sch S w" and c: "Inr (createUser (env_sql env) (w_db w) (make_User 0 (rq_username ?r) h)) = Inr (b, d)"
    have "registered_by env S (c_str (rq_username ?r)) (make_User i (rq_username ?r) h)" for i
      unfolding registered_by_def Let_def using pkt ok h sha_c_str [OF h]
      by (intro exI [of _ pkt]) (simp add: make_User_def)
    moreover have "threads_db tbl sch (w_db w)" using w by (simp add: witnessed_def world_inv_def)
    from sql.createUser_grows [OF this c [unfolded sum.inject]]
    have "conv_of tbl d = conv_of tbl (w_db w) \<and> (accounts_of tbl d = accounts_of tbl (w_db w) \<or>
        (\<exists>i. accounts_of tbl d = (accounts_of tbl (w_db w))(c_str (rq_username ?r) \<mapsto> make_User i (rq_username ?r) h)))"
      by (simp add: make_User_def)
    ultimately show "accounted env tbl S w (w\<lparr>w_db := d\<rparr>)"
      by (auto simp: accounted_def split: if_splits)
  qed
  moreover have "answered env tbl sch S (\<lambda>h. SHA256 (env_crypto env) (rq_rawPassword ?r) = Inr h)
      (pure_prog (SHA256 (env_crypto env) (rq_rawPassword ?r)))" by (rule vouched_pure)
  ultimately show ?thesis
    unfolding register_steps_def Let_def
    by (intro vouched_if vouched_any) (auto intro!: vouched_bind vouched_any simp: credentials_ok_def)
qed

lemma login_vouched:
  assumes pkt: "received S pkt" "packet_type_of_id (packetId pkt) = Some LoginRequest"
  shows "answered env tbl sch S (\<lambda>_. True) (login_steps env io pkt)"
proof -
  let ?r = "unpacked unpack_Login \<lparr>lq_username = [], lq_hashPassword = []\<rparr> env pkt"
  have user: "answered env tbl sch S (\<lambda>res. \<forall>u. res = Some u \<longrightarrow> had_account tbl S (c_str (lq_username ?r)) u)
      (db_get (\<lambda>d. getUser_name (env_sql env) d (lq_username ?r)))"
    by (rule accounts.query_vouched)
      (auto simp: witnessed_def world_db_ok had_account_def dest!: sql.getUser_name_accounts [rotated])
  have challenge: "answered env tbl sch S (\<lambda>c. c = [] \<or> issued S i c) (um_get (\<lambda>s. getChallengeMp s i))" for i
    by (rule accounts.get_vouched) (auto simp: witnessed_def issued_def getChallengeMp_def split: option.split)
  have put: "answered env tbl sch S (\<lambda>_. True) (um_put (setUserIdByToken t (usr_id u)))"
    if "had_account tbl S (c_str (lq_username ?r)) u" "c = [] \<or> issued S (usr_id u) c"
      "SHA256 (env_crypto env) (usr_password u @ c) = Inr (lq_hashPassword ?r)"
      "genToken (env_crypto env) x = Inr t" for u c x t
  proof -
    have "logged_in_by env tbl S t (usr_id u)"
      unfolding logged_in_by_def Let_def using pkt that by blast
    then show ?thesis
      by (intro accounts.put_vouched) (auto simp: accounted_def getUserIdByToken_def setUserIdByToken_def)
  qed
  have del: "answered env tbl sch S (\<lambda>_. True) (um_put (delChallengeMp i))" for i
    by (rule keeps_tokens_vouched) (simp add: frame_simps)
  have sha: "answered env tbl sch S (\<lambda>h. SHA256 (env_crypto env) x = Inr h) (pure_prog (SHA256 (env_crypto env) x))"
    for x by (rule vouched_pure)
  have tok: "answered env tbl sch S (\<lambda>t. genToken (env_crypto env) x = Inr t) (pure_prog (genToken (env_crypto env) x))"
    for x by (rule vouched_pure)
  show ?thesis
    unfolding login_steps_def Let_def
    by (rule vouched_bind [OF user], rule vouched_option, rule vouched_any, rule vouched_bind [OF challenge],
        rule vouched_bind [OF sha], rule vouched_if, rule vouched_bind [OF tok], rule vouched_then [OF put], blast,
        assumption, blast, assumption)
      (rule vouched_then [OF del], rule vouched_any)+
qed

lemma send_message_vouched:
  assumes pkt: "received S pkt" "packet_type_of_id (packetId pkt) = Some SendMessageRequest"
  shows "answered env tbl sch S (\<lambda>_. True) (send_message_steps env io pkt)"
proof -
  let ?r = "unpacked unpack_SendMessage \<lparr>smq_token = [], smq_message = default_RawMessage\<rparr> env pkt"
  have user: "answered env tbl sch S (identified S t) (um_get (\<lambda>s. getUserIdByToken s t))" for t
    by (rule accounts.get_vouched) (auto simp: witnessed_def identified_def)
  have announce: "answered env tbl sch S (\<lambda>_. True) (db_put (\<lambda>d. createFile (env_sql env) d i))" for i
    by (rule accounts.store_vouched) (auto simp: witnessed_def world_inv_def intro!: accounted_frame dest: sql.createFile_grows)
  have insert: "answered env tbl sch S (\<lambda>_. True) (db_put (insert_message (env_sql env) x))"
    if x: "msg_message x = smq_message ?r"
      and from_user: "identified S (smq_token ?r) (raw_from (smq_message ?r))" for x
  proof (rule accounts.store_vouched)
    fix w b d
    assume w: "witnessed env tbl sch S w" and c: "insert_message (env_sql env) x (w_db w) = Inr (b, d)"
    have "\<exists>t. sent_by env S t (x\<lparr>msg_id := i\<rparr>)" for i
      unfolding sent_by_def Let_def using pkt x from_user by (intro exI [of _ "smq_token ?r"] exI [of _ pkt]) simp
    then show "accounted env tbl S w (w\<lparr>w_db := d\<rparr>)"
      using sql.insert_message_effect [of "w_db w" x b d] w c
      by (auto simp: accounted_def witnessed_def world_db_ok split: if_splits)
  qed
  have store: "answered env tbl sch S (\<lambda>_. True) (createMsgByRawMsg_steps env (smq_message ?r) now)"
    if "identified S (smq_token ?r) (raw_from (smq_message ?r))" for now
    unfolding createMsgByRawMsg_steps_def createMsg_steps_def bind_assoc
  proof (rule vouched_bind)
    show "answered env tbl sch S (\<lambda>x. msg_message x = smq_message ?r)
        (db_get (\<lambda>d. next_message (env_sql env) d (smq_message ?r) now))"
      by (rule accounts.query_vouched) (auto dest: next_message_id [OF _ _ refl refl])
  qed (use that in \<open>auto intro!: vouched_then [OF insert] vouched_if vouched_any vouched_then [OF accounts.quiet_vouched(2)]\<close>)
  show ?thesis
    unfolding send_message_steps_def Let_def
    by (rule vouched_bind [OF user])
      (auto intro!: vouched_if vouched_option vouched_any vouched_then [OF accounts.quiet_vouched(2)] vouched_then [OF store]
        vouched_then [OF announce])
qed

lemma handle_vouched:
  assumes "received S pkt"
  shows "answered env tbl sch S (\<lambda>_. True) (handle_steps env io pkt)"
  using assms
  by (cases "packet_type_of_id (packetId pkt)")
    (auto simp: handle_steps_def Let_def split: PacketType.split
      intro!: vouched_any vouched_then vouched_pools upload_vouched register_vouched login_vouched send_message_vouched)

end

subsection \<open>Every run accounts for what it stores\<close>

text \<open>A worker whose remaining steps are all accounted for.\<close>

fun worker_vouched ::
    "('a, 'd) env \<Rightarrow> ('d \<Rightarrow> string \<Rightarrow> sql_row list) \<Rightarrow> ('d \<Rightarrow> string \<Rightarrow> column list option) \<Rightarrow>
     ('a, 'd) threads set \<Rightarrow> ('a, 'd) worker \<Rightarrow> bool" where
  "worker_vouched env tbl sch S (Handling fd pkt p) = answered env tbl sch S (\<lambda>_. True) p"
| "worker_vouched env tbl sch S (Replying p) = answered env tbl sch S (\<lambda>_. True) p"
| "worker_vouched env tbl sch S _ = True"

lemma accounted_trans:
  assumes "accounted env tbl S w w'" and "accounted env tbl S w' w''"
  shows "accounted env tbl S w w''"
  using assms unfolding accounted_def by metis

lemma set_queue_token_pool [simp]: "token_pool (set_queue u q s) = token_pool s"
  by (simp add: set_queue_def split: option.split)

context linked_server
begin

lemma thread_step_accounted:
  assumes step: "thread_step env s s'" and w: "witnessed env tbl sch S (th_world s)" and s': "s' \<in> S"
    and k: "\<forall>k \<in> set (th_workers s). worker_vouched env tbl sch S k"
  shows "(\<forall>k \<in> set (th_workers s'). worker_vouched env tbl sch S k) \<and> accounted env tbl S (th_world s) (th_world s')"
  using step
proof cases
  case (receive io w n pkt v ws1 fd ws2 ch)
  have "Handling fd pkt (handle_steps env io pkt) \<in> set (th_workers s')" by (simp add: receive(2))
  then have "received S pkt" using s' unfolding received_def received_on_def by blast
  then show ?thesis using k handle_vouched by (auto simp: receive(1,2) intro: accounted_frame)
next
  case (handle w p w' p' ws1 fd pkt ws2 ch)
  then have "answered env tbl sch S (\<lambda>_. True) p" using k by simp
  then show ?thesis using vouched_step [OF _ _ handle(3)] w k by (auto simp: handle(1,2))
next
  case (reply w p w' p' ws1 ws2 ch)
  then have "answered env tbl sch S (\<lambda>_. True) p" using k by simp
  then show ?thesis using vouched_step [OF _ _ reply(3)] w k by (auto simp: reply(1,2))
next
  case (accept e w s1 v ws ch)
  have "s1 = (w_server w)\<lparr>revc_socket_pool := revc_socket_pool s1\<rparr>" using on_event_Inr [OF accept(3)] by blast
  then have "token_pool s1 = token_pool ((w_server w)\<lparr>revc_socket_pool := revc_socket_pool s1\<rparr>)" by (rule arg_cong)
  then show ?thesis using k by (auto simp: accept(1,2) intro: accounted_frame)
qed (use k vouched_reply in \<open>auto intro: accounted_frame\<close>)

lemma thread_run_accounted:
  assumes "thread_run env w0 ss" and start: "ready env tbl sch w0" and "set ss \<subseteq> S"
  shows "(\<forall>s \<in> set ss. accounted env tbl S w0 (th_world s)) \<and>
    (\<forall>k \<in> set (th_workers (hd ss)). worker_vouched env tbl sch S k)"
  using assms(1,3)
proof (induction rule: thread_run.induct)
  case begin_run
  then show ?case by (simp add: at_rest_def)
next
  case (next_step s past s')
  have IH: "\<forall>s \<in> set (s # past). accounted env tbl S w0 (th_world s)" "\<forall>k \<in> set (th_workers s). worker_vouched env tbl sch S k"
    using next_step.IH next_step.prems by auto
  have "(thread_step env)\<^sup>*\<^sup>* (at_rest w0) s" using thread_run_reaches [OF next_step.hyps(1)] by auto
  from threads_reach [OF start this] have "witnessed env tbl sch S (th_world s)"
    using next_step.prems by (auto simp: witnessed_def threads_inv_def)
  with next_step.prems IH(2) have "(\<forall>k \<in> set (th_workers s'). worker_vouched env tbl sch S k) \<and> accounted env tbl S (th_world s) (th_world s')"
    by (intro thread_step_accounted [OF next_step.hyps(2)]) auto
  with IH show ?case by (auto intro: accounted_trans)
qed

text \<open>The user of a token that a state of the run knows has logged in.\<close>

lemma identified_logged_in:
  assumes "thread_run env w0 ss" and start: "ready env tbl sch w0" and "identified (set ss) t u"
  shows "u = 0 \<or> logged_in_by env tbl (set ss) t u"
proof -
  obtain s where s: "s \<in> set ss" "getUserIdByToken (w_server (th_world s)) t = u"
    using assms(3) by (auto simp: identified_def)
  have "getUserIdByToken (w_server w0) t = 0"
    using start by (simp add: ready_def getUserIdByToken_def empty_Server_def)
  then show ?thesis
    using thread_run_accounted [OF assms(1) start subset_refl] s unfolding accounted_def by metis
qed

end

subsection \<open>An example: a registration arrives\<close>

text \<open>A server that has just started, with clients on sockets; and a request that arrives in one piece.\<close>

definition sockets_world :: "int32 list \<Rightarrow> (string, refdb) world" where
  "sockets_world fds = start_world\<lparr>w_van := (w_van start_world)
     \<lparr>RecvSocketQueue := fold (\<lambda>fd q. Push q fd) fds empty_queue\<rparr>\<rparr>"

definition packet_io :: "string Packet \<Rightarrow> io" where
  "packet_io pkt = example_io_now\<lparr>io_recv := map RecvData [SerializeToArray plain_wire pkt] @ RecvWouldBlock # [],
     io_send := replicate 1000 (SendTakes 1000)\<rparr>"

lemma packet_io_sel:
  "io_recv (packet_io pkt) = map RecvData [SerializeToArray plain_wire pkt] @ RecvWouldBlock # []"
  "io_send (packet_io pkt) = replicate 1000 (SendTakes 1000)" "io_uuid (packet_io pkt) = ''u1''"
  "io_thread_ok (packet_io pkt)" "io_locals_kept (packet_io pkt)"
  "io_del_ok (packet_io pkt)"
  by (simp_all add: packet_io_def example_io_now_def)

lemma items_pushed: "items (fold (\<lambda>fd q. Push q fd) fds q) = items q @ fds"
  by (induction fds arbitrary: q) (simp_all add: Push_def)

lemma sockets_world_sel [simp]:
  "w_db (sockets_world fds) = fresh_db" "w_server (sockets_world fds) = empty_Server"
  "items (RecvSocketQueue (w_van (sockets_world fds))) = fds"
  by (simp_all add: sockets_world_def start_world_def items_pushed empty_queue_def)

lemma ready_sockets: "ready ref_env ref_tbl ref_sch (sockets_world fds)"
  using ready_waiting by (simp add: ready_def waiting_world_def)

lemma request_runs:
  assumes q: "items (RecvSocketQueue (w_van w)) = fd # fds" and room: "length ws < revc_socket_pool_thread_num"
    and pkt: "length (SerializeToArray plain_wire pkt) < kMaxMessageSize" "SerializeToArray plain_wire pkt \<noteq> []"
    and h: "\<And>v. handle_packet ref_env (packet_io pkt) pkt (w\<lparr>w_van := v\<rparr>) = Inr (Some (reply, cb, w'\<lparr>w_van := v\<rparr>))"
  shows "\<exists>v. items (RecvSocketQueue v) = fds \<and> (thread_step ref_env)\<^sup>*\<^sup>*
    \<lparr>th_world = w, th_workers = ws, th_channels = ch\<rparr>
    \<lparr>th_world = w'\<lparr>w_van := v\<rparr>, th_workers = ws @ [Answering fd reply cb], th_channels = ch\<rparr>"
proof -
  let ?q = "\<lparr>items = fds\<rparr>" and ?n = "int (length (SerializeToArray plain_wire pkt))"
  let ?v = "(w_van w)\<lparr>RecvSocketQueue := ?q\<rparr>"
  have pop: "WaitAndPop (RecvSocketQueue (w_van w)) = Some (fd, ?q)" using q by (simp add: WaitAndPop_Some_iff)
  have recv: "RecvMesg plain_wire (io_recv (packet_io pkt)) = Inr (?n, Some pkt)"
    unfolding packet_io_sel using pkt by (intro RecvMesg_chunks [OF plain_w.wire_codec_laws_axioms]) simp_all
  obtain v where v: "Van_Recv (env_wire ref_env) (io_recv (packet_io pkt)) ?v = Inr (?n, Some pkt, v)"
    "RecvSocketQueue v = ?q" by (simp add: Van_Recv_def recv)
  have "receive_request ref_env (packet_io pkt) (w\<lparr>w_van := ?v\<rparr>) = Inr (Some (reply, cb), w'\<lparr>w_van := v\<rparr>)"
    using h [of v] v(1) pkt(2) by (simp add: receive_request_def)
  from receive_runs [OF room pop this, of ch] show ?thesis using v(2) by (intro exI [of _ v]) simp
qed

definition bob_request :: "string Packet" where
  "bob_request = new_packet ref_env RegisterRequest
     (RegisterRequest_body \<lparr>rq_username = ''bob'', rq_rawPassword = ''secret''\<rparr>)"

text \<open>A database with bob's account, whose hash is \<open>h\<close>, and without messages.\<close>

definition bobs :: "string \<Rightarrow> refdb \<Rightarrow> bool" where
  "bobs h db \<longleftrightarrow> store_inv ref_tbl ref_sch db \<and> accounts_of ref_tbl db ''bob'' = Some (make_User 1 ''bob'' h) \<and>
     (\<exists>u. getUser_id ref_engine db 1 = Inr (Some u)) \<and> (\<forall>a b. conv_of ref_tbl db a b = [])"

lemma bob_request_handled:
  "\<exists>db h. bobs h db \<and>
     (\<forall>w. w_db w = fresh_db \<longrightarrow> handle_packet ref_env (packet_io bob_request) bob_request w =
       Inr (Some (new_packet ref_env RegisterResponse (RegisterResponse_body True), NoCallback, w\<lparr>w_db := db\<rparr>)))"
proof -
  let ?r = "\<lparr>rq_username = ''bob'', rq_rawPassword = ''secret''\<rparr>"
  obtain h where h: "SHA256 plain_crypto ''secret'' = Inr h" using ref_server.SHA256_inv by auto
  obtain db where c: "createUser ref_engine fresh_db (make_User 0 ''bob'' h) = (True, db)"
    and a: "accounts_of ref_tbl db ''bob'' = Some (make_User 1 ''bob'' h)"
    and u: "\<exists>u. getUser_id ref_engine db 1 = Inr (Some u)" and m: "\<forall>a b. conv_of ref_tbl db a b = []"
    by (simp add: createUser_def ref_eval accounts_of_def make_User_def c_str_def row_user_def getUser_id_def
        fetch_first_def bind_int_def read_User_def getColumn_def conv_of_def conv_rows_def)
  have t: "packet_type_of_id (packetId bob_request) = Some RegisterRequest"
    by (simp add: bob_request_def packet_type_of_id_iff)
  have "store_inv ref_tbl ref_sch db"
    by (rule sqlite_laws.createUser_store_inv [OF refsql.sqlite_laws_axioms store_inv_fresh_db c])
  then have "bobs h db" using a u m by (simp add: bobs_def)
  moreover have "handle_packet ref_env (packet_io bob_request) bob_request w =
       Inr (Some (new_packet ref_env RegisterResponse (RegisterResponse_body True), NoCallback, w\<lparr>w_db := db\<rparr>))"
    if "w_db w = fresh_db" for w :: "(string, refdb) world"
    using ref_server.on_RegisterRequest_tried [of ?r h w True db RegisterRequest] h c that
    unfolding handle_packet_def t by (simp add: credentials_ok_def bob_request_def)
  ultimately show ?thesis by (intro exI conjI allI impI)
qed

lemma bob_registers:
  "\<exists>db h v k. bobs h db \<and> items (RecvSocketQueue v) = fds \<and>
     (thread_step ref_env)\<^sup>*\<^sup>* (at_rest (sockets_world (fd # fds)))
       \<lparr>th_world = (sockets_world (fd # fds))\<lparr>w_db := db, w_van := v\<rparr>, th_workers = [k], th_channels = (\<lambda>_. None)\<rparr>"
proof -
  let ?w = "sockets_world (fd # fds)" and ?reply = "new_packet ref_env RegisterResponse (RegisterResponse_body True)"
  obtain db h where b: "bobs h db" and r: "\<forall>w. w_db w = fresh_db \<longrightarrow>
      handle_packet ref_env (packet_io bob_request) bob_request w = Inr (Some (?reply, NoCallback, w\<lparr>w_db := db\<rparr>))"
    using bob_request_handled by (elim exE conjE) (rule that)
  have "length (SerializeToArray plain_wire bob_request) < 200"
    by (simp add: bob_request_def plain_wire_def plain_serialize_def text_codec_def text_pack_def enc_fields_def
        enc_field_def enc_int_def)
  then have small: "length (SerializeToArray plain_wire bob_request) < kMaxMessageSize" by (simp add: kMaxMessageSize_def)
  have "\<exists>v. items (RecvSocketQueue v) = fds \<and> (thread_step ref_env)\<^sup>*\<^sup>* \<lparr>th_world = ?w, th_workers = [], th_channels = (\<lambda>_. None)\<rparr>
      \<lparr>th_world = (?w\<lparr>w_db := db\<rparr>)\<lparr>w_van := v\<rparr>, th_workers = [] @ [Answering fd ?reply NoCallback], th_channels = (\<lambda>_. None)\<rparr>"
  proof (rule request_runs)
    show "handle_packet ref_env (packet_io bob_request) bob_request (?w\<lparr>w_van := v\<rparr>) =
        Inr (Some (?reply, NoCallback, ?w\<lparr>w_db := db\<rparr>\<lparr>w_van := v\<rparr>))" for v
      using r [rule_format, of "?w\<lparr>w_van := v\<rparr>"] by simp
  qed (use small in \<open>simp_all add: revc_socket_pool_thread_num_def bob_request_def status_length(2)\<close>)
  then obtain v where v: "items (RecvSocketQueue v) = fds" "(thread_step ref_env)\<^sup>*\<^sup>* (at_rest ?w)
      \<lparr>th_world = ?w\<lparr>w_db := db, w_van := v\<rparr>, th_workers = [Answering fd ?reply NoCallback], th_channels = (\<lambda>_. None)\<rparr>"
    unfolding at_rest_def append_Nil by blast
  show ?thesis using b v by (intro exI conjI)
qed

subsection \<open>Property\<close>

text \<open>
  C5: Whatever steps of the threads are interleaved: every account that was not there at the start comes
  from a registration that was received, with a name and a password of the right lengths; every token
  that identifies a user was made for a login that was received and answers a challenge the server
  had issued to that user, or the empty one; and every message that was not there at the start was
  received in a request that names the same sender, whose token was made for a login of that sender
  (or identifies nobody, and the sender is 0).
\<close>

theorem threads_authentic:
  assumes laws: "linked_server env tbl sch" and start: "ready env tbl sch w0"
    and run: "thread_run env w0 (s # past)" and S: "S = set (s # past)"
  shows "(\<forall>n u. accounts_of tbl (w_db (th_world s)) n = Some u \<longrightarrow>
      accounts_of tbl (w_db w0) n = Some u \<or> registered_by env S n u) \<and>
    (\<forall>t. getUserIdByToken (w_server (th_world s)) t = 0 \<or>
      logged_in_by env tbl S t (getUserIdByToken (w_server (th_world s)) t)) \<and>
    (\<forall>a b. \<forall>m \<in> set (conv_of tbl (w_db (th_world s)) a b). m \<in> set (conv_of tbl (w_db w0) a b) \<or>
      (raw_from (msg_message m) = a \<and> raw_to (msg_message m) = b \<and>
       (\<exists>t. sent_by env S t m \<and> (a = 0 \<or> logged_in_by env tbl S t a))))"
proof (intro conjI)
  note who = linked_server.identified_logged_in [OF laws run start]
  have acc: "accounted env tbl S w0 (th_world s)"
    using linked_server.thread_run_accounted [OF laws run start subset_refl] by (simp add: S)
  then show "\<forall>n u. accounts_of tbl (w_db (th_world s)) n = Some u \<longrightarrow>
      accounts_of tbl (w_db w0) n = Some u \<or> registered_by env S n u"
    by (simp add: accounted_def)
  show "\<forall>t. getUserIdByToken (w_server (th_world s)) t = 0 \<or>
      logged_in_by env tbl S t (getUserIdByToken (w_server (th_world s)) t)"
    using who by (simp add: identified_def S)
  show "\<forall>a b. \<forall>m \<in> set (conv_of tbl (w_db (th_world s)) a b). m \<in> set (conv_of tbl (w_db w0) a b) \<or>
      (raw_from (msg_message m) = a \<and> raw_to (msg_message m) = b \<and>
       (\<exists>t. sent_by env S t m \<and> (a = 0 \<or> logged_in_by env tbl S t a)))"
  proof (intro allI ballI)
    fix a b m
    assume "m \<in> set (conv_of tbl (w_db (th_world s)) a b)"
    then have m: "m \<in> set (conv_of tbl (w_db w0) a b) \<or>
        (raw_from (msg_message m) = a \<and> raw_to (msg_message m) = b \<and> (\<exists>t. sent_by env S t m))"
      using acc unfolding accounted_def by blast
    have "sent_by env S t m \<Longrightarrow> raw_from (msg_message m) = 0 \<or> logged_in_by env tbl S t (raw_from (msg_message m))" for t
      using who unfolding S sent_by_def Let_def by blast
    with m show "m \<in> set (conv_of tbl (w_db w0) a b) \<or>
        (raw_from (msg_message m) = a \<and> raw_to (msg_message m) = b \<and>
         (\<exists>t. sent_by env S t m \<and> (a = 0 \<or> logged_in_by env tbl S t a)))" by blast
  qed
qed

theorem threads_authentic_witness:
  "\<exists>s past u. thread_run ref_env (sockets_world [5]) (s # past) \<and>
     accounts_of ref_tbl (w_db (th_world s)) ''bob'' = Some u \<and>
     accounts_of ref_tbl (w_db (sockets_world [5])) ''bob'' = None \<and> registered_by ref_env (set (s # past)) ''bob'' u"
proof -
  obtain s u where s: "(thread_step ref_env)\<^sup>*\<^sup>* (at_rest (sockets_world [5])) s"
    and u: "accounts_of ref_tbl (w_db (th_world s)) ''bob'' = Some u" using bob_registers [of "[]" 5] by (fastforce simp: bobs_def)
  obtain past where past: "thread_run ref_env (sockets_world [5]) (s # past)" using reaches_thread_run [OF s] by blast
  have fresh: "accounts_of ref_tbl (w_db (sockets_world [5])) ''bob'' = None" by (simp add: accounts_of_def)
  have "registered_by ref_env (set (s # past)) ''bob'' u"
    using threads_authentic [OF ref_server.linked_server_axioms ready_sockets past refl, THEN conjunct1, rule_format, OF u]
      fresh by simp
  with past u fresh show ?thesis by blast
qed

end
