(* ===== verification/Thread_Privacy.thy ===== *)
theory Thread_Privacy
  imports Thread_History
begin

text \<open>
  Who gets what, under every interleaving: a channel was opened on its socket with a token of its user,
  and on it only contact lists and messages to that user are delivered; a reply contains a message only
  for its sender, and a file only for a user.
\<close>

subsection \<open>Justified channels\<close>

text \<open>The request that opened a channel, and the message that is pushed: one that was sent, or it with
  the id of its file for its content.\<close>

definition opened_by :: "('a, 'd) env \<Rightarrow> ('a, 'd) threads set \<Rightarrow> int32 \<Rightarrow> string \<Rightarrow> int32 \<Rightarrow> bool" where
  "opened_by env S fd t u \<longleftrightarrow> identified S t u \<and> (\<exists>pkt. received_on S fd pkt \<and>
     packet_type_of_id (packetId pkt) = Some SetupChannelRequest \<and>
     scq_token (unpacked unpack_SetupChannel \<lparr>scq_token = []\<rparr> env pkt) = t)"

definition sent_to :: "('a, 'd) env \<Rightarrow> ('a, 'd) threads set \<Rightarrow> int32 \<Rightarrow> Message \<Rightarrow> bool" where
  "sent_to env S u m \<longleftrightarrow> raw_to (msg_message m) = u \<and>
     (\<exists>t x. sent_by env S t x \<and> (m = x \<or> (\<exists>i. m = with_file_id i x)))"

definition addressed_to :: "('a, 'd) env \<Rightarrow> ('a, 'd) threads set \<Rightarrow> int32 \<Rightarrow> 'a Packet \<Rightarrow> bool" where
  "addressed_to env S u p \<longleftrightarrow> u \<noteq> 0 \<and>
     ((\<exists>b. p = new_packet env ContactListRequest b) \<or>
      (\<exists>m. p = new_packet env ContactMessageListRequest (ContactMessageListRequest_body [m]) \<and> sent_to env S u m))"

text \<open>The pools, and a callback that is still to be run for a request from the socket \<open>fd\<close>.\<close>

definition private_pools :: "('a, 'd) env \<Rightarrow> ('a, 'd) threads set \<Rightarrow> 'a Server \<Rightarrow> bool" where
  "private_pools env S s \<longleftrightarrow>
     (\<forall>u sdr. keepalive_sender_mp s u = Some sdr \<longrightarrow>
       (\<exists>t. opened_by env S (sender_fd sdr) t u) \<and> (\<forall>p \<in> set (items (msg_queue sdr)). addressed_to env S u p)) \<and>
     (\<forall>i u m. file_msg_pool s i = Some (u, m) \<longrightarrow> sent_to env S u m)"

fun private_callback :: "('a, 'd) env \<Rightarrow> ('a, 'd) threads set \<Rightarrow> int32 \<Rightarrow> callback \<Rightarrow> bool" where
  "private_callback env S fd (SetupChannelCallback u) = (\<exists>t. opened_by env S fd t u)"
| "private_callback env S fd (FileMsgCallback i u m) = sent_to env S u m"
| "private_callback env S fd (ForwardCallback u m) = sent_to env S u m"
| "private_callback env S fd _ = True"

text \<open>
  A reply for the socket \<open>fd\<close>: messages only for a client that has presented a token of their sender,
  the content of a file only for one that has presented a token of some user.
\<close>

definition token_in :: "('a, 'd) env \<Rightarrow> 'a Packet \<Rightarrow> string option" where
  "token_in env pkt = (case packet_type_of_id (packetId pkt) of
     Some SendMessageRequest \<Rightarrow>
       Some (smq_token (unpacked unpack_SendMessage \<lparr>smq_token = [], smq_message = default_RawMessage\<rparr> env pkt))
   | Some ContactMessageRequest \<Rightarrow>
       Some (cmq_token (unpacked unpack_ContactMessage \<lparr>cmq_token = [], cmq_id = 0, cmq_internalId = 0\<rparr> env pkt))
   | Some FileDownloadRequest \<Rightarrow>
       Some (fdq_token (unpacked unpack_FileDownload \<lparr>fdq_token = [], fdq_id = []\<rparr> env pkt))
   | _ \<Rightarrow> None)"

definition presented :: "('a, 'd) env \<Rightarrow> ('a, 'd) threads set \<Rightarrow> int32 \<Rightarrow> string \<Rightarrow> int32 \<Rightarrow> bool" where
  "presented env S fd t u \<longleftrightarrow> identified S t u \<and> (\<exists>pkt. received_on S fd pkt \<and> token_in env pkt = Some t)"

definition private_body :: "('a, 'd) env \<Rightarrow> ('a, 'd) threads set \<Rightarrow> int32 \<Rightarrow> body \<Rightarrow> bool" where
  "private_body env S fd b = (case b of
     SendMessageResponse_body m \<Rightarrow> m = failed_message \<or> (\<exists>t. presented env S fd t (raw_from (msg_message m)))
   | ContactMessageResponse_body m \<Rightarrow> m = failed_message \<or> (\<exists>t. presented env S fd t (raw_from (msg_message m)))
   | FileDownloadResponse_body fl h \<Rightarrow> file_content fl = [] \<or> (\<exists>t u. presented env S fd t u \<and> u \<noteq> 0)
   | ContactListRequest_body cs ids \<Rightarrow> False
   | ContactMessageListRequest_body ms \<Rightarrow> False
   | _ \<Rightarrow> True)"

definition private_reply :: "('a, 'd) env \<Rightarrow> ('a, 'd) threads set \<Rightarrow> int32 \<Rightarrow> 'a Packet \<Rightarrow> bool" where
  "private_reply env S fd p \<longleftrightarrow> (\<exists>t b. p = new_packet env t b \<and> private_body env S fd b)"

lemma private_replyI: "private_body env S fd b \<Longrightarrow> private_reply env S fd (new_packet env t b)"
  by (auto simp: private_reply_def)

lemma private_replies [simp]:
  "private_reply env S fd (new_packet env t (ServerStatusResponse_body x y))"
  "private_reply env S fd (new_packet env t (ServerStatusUpdateResponse_body x y))"
  "private_reply env S fd (new_packet env t (RegisterResponse_body x))"
  "private_reply env S fd (new_packet env t (LoginPreResponse_body c))"
  "private_reply env S fd (new_packet env t (LoginResponse_body x i c))"
  "private_reply env S fd (new_packet env t ServerAckResponse_body)"
  "private_reply env S fd (new_packet env t (FileUploadResponse_body x))"
  "private_reply env S fd (new_packet env t (SendMessageResponse_body failed_message))"
  "private_reply env S fd (new_packet env t (ContactMessageResponse_body failed_message))"
  by (rule private_replyI, simp add: private_body_def)+

lemma private_message:
  assumes "presented env S fd t (raw_from (msg_message m))"
  shows "private_reply env S fd (new_packet env ty (SendMessageResponse_body m))"
    and "private_reply env S fd (new_packet env ty (ContactMessageResponse_body m))"
  using assms by (auto simp: private_body_def intro!: private_replyI)

lemma private_download:
  "file_content fl = [] \<Longrightarrow> private_reply env S fd (new_packet env ty (FileDownloadResponse_body fl h))"
  "presented env S fd t u \<Longrightarrow> u \<noteq> 0 \<Longrightarrow> private_reply env S fd (new_packet env ty (FileDownloadResponse_body fl h))"
  by (auto simp: private_body_def intro!: private_replyI)

lemma private_pools_frame:
  "private_pools env S s \<Longrightarrow> keepalive_sender_mp s' = keepalive_sender_mp s \<Longrightarrow>
   file_msg_pool s' = file_msg_pool s \<Longrightarrow> private_pools env S s'"
  by (simp add: private_pools_def)

lemma private_open_sender:
  "private_pools env S s \<Longrightarrow> opened_by env S fd t u \<Longrightarrow> open_sender u fd s = (found, s') \<Longrightarrow> private_pools env S s'"
  by (fastforce simp: private_pools_def open_sender_def setFd_def make_sender_def empty_queue_def split: if_splits option.splits)

lemma private_clear_sender:
  "private_pools env S s \<Longrightarrow> keepalive_sender_mp s u = Some sdr \<Longrightarrow>
   private_pools env S (s\<lparr>keepalive_sender_mp := (keepalive_sender_mp s)(u \<mapsto> sender_Clear sdr)\<rparr>)"
  by (auto simp: private_pools_def sender_Clear_def split: if_splits)

lemma private_setFileMsg:
  "private_pools env S s \<Longrightarrow> sent_to env S u m \<Longrightarrow> private_pools env S (setFileMsg i u m s)"
  by (auto simp: private_pools_def setFileMsg_def)

lemma private_delFileMsg: "private_pools env S s \<Longrightarrow> private_pools env S (delFileMsg i s)"
  by (auto simp: private_pools_def delFileMsg_eq)

subsection \<open>Programs that keep them\<close>

definition overheard :: "('a, 'd) env \<Rightarrow> ('d \<Rightarrow> string \<Rightarrow> sql_row list) \<Rightarrow>
    ('d \<Rightarrow> string \<Rightarrow> column list option) \<Rightarrow> ('a, 'd) threads set \<Rightarrow> ('a, 'd) world \<Rightarrow> bool" where
  "overheard env tbl sch S w \<longleftrightarrow> private_pools env S (w_server w) \<and> witnessed env tbl sch S w"

definition private_step :: "('a, 'd) env \<Rightarrow> ('a, 'd) threads set \<Rightarrow> ('a, 'd) world \<Rightarrow> ('a, 'd) world \<Rightarrow> bool" where
  "private_step env S w w' \<longleftrightarrow> private_pools env S (w_server w')"

abbreviation discreet where
  "discreet env tbl sch S \<equiv> vouched (overheard env tbl sch S) (private_step env S)"

interpretation pools: step_rules "overheard env tbl sch S" "private_step env S" for env tbl sch S
  by unfold_locales (simp_all add: overheard_def private_step_def)

text \<open>What a handler returns: a callback that may be run for its socket.\<close>

definition discreet_answer :: "('a, 'd) env \<Rightarrow> ('a, 'd) threads set \<Rightarrow> int32 \<Rightarrow> 'a Packet \<times> callback \<Rightarrow> bool" where
  "discreet_answer env S fd = (\<lambda>(reply, cb). private_reply env S fd reply \<and> private_callback env S fd cb)"

definition discreet_result ::
    "('a, 'd) env \<Rightarrow> ('a, 'd) threads set \<Rightarrow> int32 \<Rightarrow> ('a Packet \<times> callback) option \<Rightarrow> bool" where
  "discreet_result env S fd r \<longleftrightarrow> (\<forall>a. r = Some a \<longrightarrow> discreet_answer env S fd a)"

lemma discreet_answer_simps [simp]: "discreet_answer env S fd (reply, cb) \<longleftrightarrow> private_reply env S fd reply \<and> private_callback env S fd cb"
  "discreet_result env S fd None" "discreet_result env S fd (Some a) = discreet_answer env S fd a"
  by (simp_all add: discreet_answer_def discreet_result_def)

lemma keeps_pools_vouched:
  assumes "\<And>s. keepalive_sender_mp (h s) = keepalive_sender_mp s" and "\<And>s. file_msg_pool (h s) = file_msg_pool s"
  shows "discreet env tbl sch S (\<lambda>_. True) (um_put h)"
  by (rule pools.put_vouched)
    (use assms in \<open>auto simp: overheard_def private_step_def intro: private_pools_frame\<close>)

lemma stores_vouched: "discreet env tbl sch S (\<lambda>_. True) (db_put f)"
  by (rule pools.store_vouched) (simp add: overheard_def private_step_def)

lemmas pools_rules = vouched_then vouched_if vouched_option vouched_Return pools.quiet_vouched stores_vouched
  keeps_pools_vouched

lemma discreet_plain:
  "discreet env tbl sch S (discreet_answer env S fd) (register_steps env pkt)"
  "discreet env tbl sch S (discreet_answer env S fd) (login_pre_steps env io pkt)"
  "discreet env tbl sch S (discreet_answer env S fd) (login_steps env io pkt)"
  "discreet env tbl sch S (discreet_answer env S fd) (upload_steps env io pkt)"
  unfolding register_steps_def login_pre_steps_def login_steps_def upload_steps_def Let_def
  by (auto intro!: pools_rules simp: frame_simps split: option.split if_splits)

text \<open>The user of a token that was presented on \<open>fd\<close>.\<close>

lemma presented_vouched:
  assumes "received_on S fd pkt" and "token_in env pkt = Some t"
  shows "discreet env tbl sch S (presented env S fd t) (um_get (\<lambda>s. getUserIdByToken s t))"
  by (rule pools.get_vouched) (use assms in \<open>auto simp: overheard_def witnessed_def presented_def identified_def\<close>)

lemma download_discreet:
  assumes pkt: "received_on S fd pkt" "packet_type_of_id (packetId pkt) = Some FileDownloadRequest"
  shows "discreet env tbl sch S (discreet_answer env S fd) (download_steps env io pkt)"
proof -
  let ?t = "fdq_token (unpacked unpack_FileDownload \<lparr>fdq_token = [], fdq_id = []\<rparr> env pkt)"
  have user: "discreet env tbl sch S (presented env S fd ?t) (um_get (\<lambda>s. getUserIdByToken s ?t))"
    by (rule presented_vouched [OF pkt(1)]) (simp add: token_in_def pkt(2))
  show ?thesis
    unfolding download_steps_def Let_def
    by (rule vouched_bind [OF user], rule vouched_if, rule vouched_Return, simp add: private_download default_File_def)
      (auto intro!: pools_rules private_download(1) simp: default_File_def dest: private_download(2))
qed

lemma setup_channel_discreet:
  assumes "received_on S fd pkt" and "packet_type_of_id (packetId pkt) = Some SetupChannelRequest"
  shows "discreet env tbl sch S (discreet_answer env S fd) (setup_channel_steps env pkt)"
proof -
  let ?t = "scq_token (unpacked unpack_SetupChannel \<lparr>scq_token = []\<rparr> env pkt)"
  have "discreet env tbl sch S (\<lambda>u. opened_by env S fd ?t u) (um_get (\<lambda>s. getUserIdByToken s ?t))"
    by (rule pools.get_vouched) (use assms in \<open>auto simp: overheard_def witnessed_def opened_by_def identified_def\<close>)
  then show ?thesis
    unfolding setup_channel_steps_def Let_def by (rule vouched_bind) (auto intro!: vouched_Return)
qed

lemma send_message_discreet:
  assumes pkt: "received_on S fd pkt" "packet_type_of_id (packetId pkt) = Some SendMessageRequest"
  shows "discreet env tbl sch S (discreet_answer env S fd) (send_message_steps env io pkt)"
proof -
  let ?r = "unpacked unpack_SendMessage \<lparr>smq_token = [], smq_message = default_RawMessage\<rparr> env pkt"
  have user: "discreet env tbl sch S (presented env S fd (smq_token ?r)) (um_get (\<lambda>s. getUserIdByToken s (smq_token ?r)))"
    by (rule presented_vouched [OF pkt(1)]) (simp add: token_in_def pkt(2))
  have told: "private_reply env S fd (new_packet env ty (SendMessageResponse_body m))"
    "private_reply env S fd (new_packet env ty (SendMessageResponse_body (with_file_id i m)))"
    "sent_to env S (raw_to (smq_message ?r)) m" "sent_to env S (raw_to (smq_message ?r)) (with_file_id i m)"
    if m: "msg_message m = smq_message ?r" and p: "presented env S fd (smq_token ?r) (raw_from (smq_message ?r))" for i m ty
  proof -
    have "received S pkt" using pkt(1) by (auto simp: received_def)
    then have sent: "sent_by env S (smq_token ?r) m"
      unfolding sent_by_def Let_def using pkt(2) m p by (intro exI [of _ pkt]) (simp add: presented_def)
    have same: "raw_to (msg_message (with_file_id i m)) = raw_to (smq_message ?r)"
      "raw_from (msg_message (with_file_id i m)) = raw_from (smq_message ?r)" using m by (simp_all add: with_file_id_def)
    show "private_reply env S fd (new_packet env ty (SendMessageResponse_body m))"
      "private_reply env S fd (new_packet env ty (SendMessageResponse_body (with_file_id i m)))"
      using p m same(2) by (auto intro: private_message)
    show "sent_to env S (raw_to (smq_message ?r)) m" "sent_to env S (raw_to (smq_message ?r)) (with_file_id i m)"
      unfolding sent_to_def using sent same m by auto
  qed
  have store: "discreet env tbl sch S (\<lambda>res. \<forall>m. res = Some m \<longrightarrow> msg_message m = smq_message ?r)
      (createMsgByRawMsg_steps env (smq_message ?r) now)" for now
    unfolding createMsgByRawMsg_steps_def
  proof (rule vouched_bind)
    show "discreet env tbl sch S (\<lambda>x. msg_message x = smq_message ?r)
        (db_get (\<lambda>d. next_message (env_sql env) d (smq_message ?r) now))"
      by (rule pools.query_vouched) (auto dest: next_message_id [OF _ _ refl refl])
  qed (auto simp: createMsg_steps_def bind_assoc split: option.splits intro!: pools_rules)
  show ?thesis
    unfolding send_message_steps_def Let_def with_file_id_def [symmetric]
    by (rule vouched_bind [OF user], rule vouched_if, rule vouched_Return, simp, rule vouched_then [OF pools.quiet_vouched(2)],
        rule vouched_if, rule vouched_Return, simp, rule vouched_bind [OF store])
      (auto intro!: vouched_option vouched_if vouched_Return vouched_then [OF stores_vouched] simp: told)
qed

context linked_server
begin

lemma contact_message_discreet:
  assumes pkt: "received_on S fd pkt" "packet_type_of_id (packetId pkt) = Some ContactMessageRequest"
  shows "discreet env tbl sch S (discreet_answer env S fd) (contact_message_steps env pkt)"
proof -
  let ?r = "unpacked unpack_ContactMessage \<lparr>cmq_token = [], cmq_id = 0, cmq_internalId = 0\<rparr> env pkt"
  have user: "discreet env tbl sch S (presented env S fd (cmq_token ?r)) (um_get (\<lambda>s. getUserIdByToken s (cmq_token ?r)))"
    by (rule presented_vouched [OF pkt(1)]) (simp add: token_in_def pkt(2))
  have found: "discreet env tbl sch S (\<lambda>res. \<forall>m. res = Some m \<longrightarrow> raw_from (msg_message m) = u)
      (db_get (\<lambda>d. getMessage (env_sql env) d u i j))" for u i j
  proof (rule pools.query_vouched)
    fix w res
    assume "overheard env tbl sch S w" and g: "getMessage (env_sql env) (w_db w) u i j = Inr res"
    then have "db_ok tbl sch (w_db w)" by (auto simp: overheard_def witnessed_def intro: world_db_ok)
    from this g show "\<forall>m. res = Some m \<longrightarrow> raw_from (msg_message m) = u"
      by (rule sql.getMessage_conv) (auto simp: conv_rows_iff row_message_def)
  qed
  show ?thesis
    unfolding contact_message_steps_def Let_def
    by (rule vouched_bind [OF user], rule vouched_bind [OF found])
      (auto intro!: vouched_option vouched_Return private_message split: option.split)
qed

lemma handle_discreet:
  assumes "received_on S fd pkt"
  shows "discreet env tbl sch S (discreet_result env S fd) (handle_steps env io pkt)"
proof -
  have answer: "discreet env tbl sch S (discreet_result env S fd)
      (bind_prog h (\<lambda>r. Return (Some r)))" if "discreet env tbl sch S (discreet_answer env S fd) h" for h
    by (rule vouched_bind [OF that]) (auto intro: vouched_Return)
  show ?thesis
    by (cases "packet_type_of_id (packetId pkt)")
      (auto simp: handle_steps_def Let_def split: PacketType.split
        intro!: answer discreet_plain setup_channel_discreet [OF assms] send_message_discreet [OF assms]
          download_discreet [OF assms] contact_message_discreet [OF assms])
qed

end

subsection \<open>Callbacks\<close>

lemma post_discreet:
  assumes "u \<noteq> 0 \<Longrightarrow> addressed_to env S u p"
  shows "discreet env tbl sch S (\<lambda>_. True) (post_steps u p)"
proof -
  have "discreet env tbl sch S (\<lambda>_. True) (add_send_task u p)" if "u \<noteq> 0"
    unfolding add_send_task_def
    by (rule vouched_atomic)
      (use assms that in \<open>auto simp: overheard_def private_step_def private_pools_def addSendTask_def Push_def
        split: option.splits if_splits\<close>)
  then show ?thesis
    unfolding post_steps_def
    by (intro vouched_bind [OF pools.get_vouched [where Q = "\<lambda>found. found \<longrightarrow> u \<noteq> 0"]])
      (auto simp: getSender_def intro!: vouched_if vouched_any)
qed

lemma callback_discreet:
  assumes "private_callback env S fd cb"
  shows "discreet env tbl sch S (\<lambda>_. True) (callback_steps env io fd cb)"
proof -
  have contacts: "discreet env tbl sch S (\<lambda>_. True) (contact_list_steps env u)" for u
    unfolding contact_list_steps_def by (auto intro!: pools_rules vouched_each)
  have list_to: "u \<noteq> 0 \<Longrightarrow> addressed_to env S u (new_packet env ContactListRequest b)" for u b
    by (auto simp: addressed_to_def)
  have message_to: "u \<noteq> 0 \<Longrightarrow> addressed_to env S u (new_packet env ContactMessageListRequest
      (ContactMessageListRequest_body [m]))" if "sent_to env S u m" for u m
    using that by (auto simp: addressed_to_def)
  have connect: "discreet env tbl sch S (\<lambda>_. True) (set_sender_steps io u fd)" if o: "opened_by env S fd t u" for t u
  proof -
    have "discreet env tbl sch S (\<lambda>_. True) (open_sender_step io u fd)"
      unfolding open_sender_step_def
      by (rule vouched_atomic) (auto simp: overheard_def private_step_def split: prod.splits if_splits
        intro: private_open_sender [OF _ o])
    moreover have "discreet env tbl sch S (\<lambda>_. True) (clear_sender_step u)"
      unfolding clear_sender_step_def
      by (rule vouched_atomic) (auto simp: overheard_def private_step_def split: option.splits
        intro: private_clear_sender)
    ultimately show ?thesis unfolding set_sender_steps_def by (auto intro!: vouched_then vouched_if vouched_any)
  qed
  have wait: "discreet env tbl sch S (\<lambda>_. True) (um_put (setFileMsg i u m))" if "sent_to env S u m" for i u m
    by (rule pools.put_vouched) (use that in \<open>auto simp: overheard_def private_step_def frame_simps
      intro: private_setFileMsg\<close>)
  have found: "discreet env tbl sch S (\<lambda>(u, m). u \<noteq> 0 \<longrightarrow> sent_to env S u m) (um_get (\<lambda>s. getFileMsg s i))" for i
    by (rule pools.get_vouched) (auto simp: overheard_def private_pools_def getFileMsg_def split: option.split)
  have forget: "discreet env tbl sch S (\<lambda>_. True) (um_put (delFileMsg i))" for i
    by (rule pools.put_vouched) (auto simp: overheard_def private_step_def frame_simps
      intro: private_delFileMsg)
  show ?thesis
  proof (cases cb)
    case (SetupChannelCallback u)
    then obtain t where "opened_by env S fd t u" using assms by auto
    note opened = connect [OF this]
    show ?thesis
      unfolding callback_steps_defs SetupChannelCallback callback.case
      by (intro vouched_captured vouched_then [OF opened] vouched_then [OF contacts] vouched_then [OF post_discreet] list_to
          vouched_then [OF pools.quiet_vouched(4)] vouched_any)
  next
    case (FileMsgCallback i u m)
    then show ?thesis using assms wait by (simp add: callback_steps_defs)
  next
    case (ForwardCallback u m)
    then show ?thesis
      using assms by (auto simp: callback_steps_defs intro!: vouched_captured vouched_then [OF pools.quiet_vouched(1)] vouched_if
          vouched_any post_discreet message_to)
  next
    case (FileUploadedCallback i)
    then show ?thesis
      by (auto simp: callback_steps_defs intro!: vouched_bind [OF found] vouched_if vouched_any
          vouched_then [OF forget] post_discreet message_to)
  qed (simp add: callback_steps_defs vouched_any)
qed

lemma reply_discreet:
  assumes "private_callback env S fd cb"
  shows "discreet env tbl sch S (\<lambda>_. True) (reply_steps env io fd reply cb)"
  unfolding reply_steps_def by (auto intro!: pools_rules callback_discreet [OF assms])

subsection \<open>Every run keeps them\<close>

fun worker_discreet :: "('a, 'd) env \<Rightarrow> ('d \<Rightarrow> string \<Rightarrow> sql_row list) \<Rightarrow>
    ('d \<Rightarrow> string \<Rightarrow> column list option) \<Rightarrow> ('a, 'd) threads set \<Rightarrow> ('a, 'd) worker \<Rightarrow> bool" where
  "worker_discreet env tbl sch S (Receiving fd io) = True"
| "worker_discreet env tbl sch S (Handling fd pkt p) = discreet env tbl sch S (discreet_result env S fd) p"
| "worker_discreet env tbl sch S (Answering fd reply cb) \<longleftrightarrow> private_reply env S fd reply \<and> private_callback env S fd cb"
| "worker_discreet env tbl sch S (Replying p) = discreet env tbl sch S (\<lambda>_. True) p"

definition private_threads :: "('a, 'd) env \<Rightarrow> ('d \<Rightarrow> string \<Rightarrow> sql_row list) \<Rightarrow>
    ('d \<Rightarrow> string \<Rightarrow> column list option) \<Rightarrow> ('a, 'd) threads set \<Rightarrow> ('a, 'd) threads \<Rightarrow> bool" where
  "private_threads env tbl sch S s \<longleftrightarrow> private_pools env S (w_server (th_world s)) \<and>
     (\<forall>k \<in> set (th_workers s). worker_discreet env tbl sch S k) \<and>
     (\<forall>u p. th_channels s u = Some p \<longrightarrow> addressed_to env S u p)"

lemma private_set_queue:
  assumes pools: "private_pools env S s" and sdr: "keepalive_sender_mp s u = Some sdr"
    and q: "items (msg_queue sdr) = p # items q"
  shows "private_pools env S (set_queue u q s) \<and> addressed_to env S u p"
proof -
  have "\<exists>t. opened_by env S (sender_fd sdr) t u" "\<forall>x \<in> set (p # items q). addressed_to env S u x"
    using pools sdr unfolding private_pools_def q [symmetric] by blast+
  then show ?thesis using pools sdr by (auto simp: private_pools_def set_queue_def split: if_splits)
qed

context linked_server
begin

lemma thread_step_private:
  assumes step: "thread_step env s s'" and S: "s \<in> S" "s' \<in> S"
    and w: "world_inv (threads_db tbl sch) env tbl (th_world s)" and inv: "private_threads env tbl sch S s"
  shows "private_threads env tbl sch S s'"
proof -
  have now: "overheard env tbl sch S (th_world s)" using inv S(1) w by (auto simp: private_threads_def overheard_def witnessed_def)
  show ?thesis
    using step
  proof cases
    case (receive io w n pkt v ws1 fd ws2 ch)
    have "Handling fd pkt (handle_steps env io pkt) \<in> set (th_workers s')" by (simp add: receive(2))
    then have "received_on S fd pkt" using S unfolding received_on_def by blast
    from handle_discreet [OF this] show ?thesis
      using inv by (simp add: receive(1,2) private_threads_def)
  next
    case (handle w p w' p' ws1 fd pkt ws2 ch)
    have "overheard env tbl sch S w" "discreet env tbl sch S (discreet_result env S fd) p"
      using inv now by (auto simp: handle(1) private_threads_def)
    from vouched_step [OF this(2,1) handle(3)] show ?thesis
      using inv by (simp add: handle(1,2) private_threads_def private_step_def)
  next
    case (answer w ws1 fd pkt reply cb ws2 ch)
    then show ?thesis using inv by (simp add: private_threads_def)
  next
    case (send w ws1 fd reply cb ws2 ch io)
    then show ?thesis using inv by (simp add: private_threads_def reply_discreet)
  next
    case (reply w p w' p' ws1 ws2 ch)
    have "overheard env tbl sch S w" "discreet env tbl sch S (\<lambda>_. True) p"
      using inv now by (auto simp: reply(1) private_threads_def)
    from vouched_step [OF this(2,1) reply(3)] show ?thesis
      using inv by (simp add: reply(1,2) private_threads_def private_step_def)
  next
    case (take_packet ch uid w sdr pkt q ws)
    have q: "items (msg_queue sdr) = pkt # items q" using take_packet(5) by (simp add: WaitAndPop_Some_iff)
    then have "private_pools env S (set_queue uid q (w_server w)) \<and> addressed_to env S uid pkt"
      using inv take_packet(4) by (intro private_set_queue) (simp_all add: take_packet(1) private_threads_def)
    then show ?thesis
      using inv by (simp add: take_packet(1,2) private_threads_def)
  next
    case (deliver_packet ch uid pkt w sdr io v ws)
    then show ?thesis using inv by (simp add: deliver_packet(1,2) private_threads_def)
  next
    case (accept e w s1 v ws ch)
    have "s1 = (w_server w)\<lparr>revc_socket_pool := revc_socket_pool s1\<rparr>" using on_event_Inr [OF accept(3)] by blast
    then have "keepalive_sender_mp s1 = keepalive_sender_mp ((w_server w)\<lparr>revc_socket_pool := revc_socket_pool s1\<rparr>)"
      "file_msg_pool s1 = file_msg_pool ((w_server w)\<lparr>revc_socket_pool := revc_socket_pool s1\<rparr>)"
      by (rule arg_cong)+
    then have same: "keepalive_sender_mp s1 = keepalive_sender_mp (w_server w)" "file_msg_pool s1 = file_msg_pool (w_server w)"
      by simp_all
    have "private_pools env S (w_server w)" using inv by (simp add: accept(1) private_threads_def)
    from private_pools_frame [OF this same] show ?thesis
      using inv by (simp add: accept(1,2) private_threads_def)
  qed (use inv in \<open>auto simp: private_threads_def\<close>)
qed

lemma thread_run_private:
  assumes "thread_run env w0 ss" and start: "ready env tbl sch w0" and "set ss \<subseteq> S"
  shows "private_threads env tbl sch S (hd ss)"
  using assms(1,3)
proof (induction rule: thread_run.induct)
  case begin_run
  have "w_server w0 = empty_Server" using start by (simp add: ready_def)
  then show ?case by (simp add: at_rest_def private_threads_def private_pools_def empty_Server_def)
next
  case (next_step s past s')
  have "(thread_step env)\<^sup>*\<^sup>* (at_rest w0) s" using thread_run_reaches [OF next_step.hyps(1)] by auto
  from threads_reach [OF start this] have "world_inv (threads_db tbl sch) env tbl (th_world s)"
    by (simp add: threads_inv_def)
  then show ?case using next_step thread_step_private [OF next_step.hyps(2)] by simp
qed

end

subsection \<open>An example: register, log in, open the channel\<close>

lemma enc_field_length [simp]: "length (enc_field s) = 2 * length s + 1"
  by (induction s) (simp_all add: enc_field_def)

definition bob_login :: "string \<Rightarrow> string Packet" where
  "bob_login answer = new_packet ref_env LoginRequest
     (LoginRequest_body \<lparr>lq_username = ''bob'', lq_hashPassword = answer\<rparr>)"

definition bob_channel :: "string Packet" where
  "bob_channel = new_packet ref_env SetupChannelRequest (SetupChannelRequest_body \<lparr>scq_token = ''u1''\<rparr>)"

abbreviation ack :: "string Packet" where
  "ack \<equiv> new_packet ref_env ServerAckResponse ServerAckResponse_body"

lemma bob_lengths:
  "length answer = 64 \<Longrightarrow> length (SerializeToArray plain_wire (bob_login answer)) < kMaxMessageSize"
  "length (SerializeToArray plain_wire bob_channel) < kMaxMessageSize"
  "length (SerializeToArray plain_wire ack) < 100"
  by (simp_all add: bob_login_def bob_channel_def plain_wire_def plain_serialize_def text_codec_def text_pack_def
      enc_fields_def enc_int_def kMaxMessageSize_def)

lemma bob_login_handled:
  assumes ok: "db_ok ref_tbl ref_sch (w_db w)" and acc: "accounts_of ref_tbl (w_db w) ''bob'' = Some (make_User 1 ''bob'' h)"
    and w: "w_server w = empty_Server" and a: "SHA256 plain_crypto (c_str h) = Inr answer"
  shows "handle_packet ref_env (packet_io (bob_login answer)) (bob_login answer) w =
    Inr (Some (new_packet ref_env LoginResponse (LoginResponse_body True 1 ''u1''), NoCallback,
      w\<lparr>w_server := delChallengeMp 1 (setUserIdByToken ''u1'' 1 empty_Server)\<rparr>))"
proof -
  have t: "packet_type_of_id (packetId (bob_login answer)) = Some LoginRequest"
    by (simp add: bob_login_def packet_type_of_id_iff)
  obtain res where g: "getUser_name ref_engine (w_db w) ''bob'' = Inr res"
    using calm_ref.queries_total(1) [OF ok] by auto
  have res: "res = Some (make_User 1 ''bob'' h)"
    using sqlite_laws.getUser_name_accounts [OF refsql.sqlite_laws_axioms ok g] acc by (simp add: c_str_def)
  have u: "getUUID (io_uuid (packet_io p)) = ''u1''" for p by (simp add: packet_io_sel getUUID_def c_str_def)
  show ?thesis
    using g a w unfolding handle_packet_def t res
    by (simp add: on_LoginRequest_def bob_login_def ref_server.any.login [simplified] Let_def make_User_def
        getChallengeMp_def empty_Server_def u)
qed

lemma bob_channel_handled:
  assumes "getUserIdByToken (w_server w) ''u1'' = 1"
  shows "handle_packet ref_env (packet_io bob_channel) bob_channel w = Inr (Some (ack, SetupChannelCallback 1, w))"
proof -
  have t: "packet_type_of_id (packetId bob_channel) = Some SetupChannelRequest"
    by (simp add: bob_channel_def packet_type_of_id_iff)
  show ?thesis
    using assms unfolding handle_packet_def t
    by (simp add: on_SetupChannelRequest_def bob_channel_def ref_server.any.setup_channel [simplified])
qed

lemma ack_answered:
  assumes ok: "db_ok ref_tbl ref_sch (w_db w)"
  shows "\<exists>w' sdr p. send_reply ref_env (packet_io bob_channel) fd ack (SetupChannelCallback 1) w = Inr w' \<and>
    keepalive_sender_mp (w_server w') 1 = Some sdr \<and> p \<in> set (items (msg_queue sdr))"
proof -
  have "\<exists>rest. SendMesg plain_wire ack (io_send (packet_io bob_channel)) =
      Inr (int (length (SerializeToArray plain_wire ack)), SerializeToArray plain_wire ack, rest)"
    using bob_lengths(3) by (intro SendMesg_ok) (simp_all add: packet_io_sel kMaxMessageSize_def)
  then obtain n v where sent: "Van_Send plain_wire ack fd (io_send (packet_io bob_channel)) (w_van w) = Inr (n, v)" "0 \<le> n"
    by (auto simp: Van_Send_def Let_def)
  obtain b where b: "contact_list ref_env (w_db w) 1 = Inr b" using calm_ref.contact_list_total [OF ok] by blast
  obtain sdr where "keepalive_sender_mp (setKpAliveSender 1 fd (w_server w)) 1 = Some sdr"
    using setKpAliveSender_eq [of 1 fd "w_server w"] by auto
  then show ?thesis
    using sent b by (auto simp: send_reply_def run_callback_defs read_captured_def start_sender_def Let_def Control_def controlEpollDel_def packet_io_sel
        post_to_def getSender_def addSendTask_def Push_def)
qed

lemma bob_logs_in:
  "\<exists>h w k1 k2. bobs h (w_db w) \<and> getUserIdByToken (w_server w) ''u1'' = 1 \<and> items (RecvSocketQueue (w_van w)) = fds \<and>
     (thread_step ref_env)\<^sup>*\<^sup>* (at_rest (sockets_world (5 # 6 # fds)))
       \<lparr>th_world = w, th_workers = [k1, k2], th_channels = (\<lambda>_. None)\<rparr>"
proof -
  let ?run = "(thread_step ref_env)\<^sup>*\<^sup>*" and ?w0 = "sockets_world (5 # 6 # fds)"
  obtain db h v1 k1 where b: "bobs h db" and v1: "items (RecvSocketQueue v1) = 6 # fds" and run1: "?run (at_rest ?w0)
      \<lparr>th_world = ?w0\<lparr>w_db := db, w_van := v1\<rparr>, th_workers = [k1], th_channels = (\<lambda>_. None)\<rparr>"
    using bob_registers [of "6 # fds" 5] by (elim exE conjE) (rule that)
  obtain answer where a: "SHA256 plain_crypto (c_str h) = Inr answer" using ref_server.SHA256_inv [of "c_str h"] by auto
  then have "length answer = 64" using plain_cl.SHA256_format by blast
  note small = bob_lengths(1) [OF this]
  let ?w1 = "?w0\<lparr>w_db := db, w_van := v1\<rparr>" and ?r = "new_packet ref_env LoginResponse (LoginResponse_body True 1 ''u1'')"
  let ?w2 = "?w1\<lparr>w_server := delChallengeMp 1 (setUserIdByToken ''u1'' 1 empty_Server)\<rparr>"
  have "\<exists>v. items (RecvSocketQueue v) = fds \<and> ?run \<lparr>th_world = ?w1, th_workers = [k1], th_channels = (\<lambda>_. None)\<rparr>
      \<lparr>th_world = ?w2\<lparr>w_van := v\<rparr>, th_workers = [k1] @ [Answering 6 ?r NoCallback], th_channels = (\<lambda>_. None)\<rparr>"
  proof (rule request_runs)
    show "handle_packet ref_env (packet_io (bob_login answer)) (bob_login answer) (?w1\<lparr>w_van := v\<rparr>) =
        Inr (Some (?r, NoCallback, ?w2\<lparr>w_van := v\<rparr>))" for v
      using bob_login_handled [of "?w1\<lparr>w_van := v\<rparr>" h answer] b a by (simp add: bobs_def store_inv_def)
  qed (use small v1 in \<open>simp_all add: revc_socket_pool_thread_num_def bob_login_def status_length(2)\<close>)
  then obtain v2 where v2: "items (RecvSocketQueue v2) = fds" and run2: "?run \<lparr>th_world = ?w1, th_workers = [k1],
      th_channels = (\<lambda>_. None)\<rparr> \<lparr>th_world = ?w2\<lparr>w_van := v2\<rparr>, th_workers = [k1, Answering 6 ?r NoCallback],
      th_channels = (\<lambda>_. None)\<rparr>"
    by (elim exE conjE) (rule that, assumption, simp)
  have "bobs h (w_db (?w2\<lparr>w_van := v2\<rparr>))" "getUserIdByToken (w_server (?w2\<lparr>w_van := v2\<rparr>)) ''u1'' = 1"
    "items (RecvSocketQueue (w_van (?w2\<lparr>w_van := v2\<rparr>))) = fds"
    using b v2 by (simp_all add: getUserIdByToken_def frame_simps setUserIdByToken_def)
  with rtranclp_trans [OF run1 run2] show ?thesis by (intro exI conjI)
qed

lemma bob_channel_opens:
  "\<exists>s sdr p. (thread_step ref_env)\<^sup>*\<^sup>* (at_rest (sockets_world [5, 6, 7])) s \<and>
     keepalive_sender_mp (w_server (th_world s)) 1 = Some sdr \<and> p \<in> set (items (msg_queue sdr))"
proof -
  let ?run = "(thread_step ref_env)\<^sup>*\<^sup>*"
  obtain h w k1 k2 where w: "bobs h (w_db w)" "getUserIdByToken (w_server w) ''u1'' = 1"
    "items (RecvSocketQueue (w_van w)) = [7]"
    and run: "?run (at_rest (sockets_world [5, 6, 7])) \<lparr>th_world = w, th_workers = [k1, k2], th_channels = (\<lambda>_. None)\<rparr>"
    using bob_logs_in [of "[7]"] by (elim exE conjE) (rule that)
  have "\<exists>v. items (RecvSocketQueue v) = [] \<and> ?run \<lparr>th_world = w, th_workers = [k1, k2], th_channels = (\<lambda>_. None)\<rparr>
      \<lparr>th_world = w\<lparr>w_van := v\<rparr>, th_workers = [k1, k2] @ [Answering 7 ack (SetupChannelCallback 1)],
       th_channels = (\<lambda>_. None)\<rparr>"
  proof (rule request_runs)
    show "handle_packet ref_env (packet_io bob_channel) bob_channel (w\<lparr>w_van := v\<rparr>) =
        Inr (Some (ack, SetupChannelCallback 1, w\<lparr>w_van := v\<rparr>))" for v
      using bob_channel_handled [of "w\<lparr>w_van := v\<rparr>"] w(2) by simp
  qed (use bob_lengths(2) w in \<open>simp_all add: revc_socket_pool_thread_num_def bob_channel_def status_length(2)\<close>)
  then obtain v where run1: "?run \<lparr>th_world = w, th_workers = [k1, k2], th_channels = (\<lambda>_. None)\<rparr>
      \<lparr>th_world = w\<lparr>w_van := v\<rparr>, th_workers = [k1, k2] @ Answering 7 ack (SetupChannelCallback 1) # [],
       th_channels = (\<lambda>_. None)\<rparr>" by blast
  have "db_ok ref_tbl ref_sch (w_db (w\<lparr>w_van := v\<rparr>))" using w by (simp add: bobs_def store_inv_def)
  from ack_answered [OF this, of 7] obtain w' sdr p
    where r: "send_reply ref_env (packet_io bob_channel) 7 ack (SetupChannelCallback 1) (w\<lparr>w_van := v\<rparr>) = Inr w'"
      and p: "keepalive_sender_mp (w_server w') 1 = Some sdr" "p \<in> set (items (msg_queue sdr))"
    by (elim exE conjE) (rule that)
  from rtranclp_trans [OF run rtranclp_trans [OF run1 send_reply_runs [OF r]]]
  have "?run (at_rest (sockets_world [5, 6, 7])) \<lparr>th_world = w', th_workers = [k1, k2] @ [], th_channels = (\<lambda>_. None)\<rparr>" .
  then show ?thesis by (intro exI conjI, assumption) (use p in simp_all)
qed

text \<open>And one in which bob, logged in, greets himself.\<close>

definition bob_hello :: "string Packet" where
  "bob_hello = new_packet ref_env SendMessageRequest (SendMessageRequest_body \<lparr>smq_token = ''u1'', smq_message = hello\<rparr>)"

lemma bob_hello_sent:
  "\<exists>s m cb. (thread_step ref_env)\<^sup>*\<^sup>* (at_rest (sockets_world [5, 6, 7])) s \<and>
     Answering 7 (new_packet ref_env SendMessageResponse (SendMessageResponse_body m)) cb \<in> set (th_workers s) \<and>
     msg_message m = hello"
proof -
  let ?run = "(thread_step ref_env)\<^sup>*\<^sup>*"
  obtain h w k1 k2 where b: "bobs h (w_db w)" and w: "getUserIdByToken (w_server w) ''u1'' = 1"
    "items (RecvSocketQueue (w_van w)) = [7]"
    and run: "?run (at_rest (sockets_world [5, 6, 7])) \<lparr>th_world = w, th_workers = [k1, k2], th_channels = (\<lambda>_. None)\<rparr>"
    using bob_logs_in [of "[7]"] by (elim exE conjE) (rule that)
  obtain u where u: "getUser_id ref_engine (w_db w) 1 = Inr (Some u)" using b by (auto simp: bobs_def)
  have inv: "store_inv ref_tbl ref_sch (w_db w)" and room: "\<And>a b. conv_of ref_tbl (w_db w) a b = []"
    using b by (auto simp: bobs_def)
  obtain r d where c: "createMsgByRawMsg ref_engine (w_db w) hello 100 = Inr (r, d)"
    using calm_ref.createMsgByRawMsg_total [OF inv, of hello 100] room by auto
  have h: "raw_from hello = 1" "raw_to hello = 1" "raw_type hello \<noteq> IMAGE" "raw_type hello \<noteq> FILE" by (simp_all add: hello_def)
  from c obtain x where x: "next_message ref_engine (w_db w) hello 100 = Inr x" "store_message ref_engine (w_db w) x = Inr (r, d)"
    by (auto simp: createMsg_phases)
  have "db_ok ref_tbl ref_sch (w_db w)" using inv by (simp add: store_inv_def)
  from sqlite_laws.store_message_appends [OF refsql.sqlite_laws_axioms this x(2)]
  obtain m where m: "r = Some m" "msg_message m = hello" using next_message_id [OF x(1) x(1) refl refl] by auto
  have t: "packet_type_of_id (packetId bob_hello) = Some SendMessageRequest"
    by (simp add: bob_hello_def packet_type_of_id_iff)
  have now: "io_now (packet_io bob_hello) = 100" by (simp add: packet_io_def example_io_now_def)
  let ?reply = "new_packet ref_env SendMessageResponse (SendMessageResponse_body m)"
  have "\<exists>v. items (RecvSocketQueue v) = [] \<and> ?run \<lparr>th_world = w, th_workers = [k1, k2], th_channels = (\<lambda>_. None)\<rparr>
      \<lparr>th_world = (w\<lparr>w_db := d\<rparr>)\<lparr>w_van := v\<rparr>, th_workers = [k1, k2] @ [Answering 7 ?reply (ForwardCallback 1 m)],
       th_channels = (\<lambda>_. None)\<rparr>"
  proof (rule request_runs)
    show "handle_packet ref_env (packet_io bob_hello) bob_hello (w\<lparr>w_van := v\<rparr>) =
        Inr (Some (?reply, ForwardCallback 1 m, w\<lparr>w_db := d\<rparr>\<lparr>w_van := v\<rparr>))" for v
      using u c m w(1) h now unfolding handle_packet_def t
      by (simp add: on_SendMessageRequest_def bob_hello_def ref_server.any.send_message [simplified] Let_def)
    show "length (SerializeToArray plain_wire bob_hello) < kMaxMessageSize"
      by (simp add: bob_hello_def plain_wire_def plain_serialize_def text_codec_def text_pack_def
          enc_fields_def kMaxMessageSize_def hello_def)
  qed (use w in \<open>simp_all add: revc_socket_pool_thread_num_def bob_hello_def status_length(2)\<close>)
  then obtain v where run1: "?run \<lparr>th_world = w, th_workers = [k1, k2], th_channels = (\<lambda>_. None)\<rparr>
      \<lparr>th_world = (w\<lparr>w_db := d\<rparr>)\<lparr>w_van := v\<rparr>, th_workers = [k1, k2] @ [Answering 7 ?reply (ForwardCallback 1 m)],
       th_channels = (\<lambda>_. None)\<rparr>" by blast
  show ?thesis
    by (rule exI, rule exI [of _ m], rule exI [of _ "ForwardCallback 1 m"], intro conjI,
        rule rtranclp_trans [OF run run1]) (use m(2) in simp_all)
qed

subsection \<open>Property\<close>

text \<open>
  C6: Whatever steps of the threads are interleaved: a packet that waits on the channel of a user, or that
  its thread has taken to deliver it, is a contact list or a message whose receiver is this user and
  that was received from a client whose token identified the sender. The descriptor it will be sent on
  is one on which, at some time of the run, a request to open the channel was received with a token
  that was made for a login of this user. (It is the number that is the same: the connection may have
  been closed since, and the number given to another one, see \<open>reused_descriptor_receives\<close>.)
\<close>

theorem threads_private:
  assumes laws: "linked_server env tbl sch" and start: "ready env tbl sch w0"
    and run: "thread_run env w0 (s # past)" and S: "S = set (s # past)"
    and sdr: "keepalive_sender_mp (w_server (th_world s)) u = Some sdr"
    and p: "p \<in> set (items (msg_queue sdr)) \<or> th_channels s u = Some p"
  shows "((\<exists>b. p = new_packet env ContactListRequest b) \<or>
      (\<exists>m. p = new_packet env ContactMessageListRequest (ContactMessageListRequest_body [m]) \<and> sent_to env S u m)) \<and>
    (\<exists>t. opened_by env S (sender_fd sdr) t u \<and> logged_in_by env tbl S t u)"
proof
  from linked_server.thread_run_private [OF laws run start subset_refl]
  have inv: "private_threads env tbl sch S s" by (simp add: S)
  then have a: "addressed_to env S u p" using p sdr unfolding private_threads_def private_pools_def by blast
  then show "(\<exists>b. p = new_packet env ContactListRequest b) \<or>
      (\<exists>m. p = new_packet env ContactMessageListRequest (ContactMessageListRequest_body [m]) \<and> sent_to env S u m)"
    by (simp add: addressed_to_def)
  obtain t where t: "opened_by env S (sender_fd sdr) t u"
    using inv sdr unfolding private_threads_def private_pools_def by blast
  then have "identified (set (s # past)) t u" by (simp add: opened_by_def S)
  from linked_server.identified_logged_in [OF laws run start this] have "logged_in_by env tbl S t u"
    using a by (simp add: addressed_to_def S)
  with t show "\<exists>t. opened_by env S (sender_fd sdr) t u \<and> logged_in_by env tbl S t u" by blast
qed

theorem threads_private_witness:
  "\<exists>s past sdr p t. thread_run ref_env (sockets_world [5, 6, 7]) (s # past) \<and>
     keepalive_sender_mp (w_server (th_world s)) 1 = Some sdr \<and> p \<in> set (items (msg_queue sdr)) \<and>
     opened_by ref_env (set (s # past)) (sender_fd sdr) t 1 \<and> logged_in_by ref_env ref_tbl (set (s # past)) t 1"
proof -
  obtain s sdr p where s: "(thread_step ref_env)\<^sup>*\<^sup>* (at_rest (sockets_world [5, 6, 7])) s"
    and p: "keepalive_sender_mp (w_server (th_world s)) 1 = Some sdr" "p \<in> set (items (msg_queue sdr))"
    using bob_channel_opens by blast
  obtain past where past: "thread_run ref_env (sockets_world [5, 6, 7]) (s # past)" using reaches_thread_run [OF s] by blast
  from threads_private [OF ref_server.linked_server_axioms ready_sockets past refl p(1), of p] p(2)
  have "\<exists>t. opened_by ref_env (set (s # past)) (sender_fd sdr) t 1 \<and> logged_in_by ref_env ref_tbl (set (s # past)) t 1"
    by blast
  then show ?thesis using past p by blast
qed

text \<open>
  C7: Whatever steps of the threads are interleaved: a reply that a worker is about to send on a socket
  contains a message only when a client has presented a token of its sender on that socket (the
  message of a failed request, which is empty, apart), and the content of a file only when a client
  has presented a token of some user there. Tokens of users were made for logins.
\<close>

theorem threads_reply_private:
  assumes laws: "linked_server env tbl sch" and start: "ready env tbl sch w0"
    and run: "thread_run env w0 (s # past)" and S: "S = set (s # past)"
    and k: "Answering fd reply cb \<in> set (th_workers s)"
  shows "\<exists>ty b. reply = new_packet env ty b \<and>
    (\<forall>m. b = SendMessageResponse_body m \<or> b = ContactMessageResponse_body m \<longrightarrow> m = failed_message \<or>
      (\<exists>t. presented env S fd t (raw_from (msg_message m)) \<and>
        (raw_from (msg_message m) = 0 \<or> logged_in_by env tbl S t (raw_from (msg_message m))))) \<and>
    (\<forall>fl h. b = FileDownloadResponse_body fl h \<longrightarrow> file_content fl = [] \<or>
      (\<exists>t u. presented env S fd t u \<and> logged_in_by env tbl S t u)) \<and>
    (\<forall>cs ids ms. b \<noteq> ContactListRequest_body cs ids \<and> b \<noteq> ContactMessageListRequest_body ms)"
proof -
  have who: "u = 0 \<or> logged_in_by env tbl S t u" if "presented env S fd t u" for t u
    using linked_server.identified_logged_in [OF laws run start] that by (simp add: presented_def S)
  have "private_threads env tbl sch S s"
    using linked_server.thread_run_private [OF laws run start subset_refl] by (simp add: S)
  then have "worker_discreet env tbl sch S (Answering fd reply cb)" using k unfolding private_threads_def by blast
  then obtain ty b where b: "reply = new_packet env ty b" "private_body env S fd b" by (auto simp: private_reply_def)
  then have msg: "m = failed_message \<or> (\<exists>t. presented env S fd t (raw_from (msg_message m)))"
    if "b = SendMessageResponse_body m \<or> b = ContactMessageResponse_body m" for m
    using that by (auto simp: private_body_def)
  have content: "file_content fl = [] \<or> (\<exists>t u. presented env S fd t u \<and> u \<noteq> 0)"
    if "b = FileDownloadResponse_body fl h" for fl h
    using b(2) that by (simp add: private_body_def)
  show ?thesis
  proof (intro exI conjI, rule b(1))
    show "\<forall>m. b = SendMessageResponse_body m \<or> b = ContactMessageResponse_body m \<longrightarrow> m = failed_message \<or>
        (\<exists>t. presented env S fd t (raw_from (msg_message m)) \<and>
          (raw_from (msg_message m) = 0 \<or> logged_in_by env tbl S t (raw_from (msg_message m))))"
      using msg who by blast
    show "\<forall>fl h. b = FileDownloadResponse_body fl h \<longrightarrow> file_content fl = [] \<or>
        (\<exists>t u. presented env S fd t u \<and> logged_in_by env tbl S t u)"
      using content who by blast
    show "\<forall>cs ids ms. b \<noteq> ContactListRequest_body cs ids \<and> b \<noteq> ContactMessageListRequest_body ms"
      using b(2) by (auto simp: private_body_def)
  qed
qed

theorem threads_reply_private_witness:
  "\<exists>s past m cb t. thread_run ref_env (sockets_world [5, 6, 7]) (s # past) \<and> raw_from (msg_message m) = 1 \<and>
     Answering 7 (new_packet ref_env SendMessageResponse (SendMessageResponse_body m)) cb \<in> set (th_workers s) \<and>
     presented ref_env (set (s # past)) 7 t 1 \<and> logged_in_by ref_env ref_tbl (set (s # past)) t 1"
proof -
  obtain s m cb where s: "(thread_step ref_env)\<^sup>*\<^sup>* (at_rest (sockets_world [5, 6, 7])) s"
    and k: "Answering 7 (new_packet ref_env SendMessageResponse (SendMessageResponse_body m)) cb \<in> set (th_workers s)"
    and m: "msg_message m = hello" using bob_hello_sent by (elim exE conjE) (rule that)
  obtain past where past: "thread_run ref_env (sockets_world [5, 6, 7]) (s # past)" using reaches_thread_run [OF s] by blast
  have from_bob: "raw_from (msg_message m) = 1" and "m \<noteq> failed_message"
    using m by (auto simp: hello_def failed_message_def default_Message_def default_RawMessage_def)
  then have "\<exists>t. presented ref_env (set (s # past)) 7 t 1 \<and> logged_in_by ref_env ref_tbl (set (s # past)) t 1"
    using threads_reply_private [OF ref_server.linked_server_axioms ready_sockets past refl k]
    by (auto simp: ref_server.new_packet_inj)
  with past k from_bob show ?thesis by blast
qed

end
