(* ===== verification/Thread_Channels.thy ===== *)
theory Thread_Channels
  imports Thread_Privacy
begin

text \<open>
  The channels under every interleaving: the calls that the threads make on the queue of a user and on
  the user's socket are written down as they are made, and replayed on a first-in-first-out queue.
\<close>

subsection \<open>The calls on a channel\<close>

text \<open>
  \<open>Posted\<close>: a worker calls \<open>addSendTask\<close>; \<open>Cleared\<close>: the given worker calls \<open>Clear\<close>; \<open>Taken\<close>: the thread of the
  channel gets the packet from \<open>WaitAndPop\<close>; \<open>Delivered\<close>: it sends it on the socket of the sender, and these
  are the calls that this makes on the socket.
\<close>

datatype ('a, 'd) event =
    Posted int32 "'a Packet"
  | Cleared int32 "('a, 'd) worker"
  | Taken int32 "'a Packet"
  | Delivered int32 "'a Packet" int32 "os_call list"

text \<open>The call with which the program of a worker goes on, as it stands in the program.\<close>

inductive next_call :: "('a, 'd) worker \<Rightarrow> ('a, 'd, 'r) server_prog \<Rightarrow> ('a, 'd) event list \<Rightarrow> bool" for k where
  call_post: "next_call k (bind_prog (add_send_task u p) g) [Posted u p]"
| call_clear: "next_call k (bind_prog (clear_sender_step u) g) [Cleared u k]"
| call_other: "(\<And>u p g. c \<noteq> bind_prog (add_send_task u p) g) \<Longrightarrow> (\<And>u g. c \<noteq> bind_prog (clear_sender_step u) g) \<Longrightarrow>
    next_call k c []"

text \<open>The steps of the threads, with the calls they make.\<close>

inductive traced_step :: "('a, 'd) env \<Rightarrow> ('a, 'd) threads \<Rightarrow> ('a, 'd) event list \<Rightarrow> ('a, 'd) threads \<Rightarrow> bool" for env where
  t_take_socket: "length ws < revc_socket_pool_thread_num \<Longrightarrow>
    WaitAndPop (RecvSocketQueue (w_van w)) = Some (fd, q) \<Longrightarrow>
    traced_step env \<lparr>th_world = w, th_workers = ws, th_channels = ch\<rparr> []
      \<lparr>th_world = w\<lparr>w_van := (w_van w)\<lparr>RecvSocketQueue := q\<rparr>\<rparr>,
       th_workers = ws @ [Receiving fd io], th_channels = ch\<rparr>"
| t_receive: "Van_Recv (env_wire env) (io_recv io) (w_van w) = Inr (n, Some pkt, v) \<Longrightarrow> 0 < n \<Longrightarrow>
    traced_step env \<lparr>th_world = w, th_workers = ws1 @ Receiving fd io # ws2, th_channels = ch\<rparr> []
      \<lparr>th_world = w\<lparr>w_van := v\<rparr>, th_workers = ws1 @ Handling fd pkt (handle_steps env io pkt) # ws2,
       th_channels = ch\<rparr>"
| t_ignore: "Van_Recv (env_wire env) (io_recv io) (w_van w) = Inr (n, r, v) \<Longrightarrow> r = None \<or> n \<le> 0 \<Longrightarrow>
    traced_step env \<lparr>th_world = w, th_workers = ws1 @ Receiving fd io # ws2, th_channels = ch\<rparr> []
      \<lparr>th_world = w\<lparr>w_van := v\<rparr>, th_workers = ws1 @ ws2, th_channels = ch\<rparr>"
| t_handle: "prog_step (w, p) (w', p') \<Longrightarrow> next_call (Handling fd pkt p) p evs \<Longrightarrow>
    traced_step env \<lparr>th_world = w, th_workers = ws1 @ Handling fd pkt p # ws2, th_channels = ch\<rparr> evs
      \<lparr>th_world = w', th_workers = ws1 @ Handling fd pkt p' # ws2, th_channels = ch\<rparr>"
| t_no_answer:
    "traced_step env \<lparr>th_world = w, th_workers = ws1 @ Handling fd pkt (Return None) # ws2, th_channels = ch\<rparr> []
      \<lparr>th_world = w, th_workers = ws1 @ ws2, th_channels = ch\<rparr>"
| t_answer:
    "traced_step env \<lparr>th_world = w, th_workers = ws1 @ Handling fd pkt (Return (Some (reply, cb))) # ws2,
       th_channels = ch\<rparr> []
      \<lparr>th_world = w, th_workers = ws1 @ Answering fd reply cb # ws2, th_channels = ch\<rparr>"
| t_send:
    "traced_step env \<lparr>th_world = w, th_workers = ws1 @ Answering fd reply cb # ws2, th_channels = ch\<rparr> []
      \<lparr>th_world = w, th_workers = ws1 @ Replying (reply_steps env io fd reply cb) # ws2, th_channels = ch\<rparr>"
| t_reply: "prog_step (w, p) (w', p') \<Longrightarrow> next_call (Replying p) p evs \<Longrightarrow>
    traced_step env \<lparr>th_world = w, th_workers = ws1 @ Replying p # ws2, th_channels = ch\<rparr> evs
      \<lparr>th_world = w', th_workers = ws1 @ Replying p' # ws2, th_channels = ch\<rparr>"
| t_replied:
    "traced_step env \<lparr>th_world = w, th_workers = ws1 @ Replying (Return ()) # ws2, th_channels = ch\<rparr> []
      \<lparr>th_world = w, th_workers = ws1 @ ws2, th_channels = ch\<rparr>"
| t_take_packet: "ch uid = None \<Longrightarrow> keepalive_sender_mp (w_server w) uid = Some sdr \<Longrightarrow>
    WaitAndPop (msg_queue sdr) = Some (pkt, q) \<Longrightarrow>
    traced_step env \<lparr>th_world = w, th_workers = ws, th_channels = ch\<rparr> [Taken uid pkt]
      \<lparr>th_world = w\<lparr>w_server := set_queue uid q (w_server w)\<rparr>, th_workers = ws,
       th_channels = ch(uid \<mapsto> pkt)\<rparr>"
| t_deliver_packet: "ch uid = Some pkt \<Longrightarrow> keepalive_sender_mp (w_server w) uid = Some sdr \<Longrightarrow>
    deliver env io pkt (sender_fd sdr) (w_van w) = Inr v \<Longrightarrow>
    calls = drop (length (van_calls (w_van w))) (van_calls v) \<Longrightarrow>
    traced_step env \<lparr>th_world = w, th_workers = ws, th_channels = ch\<rparr> [Delivered uid pkt (sender_fd sdr) calls]
      \<lparr>th_world = w\<lparr>w_van := v\<rparr>, th_workers = ws, th_channels = ch(uid := None)\<rparr>"
| t_accept: "on_event e (Some (w_server w), w_van w) = Inr (Some s, v) \<Longrightarrow>
    traced_step env \<lparr>th_world = w, th_workers = ws, th_channels = ch\<rparr> []
      \<lparr>th_world = w\<lparr>w_server := s, w_van := v\<rparr>, th_workers = ws, th_channels = ch\<rparr>"

inductive traced_run :: "('a, 'd) env \<Rightarrow> ('a, 'd) world \<Rightarrow> ('a, 'd) event list \<Rightarrow> ('a, 'd) threads \<Rightarrow> bool"
  for env w0 where
  begin_trace: "traced_run env w0 [] (at_rest w0)"
| next_traced: "traced_run env w0 log s \<Longrightarrow> traced_step env s evs s' \<Longrightarrow> traced_run env w0 (log @ evs) s'"

text \<open>Writing the calls down adds no run and loses none.\<close>

lemma next_call_exists: "\<exists>evs. next_call k c evs"
proof -
  consider u p g where "c = bind_prog (add_send_task u p) g" | u g where "c = bind_prog (clear_sender_step u) g"
    | "\<And>u p g. c \<noteq> bind_prog (add_send_task u p) g" "\<And>u g. c \<noteq> bind_prog (clear_sender_step u) g" by blast
  then show ?thesis
  proof cases
    case 3
    then have "next_call k c []" by (rule call_other)
    then show ?thesis by blast
  qed (auto intro: call_post call_clear)
qed

lemma traced_step_iff: "thread_step env s s' \<longleftrightarrow> (\<exists>evs. traced_step env s evs s')"
proof
  assume "thread_step env s s'"
  then show "\<exists>evs. traced_step env s evs s'"
  proof cases
    case (handle w p w' p' ws1 fd pkt ws2 ch)
    then show ?thesis using next_call_exists [of "Handling fd pkt p" p] by (blast intro: t_handle)
  next
    case (reply w p w' p' ws1 ws2 ch)
    then show ?thesis using next_call_exists [of "Replying p" p] by (blast intro: t_reply)
  qed (blast intro: traced_step.intros)+
next
  assume "\<exists>evs. traced_step env s evs s'"
  then show "thread_step env s s'" by (auto elim!: traced_step.cases intro: thread_step.intros)
qed

lemma traced_runs: "(thread_step env)\<^sup>*\<^sup>* (at_rest w0) s \<longleftrightarrow> (\<exists>log. traced_run env w0 log s)"
proof
  assume "(thread_step env)\<^sup>*\<^sup>* (at_rest w0) s"
  then show "\<exists>log. traced_run env w0 log s"
  proof (induction rule: rtranclp_induct)
    case base
    show ?case by (rule exI) (rule begin_trace)
  next
    case (step s s')
    then show ?case unfolding traced_step_iff by (blast intro: next_traced)
  qed
next
  assume "\<exists>log. traced_run env w0 log s"
  then obtain log where "traced_run env w0 log s" by blast
  then show "(thread_step env)\<^sup>*\<^sup>* (at_rest w0) s"
  proof induction
    case (next_traced log s evs s')
    then have "thread_step env s s'" by (auto simp: traced_step_iff)
    with next_traced show ?case by (blast intro: rtranclp_last)
  qed simp
qed

subsection \<open>Which calls a program can make\<close>

text \<open>The queue of a user.\<close>

definition queue_of :: "'a Server \<Rightarrow> int32 \<Rightarrow> 'a Packet list" where
  "queue_of s u = (case keepalive_sender_mp s u of None \<Rightarrow> [] | Some sdr \<Rightarrow> items (msg_queue sdr))"

lemma queue_of_frame: "keepalive_sender_mp s' = keepalive_sender_mp s \<Longrightarrow> queue_of s' = queue_of s"
  by (simp add: queue_of_def fun_eq_iff)

text \<open>What is left of a program after some of its steps.\<close>

inductive remains :: "('s, 'r) prog \<Rightarrow> ('s, 'r) prog \<Rightarrow> bool" for p where
  all_remains: "remains p p"
| step_remains: "remains p (Step f) \<Longrightarrow> f s = Inr (s', q) \<Longrightarrow> remains p q"

lemma remains_step: "remains p q \<Longrightarrow> prog_step (s, q) (s', q') \<Longrightarrow> remains p q'"
  by (erule prog_step.cases) (auto intro: step_remains)

text \<open>Every step posts a packet, clears the queue of a user in \<open>C\<close>, or leaves all queues as they are.\<close>

abbreviation queues :: "('a, 'd) world \<Rightarrow> int32 \<Rightarrow> 'a Packet list" where
  "queues w \<equiv> queue_of (w_server w)"

inductive tidy :: "int32 set \<Rightarrow> ('a, 'd, 'r) server_prog \<Rightarrow> bool" for C where
  tidy_Return: "tidy C (Return r)"
| tidy_keep: "(\<And>w w' q. f w = Inr (w', q) \<Longrightarrow> queues w' = queues w \<and> tidy C q) \<Longrightarrow> tidy C (Step f)"
| tidy_post: "(\<And>x. tidy C (g x)) \<Longrightarrow> tidy C (bind_prog (add_send_task u p) g)"
| tidy_clear: "u \<in> C \<Longrightarrow> (\<And>x. tidy C (g x)) \<Longrightarrow> tidy C (bind_prog (clear_sender_step u) g)"

lemma bind_post:
  "bind_prog (add_send_task u p) g = Step (\<lambda>w. case keepalive_sender_mp (w_server w) u of
       None \<Rightarrow> Inl (UndefinedBehaviour ''dangling sender'')
     | Some sdr \<Rightarrow> Inr (w\<lparr>w_server := (w_server w)\<lparr>keepalive_sender_mp :=
           (keepalive_sender_mp (w_server w))(u \<mapsto> addSendTask p sdr)\<rparr>\<rparr>, g ()))"
  unfolding add_send_task_def bind_atomic by (rule arg_cong [of _ _ Step], rule ext) (simp split: option.split)

lemma bind_clear:
  "bind_prog (clear_sender_step u) g = Step (\<lambda>w. case keepalive_sender_mp (w_server w) u of
       None \<Rightarrow> Inl (UndefinedBehaviour ''dangling sender'')
     | Some sdr \<Rightarrow> Inr (w\<lparr>w_server := (w_server w)\<lparr>keepalive_sender_mp :=
           (keepalive_sender_mp (w_server w))(u \<mapsto> sender_Clear sdr)\<rparr>\<rparr>, g ()))"
  unfolding clear_sender_step_def bind_atomic by (rule arg_cong [of _ _ Step], rule ext) (simp split: option.split)

lemma post_step:
  assumes "prog_step (w, bind_prog (add_send_task u p) g) (w', q)"
  shows "q = g () \<and> queues w' = (queues w)(u := queues w u @ [p])"
  using assms unfolding bind_post prog_step_Step
  by (auto simp: queue_of_def addSendTask_def Push_def fun_eq_iff split: option.splits)

lemma clear_step:
  assumes "prog_step (w, bind_prog (clear_sender_step u) g) (w', q)"
  shows "q = g () \<and> queues w' = (queues w)(u := [])"
  using assms unfolding bind_clear prog_step_Step
  by (auto simp: queue_of_def sender_Clear_def fun_eq_iff split: option.splits)

text \<open>A program that clears a queue has to be allowed to: the call is neither one that posts nor a quiet one.\<close>

lemma clear_effect:
  fixes g :: "unit \<Rightarrow> ('a, 'd, 'r) server_prog"
  obtains w :: "('a, 'd) world" and w' where "prog_step (w, bind_prog (clear_sender_step u) g) (w', g ())" "queues w u \<noteq> []"
proof -
  fix x :: "'a Packet" and w0 :: "('a, 'd) world"
  let ?w = "w0\<lparr>w_server := (w_server w0)\<lparr>keepalive_sender_mp := [u \<mapsto> addSendTask x (make_sender u 0)]\<rparr>\<rparr>"
  have "\<exists>w'. prog_step (?w, bind_prog (clear_sender_step u) g) (w', g ())"
    unfolding bind_clear prog_step_Step by simp
  moreover have "queues ?w u \<noteq> []" by (simp add: queue_of_def addSendTask_def Push_def)
  ultimately show thesis using that by blast
qed

lemma clear_allowed:
  assumes "tidy C c" and c: "c = bind_prog (clear_sender_step u) g"
  shows "u \<in> C"
proof -
  obtain w w' where step: "prog_step (w, c) (w', g ())" and full: "queues w u \<noteq> []"
    using clear_effect [of u g] c by metis
  have empty: "queues w' = (queues w)(u := [])" using clear_step step unfolding c by blast
  show ?thesis
    using assms(1)
  proof cases
    case (tidy_Return r)
    then show ?thesis using step by simp
  next
    case (tidy_keep f)
    then have "queues w' = queues w" using step by (auto simp: prog_step_Step)
    then have "queues w u = ((queues w)(u := [])) u" using empty by metis
    with full show ?thesis by simp
  next
    case (tidy_post g' v p)
    then have "queues w' = (queues w)(v := queues w v @ [p])" using step post_step by blast
    then have "((queues w)(v := queues w v @ [p])) u = ((queues w)(u := [])) u" using empty by metis
    with full show ?thesis by (simp split: if_splits)
  next
    case (tidy_clear v g')
    then have "queues w' = (queues w)(v := [])" using step clear_step by blast
    then have "((queues w)(v := [])) u = ((queues w)(u := [])) u" using empty by metis
    then have "v = u" using full by (simp split: if_splits)
    with tidy_clear(2) show ?thesis by simp
  qed
qed

lemma tidy_next:
  assumes "tidy C c" and step: "prog_step (w, c) (w', c')"
  shows "tidy C c'"
  using assms(1)
proof cases
  case (tidy_keep f)
  then show ?thesis using step by (auto simp: prog_step_Step)
next
  case (tidy_post g u p)
  then show ?thesis using step post_step by blast
next
  case (tidy_clear u g)
  then show ?thesis using step clear_step by blast
qed (use step in simp)

lemma next_call_none:
  assumes "next_call k c []"
  shows "c \<noteq> bind_prog (add_send_task u p) g" and "c \<noteq> bind_prog (clear_sender_step u) g"
proof -
  show "c \<noteq> bind_prog (add_send_task u p) g" using assms by cases blast
  show "c \<noteq> bind_prog (clear_sender_step u) g" using assms by cases blast
qed

lemma tidy_quiet:
  assumes "tidy C c" and "next_call k c []" and step: "prog_step (w, c) (w', c')"
  shows "queues w' = queues w"
  using assms(1)
proof cases
  case (tidy_keep f)
  then show ?thesis using step by (auto simp: prog_step_Step)
qed (use next_call_none [OF assms(2)] step in simp_all)

lemma tidy_bind:
  assumes "tidy C c" and "\<And>r. tidy C (h r)" shows "tidy C (bind_prog c h)"
  using assms(1)
proof induction
  case (tidy_keep f)
  show ?case
    unfolding bind_prog_Step by (rule tidy.tidy_keep) (use tidy_keep in \<open>auto simp: map_step_eq_Inr\<close>)
next
  case (tidy_post g u p)
  then show ?case unfolding bind_assoc by (auto intro: tidy.tidy_post)
next
  case (tidy_clear u g)
  then show ?case unfolding bind_assoc by (auto intro: tidy.tidy_clear)
qed (simp add: assms(2))

lemma tidy_atomic:
  assumes "\<And>w w' r. A w = Inr (w', r) \<Longrightarrow> queues w' = queues w" shows "tidy C (atomic A)"
  unfolding atomic_def by (rule tidy_keep) (use assms in \<open>auto intro: tidy_Return\<close>)

lemma tidy_kinds:
  "tidy C (um_get f)" "tidy C (db_get h)" "tidy C (db_put k)" "tidy C (disk_step d)" "tidy C (van_step v)"
  by (auto simp: step_kinds query_def intro!: tidy_atomic)

lemma tidy_put: "(\<And>s. keepalive_sender_mp (f s) = keepalive_sender_mp s) \<Longrightarrow> tidy C (um_put f)"
  by (auto simp: um_put_def change_def intro!: tidy_atomic queue_of_frame)

lemma tidy_pure: "tidy C (pure_prog m)"
  by (cases m) (auto simp: pure_prog_def intro: tidy_Return tidy_keep)

lemma tidy_if: "tidy C c \<Longrightarrow> tidy C c' \<Longrightarrow> tidy C (if b then c else c')"
  by simp

lemma tidy_option: "tidy C c \<Longrightarrow> (\<And>x. tidy C (f x)) \<Longrightarrow> tidy C (case r of None \<Rightarrow> c | Some x \<Rightarrow> f x)"
  by (simp split: option.split)

lemmas tidy_rules = tidy_Return tidy_bind tidy_kinds tidy_pure tidy_if tidy_option

lemma tidy_handlers:
  "tidy C (register_steps env pkt)" "tidy C (login_pre_steps env io pkt)" "tidy C (login_steps env io pkt)"
  "tidy C (setup_channel_steps env pkt)" "tidy C (send_message_steps env io pkt)"
  "tidy C (contact_message_steps env pkt)" "tidy C (upload_steps env io pkt)" "tidy C (download_steps env io pkt)"
  unfolding register_steps_def login_pre_steps_def login_steps_def setup_channel_steps_def send_message_steps_def
    createMsgByRawMsg_steps_def createMsg_steps_def contact_message_steps_def upload_steps_def download_steps_def Let_def
  by (auto intro!: tidy_rules tidy_put simp: frame_simps split: prod.split)

lemma tidy_handle: "tidy {} (handle_steps env io pkt)"
  by (auto simp: handle_steps_def Let_def split: option.split PacketType.split intro!: tidy_rules tidy_handlers)

lemma tidy_add: "tidy C (add_send_task u p)"
  using tidy_post [of C Return u p] by (simp add: tidy_Return)

lemma tidy_clear_step: "u \<in> C \<Longrightarrow> tidy C (clear_sender_step u)"
  using tidy_clear [of u C Return] by (simp add: tidy_Return)

lemma tidy_open: "tidy C (open_sender_step io u fd)"
  unfolding open_sender_step_def
  by (rule tidy_atomic) (auto simp: open_sender_def queue_of_def setFd_def make_sender_def empty_queue_def fun_eq_iff
    split: option.splits prod.splits if_splits)

lemma tidy_each: "(\<And>x. tidy C (f x)) \<Longrightarrow> tidy C (each_prog f xs)"
  by (induction xs) (auto intro!: tidy_rules)

fun clears :: "callback \<Rightarrow> int32 set" where
  "clears (SetupChannelCallback u) = {u}"
| "clears _ = {}"

lemma tidy_captured: "tidy C (f x) \<Longrightarrow> tidy C (bind_prog (pure_prog (read_captured io x)) f)"
  unfolding read_captured_def
  by (cases "io_locals_kept io") (auto simp: pure_prog_def bind_prog_Step intro: tidy_keep)

lemma tidy_callback: "tidy (clears cb) (callback_steps env io fd cb)"
  by (cases cb) (auto simp: callback_steps_defs set_sender_steps_def contact_list_steps_def post_steps_def frame_simps
    intro!: tidy_captured tidy_rules tidy_add tidy_clear_step tidy_open tidy_each tidy_put split: prod.split)

lemma tidy_reply: "tidy (clears cb) (reply_steps env io fd reply cb)"
  unfolding reply_steps_def by (auto intro!: tidy_rules tidy_callback)

subsection \<open>The calls, replayed\<close>

text \<open>
  A queue and the packet that was taken from it and not delivered yet. \<open>None\<close>: the call gives a packet
  that a first-in-first-out queue would not give, or delivers one that was not taken.
\<close>

fun fifo_step :: "int32 \<Rightarrow> ('a, 'd) event \<Rightarrow> 'a Packet list \<times> 'a Packet option \<Rightarrow> ('a Packet list \<times> 'a Packet option) option" where
  "fifo_step u (Posted v p) (q, t) = Some (if v = u then q @ [p] else q, t)"
| "fifo_step u (Cleared v k) (q, t) = Some (if v = u then [] else q, t)"
| "fifo_step u (Taken v p) (q, t) =
     (if v \<noteq> u then Some (q, t) else if q \<noteq> [] \<and> hd q = p \<and> t = None then Some (tl q, Some p) else None)"
| "fifo_step u (Delivered v p fd calls) (q, t) =
     (if v \<noteq> u then Some (q, t) else if t = Some p then Some (q, None) else None)"

fun fifo :: "int32 \<Rightarrow> ('a, 'd) event list \<Rightarrow> 'a Packet list \<times> 'a Packet option \<Rightarrow> ('a Packet list \<times> 'a Packet option) option" where
  "fifo u [] x = Some x"
| "fifo u (e # log) x = Option.bind (fifo_step u e x) (fifo u log)"

lemma fifo_append: "fifo u (log @ log') x = Option.bind (fifo u log x) (fifo u log')"
proof (induction log arbitrary: x)
  case (Cons e log)
  then show ?case by (cases "fifo_step u e x") simp_all
qed simp

text \<open>The packets that were posted for a user, those the thread of the channel has tried to deliver, and those that wait.\<close>

fun posts :: "int32 \<Rightarrow> ('a, 'd) event list \<Rightarrow> 'a Packet list" where
  "posts u (Posted v p # log) = (if v = u then [p] else []) @ posts u log"
| "posts u (_ # log) = posts u log"
| "posts u [] = []"

fun tried :: "int32 \<Rightarrow> ('a, 'd) event list \<Rightarrow> 'a Packet list" where
  "tried u (Delivered v p fd calls # log) = (if v = u then [p] else []) @ tried u log"
| "tried u (_ # log) = tried u log"
| "tried u [] = []"

definition waiting :: "int32 \<Rightarrow> ('a, 'd) threads \<Rightarrow> 'a Packet list" where
  "waiting u s = (case th_channels s u of None \<Rightarrow> [] | Some p \<Rightarrow> [p]) @ queues (th_world s) u"

abbreviation held :: "'a Packet option \<Rightarrow> 'a Packet list" where
  "held t \<equiv> (case t of None \<Rightarrow> [] | Some p \<Rightarrow> [p])"

lemma fifo_accounts:
  assumes "fifo u log (q0, t0) = Some (q, t)"
  shows "subseq (tried u log @ held t @ q) (held t0 @ q0 @ posts u log) \<and>
    ((\<forall>k. Cleared u k \<notin> set log) \<longrightarrow> tried u log @ held t @ q = held t0 @ q0 @ posts u log)"
  using assms
proof (induction log arbitrary: q0 t0)
  case (Cons e log)
  obtain q1 t1 where e: "fifo_step u e (q0, t0) = Some (q1, t1)" and log: "fifo u log (q1, t1) = Some (q, t)"
    using Cons.prems by (auto simp: bind_eq_Some_conv)
  note IH = Cons.IH [OF log]
  show ?case
  proof (cases e)
    case (Cleared v k)
    have "subseq (held t0 @ posts u log) (held t0 @ q0 @ posts u log)"
      by (intro list_emb_append_mono subseq_order.order_refl) (simp add: subseq_rev_drop_many subseq_drop_many)
    then show ?thesis using IH e Cleared by (auto split: if_splits intro: subseq_order.order_trans)
  next
    case (Taken v p)
    then have "held t0 @ q0 = held t1 @ q1" using e by (auto split: if_splits)
    then have same: "held t0 @ q0 @ posts u log = held t1 @ q1 @ posts u log" by (metis append_assoc)
    show ?thesis using IH [folded same] Taken by simp
  next
    case (Posted v p)
    then show ?thesis using IH e by (auto split: if_splits)
  next
    case (Delivered v p fd calls)
    then show ?thesis using IH e by (auto split: if_splits)
  qed
qed simp

subsection \<open>Every run keeps the account\<close>

text \<open>The calls of one delivery: all bytes of the packet were sent, or the socket was closed.\<close>

definition delivery_calls :: "('a, 'd) env \<Rightarrow> 'a Packet \<Rightarrow> int32 \<Rightarrow> os_call list \<Rightarrow> bool" where
  "delivery_calls env p fd calls \<longleftrightarrow> (\<exists>bytes closes. calls = CallSend fd bytes # replicate closes (CallClose fd) \<and>
     (bytes = SerializeToArray (env_wire env) p \<or> strict_prefix bytes (SerializeToArray (env_wire env) p) \<and> 0 < closes))"

lemma deliver_calls_made:
  assumes "deliver env io p fd v = Inr v'"
  shows "delivery_calls env p fd (drop (length (van_calls v)) (van_calls v'))"
proof (rule deliver_calls [OF assms])
  fix ret out n and r :: "'a Packet option"
  assume out: "ret = 0 \<and> out = SerializeToArray (env_wire env) p \<or> ret = (1 :: nat) \<and> SendFails \<in> set (io_send io) \<and>
      (\<exists>k < length (SerializeToArray (env_wire env) p). out = take k (SerializeToArray (env_wire env) p))"
    and calls: "van_calls v' = van_calls v @ CallSend fd out # replicate (ret + (if n < 0 then 1 else 0)) (CallClose fd)"
  have "strict_prefix (take k bytes) bytes" if "k < length bytes" for k and bytes :: string
    using that take_is_prefix [of k bytes] by (auto simp: strict_prefix_def)
  then show ?thesis using out calls by (auto simp: delivery_calls_def)
qed

text \<open>The request a worker is at, and the calls of \<open>Clear\<close> it can make.\<close>

fun at_work :: "('a, 'd) env \<Rightarrow> ('a, 'd) worker \<Rightarrow> bool" where
  "at_work env (Handling fd pkt c) = (\<exists>io. remains (handle_steps env io pkt) c)"
| "at_work env (Replying c) = (\<exists>io fd reply cb. remains (reply_steps env io fd reply cb) c)"
| "at_work env _ = True"

lemma remains_tidy: "remains c c' \<Longrightarrow> tidy C c \<Longrightarrow> tidy C c'"
  by (induction rule: remains.induct) (auto dest: tidy_next simp: prog_step_Step)

definition channel_kept :: "('a, 'd) env \<Rightarrow> ('a, 'd) event list \<Rightarrow> ('a, 'd) threads \<Rightarrow> bool" where
  "channel_kept env log s \<longleftrightarrow>
     (\<forall>u. fifo u log ([], None) = Some (queues (th_world s) u, th_channels s u)) \<and>
     (\<forall>k \<in> set (th_workers s). at_work env k) \<and>
     (\<forall>u k. Cleared u k \<in> set log \<longrightarrow>
       (\<exists>c io fd reply. k = Replying c \<and> remains (reply_steps env io fd reply (SetupChannelCallback u)) c)) \<and>
     (\<forall>u p fd calls. Delivered u p fd calls \<in> set log \<longrightarrow> delivery_calls env p fd calls)"

text \<open>A step of a worker's program.\<close>

lemma program_step_fifo:
  assumes "tidy C c" and call: "next_call k c evs" and step: "prog_step (w, c) (w', c')"
  shows "fifo u evs (queues w u, t) = Some (queues w' u, t)"
  using call
proof cases
  case (call_post v p g)
  then show ?thesis using post_step step by (auto dest!: post_step)
next
  case (call_clear v g)
  then show ?thesis using step by (auto dest!: clear_step)
next
  case call_other
  then have "next_call k c []" using call by simp
  from tidy_quiet [OF assms(1) this step] show ?thesis by (simp add: call_other(1))
qed

lemma cleared_allowed: "next_call k c evs \<Longrightarrow> tidy C c \<Longrightarrow> Cleared u k' \<in> set evs \<Longrightarrow> k' = k \<and> u \<in> C"
  by (erule next_call.cases) (auto dest: clear_allowed)

lemma not_delivered: "next_call k c evs \<Longrightarrow> Delivered u p fd calls \<notin> set evs"
  by (erule next_call.cases) auto

lemma worker_step_kept:
  assumes kept: "channel_kept env log \<lparr>th_world = w, th_workers = ws1 @ k # ws2, th_channels = ch\<rparr>"
    and tidy: "tidy C c" and call: "next_call k c evs" and step: "prog_step (w, c) (w', c')"
    and k': "at_work env k'" and C: "\<And>u. u \<in> C \<Longrightarrow>
      \<exists>c io fd reply. k = Replying c \<and> remains (reply_steps env io fd reply (SetupChannelCallback u)) c"
  shows "channel_kept env (log @ evs) \<lparr>th_world = w', th_workers = ws1 @ k' # ws2, th_channels = ch\<rparr>"
proof -
  have "fifo u (log @ evs) ([], None) = Some (queues w' u, ch u)" for u
    using kept program_step_fifo [OF tidy call step] by (simp add: channel_kept_def fifo_append)
  moreover have "\<exists>c io fd reply. k1 = Replying c \<and> remains (reply_steps env io fd reply (SetupChannelCallback u)) c"
    if "Cleared u k1 \<in> set evs" for u k1
    using cleared_allowed [OF call tidy that] C by blast
  ultimately show ?thesis
    using kept k' not_delivered [OF call] by (auto simp: channel_kept_def)
qed

lemma quiet_step_kept:
  assumes "channel_kept env log \<lparr>th_world = w, th_workers = ws, th_channels = ch\<rparr>"
    and "queues w' = queues w" and "\<And>k. k \<in> set ws' \<Longrightarrow> k \<in> set ws \<or> at_work env k"
  shows "channel_kept env log \<lparr>th_world = w', th_workers = ws', th_channels = ch\<rparr>"
  using assms by (auto simp: channel_kept_def)

lemma traced_step_kept:
  assumes step: "traced_step env s evs s'" and kept: "channel_kept env log s"
  shows "channel_kept env (log @ evs) s'"
  using step
proof cases
  case (t_take_socket ws w fd q ch io)
  then show ?thesis using kept by (auto elim!: quiet_step_kept)
next
  case (t_receive io w n pkt v ws1 fd ws2 ch)
  have "at_work env (Handling fd pkt (handle_steps env io pkt))" by (auto intro: all_remains)
  then show ?thesis using kept unfolding t_receive(1-3) append_Nil2 by (elim quiet_step_kept) auto
next
  case (t_ignore io w n r v ws1 fd ws2 ch)
  then show ?thesis using kept by (auto elim!: quiet_step_kept)
next
  case (t_handle w c w' c' fd pkt ws1 ws2 ch)
  obtain io where c: "remains (handle_steps env io pkt) c"
    using kept unfolding t_handle(1) by (auto simp: channel_kept_def)
  have "at_work env (Handling fd pkt c')" unfolding at_work.simps using remains_step [OF c t_handle(3)] by blast
  then show ?thesis
    using kept unfolding t_handle(1,2)
    by (elim worker_step_kept [OF _ remains_tidy [OF c tidy_handle] t_handle(4,3)]) auto
next
  case (t_no_answer w ws1 fd pkt ws2 ch)
  then show ?thesis using kept by (auto elim!: quiet_step_kept)
next
  case (t_answer w ws1 fd pkt reply cb ws2 ch)
  then show ?thesis using kept by (auto elim!: quiet_step_kept)
next
  case (t_send w ws1 fd reply cb ws2 ch io)
  have "at_work env (Replying (reply_steps env io fd reply cb))" unfolding at_work.simps by (blast intro: all_remains)
  then show ?thesis using kept unfolding t_send append_Nil2 by (elim quiet_step_kept) auto
next
  case (t_reply w c w' c' ws1 ws2 ch)
  obtain io fd reply cb where c: "remains (reply_steps env io fd reply cb) c"
    using kept unfolding t_reply(1) by (auto simp: channel_kept_def)
  have "at_work env (Replying c')" unfolding at_work.simps using remains_step [OF c t_reply(3)] by blast
  moreover have "u \<in> clears cb \<Longrightarrow> cb = SetupChannelCallback u" for u by (cases cb) auto
  ultimately show ?thesis
    using kept c unfolding t_reply(1,2)
    by (elim worker_step_kept [OF _ remains_tidy [OF c tidy_reply] t_reply(4,3)]) auto
next
  case (t_replied w ws1 ws2 ch)
  then show ?thesis using kept by (auto elim!: quiet_step_kept)
next
  case (t_take_packet ch uid w sdr pkt q ws)
  have q: "queues w uid = pkt # items q" "queues (w\<lparr>w_server := set_queue uid q (w_server w)\<rparr>) = (queues w)(uid := items q)"
    using t_take_packet(5,6) by (auto simp: WaitAndPop_Some_iff queue_of_def set_queue_def fun_eq_iff)
  have "fifo u log ([], None) = Some (queues w u, ch u)" for u
    using kept by (simp add: t_take_packet(1) channel_kept_def)
  then have "fifo u (log @ [Taken uid pkt]) ([], None) =
      Some (queues (w\<lparr>w_server := set_queue uid q (w_server w)\<rparr>) u, (ch(uid \<mapsto> pkt)) u)" for u
    using q(1) t_take_packet(4) unfolding q(2) by (cases "u = uid") (auto simp: fifo_append)
  then show ?thesis
    using kept unfolding t_take_packet(1,2,3) by (simp add: channel_kept_def)
next
  case (t_deliver_packet ch uid pkt w sdr io v calls ws)
  have "delivery_calls env pkt (sender_fd sdr) calls" using deliver_calls_made t_deliver_packet by blast
  then show ?thesis
    using kept t_deliver_packet(4) unfolding t_deliver_packet(1,2,3) by (auto simp: channel_kept_def fifo_append)
next
  case (t_accept e w s1 v ws ch)
  have "s1 = (w_server w)\<lparr>revc_socket_pool := revc_socket_pool s1\<rparr>" using on_event_Inr [OF t_accept(4)] by blast
  then have "keepalive_sender_mp s1 = keepalive_sender_mp ((w_server w)\<lparr>revc_socket_pool := revc_socket_pool s1\<rparr>)"
    by (rule arg_cong)
  then have "queue_of s1 = queue_of (w_server w)" by (intro queue_of_frame) simp
  then show ?thesis using kept unfolding t_accept(1-3) append_Nil2 by (elim quiet_step_kept) auto
qed

lemma traced_run_kept:
  assumes "traced_run env w0 log s" and "w_server w0 = empty_Server" shows "channel_kept env log s"
  using assms
proof induction
  case begin_trace
  then show ?case by (simp add: channel_kept_def at_rest_def queue_of_def empty_Server_def)
next
  case (next_traced log s evs s')
  then show ?case by (blast intro: traced_step_kept)
qed

subsection \<open>Property\<close>

text \<open>
  C8: The channel of a user is a first-in-first-out queue, whatever steps of the threads are interleaved.
  Every run has a log of the calls that its threads make (\<open>traced_runs\<close>). Replayed on such a queue, the
  calls of \<open>addSendTask\<close>, \<open>Clear\<close> and \<open>WaitAndPop\<close> and the deliveries in the log lead exactly to the packets
  that wait on the channel and to the one that its thread has taken: no call posts a packet twice or
  not at all, and the thread takes each packet from the front and tries to deliver it once. So the
  packets it has tried to deliver, followed by those that wait, were posted in this order, and they
  are all that were posted as long as \<open>Clear\<close> was not called on this queue. It is only called by a worker in the callback
  of a request to open the channel of this very user. Trying to deliver a packet sends all its bytes
  on the socket of the sender, or only a part of them, and closes the socket.
\<close>

theorem threads_deliver_in_order:
  assumes start: "w_server w0 = empty_Server" and run: "traced_run env w0 log s"
  shows "fifo u log ([], None) = Some (queue_of (w_server (th_world s)) u, th_channels s u) \<and>
    subseq (tried u log @ waiting u s) (posts u log) \<and>
    ((\<forall>k. Cleared u k \<notin> set log) \<longrightarrow> tried u log @ waiting u s = posts u log) \<and>
    (\<forall>k. Cleared u k \<in> set log \<longrightarrow>
      (\<exists>c io fd reply. k = Replying c \<and> remains (reply_steps env io fd reply (SetupChannelCallback u)) c)) \<and>
    (\<forall>p fd calls. Delivered u p fd calls \<in> set log \<longrightarrow> (\<exists>bytes closes.
      calls = CallSend fd bytes # replicate closes (CallClose fd) \<and>
      (bytes = SerializeToArray (env_wire env) p \<or> strict_prefix bytes (SerializeToArray (env_wire env) p) \<and> 0 < closes)))"
proof -
  note kept = traced_run_kept [OF run start]
  then have fifo: "fifo u log ([], None) = Some (queue_of (w_server (th_world s)) u, th_channels s u)"
    by (simp add: channel_kept_def)
  from fifo_accounts [OF this] show ?thesis
    using kept fifo by (simp add: channel_kept_def delivery_calls_def waiting_def)
qed

theorem threads_deliver_in_order_witness:
  "\<exists>log s p. traced_run ref_env (sockets_world [5, 6, 7]) log s \<and> p \<in> set (posts 1 log) \<and>
     fifo 1 log ([], None) = Some (queue_of (w_server (th_world s)) 1, th_channels s 1)"
proof -
  obtain s sdr p where s: "(thread_step ref_env)\<^sup>*\<^sup>* (at_rest (sockets_world [5, 6, 7])) s"
    and p: "keepalive_sender_mp (w_server (th_world s)) 1 = Some sdr" "p \<in> set (items (msg_queue sdr))"
    using bob_channel_opens by blast
  obtain log where log: "traced_run ref_env (sockets_world [5, 6, 7]) log s" using s traced_runs by blast
  have "w_server (sockets_world [5, 6, 7]) = empty_Server" using ready_sockets by (simp add: ready_def)
  note kept = threads_deliver_in_order [OF this log, of 1]
  then have order: "subseq (tried 1 log @ waiting 1 s) (posts 1 log)" by blast
  have "p \<in> set (waiting 1 s)" using p by (simp add: waiting_def queue_of_def)
  then have "p \<in> set (tried 1 log @ waiting 1 s)" by simp
  from list_emb_set [OF order this] have "p \<in> set (posts 1 log)" by blast
  with log kept show ?thesis by blast
qed

end
