(* ===== verification/Channel_Locks.thy ===== *)
theory Channel_Locks
  imports Thread_System
begin

text \<open>
  The pool of senders with its mutexes, statement by statement: \<open>UM::setKpAliveSender\<close> and
  \<open>UM::getSender\<close> hold \<open>_keepalive_sender_mp_mu\<close>, \<open>setFd\<close> takes the mutex \<open>mu_\<close> of the sender inside of
  it, and \<open>KeepAliveMsgSender::run\<close> holds \<open>mu_\<close> while it delivers a packet. That the steps of
  \<open>Request_Steps\<close> may be taken as atomic is proved here, that the two kinds of mutexes cannot
  deadlock, and who waits for whom.
\<close>

subsection \<open>Threads at their statements\<close>

datatype thread = Worker nat | SenderThread int32

text \<open>
  A worker inside \<open>setKpAliveSender\<close> (\<open>Set\<close>, and \<open>Fd\<close> for \<open>setFd\<close>) or \<open>getSender\<close> (\<open>Get\<close>), or with the pointer
  that \<open>getSender\<close> returned; the thread of a sender in \<open>run\<close>.
\<close>

datatype 'a point =
    Elsewhere
  | SetEnter int32 int32 | SetFind int32 int32 | FdEnter int32 int32 | FdStore int32 int32 | FdLeave int32
  | SetClear int32 | SetLeave
  | GetEnter int32 | GetFind int32 | GetLeave int32 bool | HasPointer int32
  | RunPop | RunEnter "'a Packet" | RunSend "'a Packet" | RunReceive int32 | RunLeave int32

record 'a lock_state =
  pool_mu :: "thread option"
  sender_mu :: "int32 \<Rightarrow> thread option"
  pools :: "'a Server"
  point_of :: "thread \<Rightarrow> 'a point"

definition move :: "thread \<Rightarrow> 'a point \<Rightarrow> 'a lock_state \<Rightarrow> 'a lock_state" where
  "move t p s = s\<lparr>point_of := (point_of s)(t := p)\<rparr>"

definition lock_pool :: "thread \<Rightarrow> 'a lock_state \<Rightarrow> 'a lock_state" where
  "lock_pool t s = s\<lparr>pool_mu := Some t\<rparr>"

definition unlock_pool :: "'a lock_state \<Rightarrow> 'a lock_state" where
  "unlock_pool s = s\<lparr>pool_mu := None\<rparr>"

definition lock_sender :: "int32 \<Rightarrow> thread \<Rightarrow> 'a lock_state \<Rightarrow> 'a lock_state" where
  "lock_sender u t s = s\<lparr>sender_mu := (sender_mu s)(u := Some t)\<rparr>"

definition unlock_sender :: "int32 \<Rightarrow> 'a lock_state \<Rightarrow> 'a lock_state" where
  "unlock_sender u s = s\<lparr>sender_mu := (sender_mu s)(u := None)\<rparr>"

definition put_sender :: "int32 \<Rightarrow> 'a KeepAliveMsgSender \<Rightarrow> 'a lock_state \<Rightarrow> 'a lock_state" where
  "put_sender u sdr s =
     s\<lparr>pools := (pools s)\<lparr>keepalive_sender_mp := (keepalive_sender_mp (pools s))(u \<mapsto> sdr)\<rparr>\<rparr>"

abbreviation sender_at :: "'a lock_state \<Rightarrow> int32 \<Rightarrow> 'a KeepAliveMsgSender option" where
  "sender_at s u \<equiv> keepalive_sender_mp (pools s) u"

lemma lock_effects_sel [simp]:
  "point_of (move t p s) = (point_of s)(t := p)" "pool_mu (move t p s) = pool_mu s"
  "sender_mu (move t p s) = sender_mu s" "pools (move t p s) = pools s"
  "point_of (lock_pool t s) = point_of s" "pool_mu (lock_pool t s) = Some t"
  "sender_mu (lock_pool t s) = sender_mu s" "pools (lock_pool t s) = pools s"
  "point_of (unlock_pool s) = point_of s" "pool_mu (unlock_pool s) = None"
  "sender_mu (unlock_pool s) = sender_mu s" "pools (unlock_pool s) = pools s"
  "point_of (lock_sender u t s) = point_of s" "pool_mu (lock_sender u t s) = pool_mu s"
  "sender_mu (lock_sender u t s) = (sender_mu s)(u := Some t)" "pools (lock_sender u t s) = pools s"
  "point_of (unlock_sender u s) = point_of s" "pool_mu (unlock_sender u s) = pool_mu s"
  "sender_mu (unlock_sender u s) = (sender_mu s)(u := None)" "pools (unlock_sender u s) = pools s"
  "point_of (put_sender u sdr s) = point_of s" "pool_mu (put_sender u sdr s) = pool_mu s"
  "sender_mu (put_sender u sdr s) = sender_mu s"
  "keepalive_sender_mp (pools (put_sender u sdr s)) = (keepalive_sender_mp (pools s))(u \<mapsto> sdr)"
  by (simp_all add: move_def lock_pool_def unlock_pool_def lock_sender_def unlock_sender_def put_sender_def)

text \<open>A step of the thread \<open>t\<close>, with what it does to the pool, or what it finds there or sends.\<close>

datatype 'a pool_effect =
    Opened int32 int32 bool
  | Emptied int32
  | Looked int32 bool
  | Posted int32 "'a Packet"
  | Took int32 "'a Packet"
  | Sent int32 "'a Packet" int32
  | Received int32 int32

inductive lock_step :: "thread \<Rightarrow> 'a lock_state \<Rightarrow> 'a pool_effect option \<Rightarrow> 'a lock_state \<Rightarrow> bool" where
  set_call: "point_of s (Worker n) = Elsewhere \<Longrightarrow> lock_step (Worker n) s None (move (Worker n) (SetEnter u fd) s)"
| set_enter: "point_of s t = SetEnter u fd \<Longrightarrow> pool_mu s = None \<Longrightarrow>
    lock_step t s None (move t (SetFind u fd) (lock_pool t s))"
| set_make: "point_of s t = SetFind u fd \<Longrightarrow> sender_at s u = None \<Longrightarrow>
    lock_step t s (Some (Opened u fd False)) (move t SetLeave (put_sender u (make_sender u fd) s))"
| set_found: "point_of s t = SetFind u fd \<Longrightarrow> sender_at s u \<noteq> None \<Longrightarrow> lock_step t s None (move t (FdEnter u fd) s)"
| fd_enter: "point_of s t = FdEnter u fd \<Longrightarrow> sender_mu s u = None \<Longrightarrow>
    lock_step t s None (move t (FdStore u fd) (lock_sender u t s))"
| fd_store: "point_of s t = FdStore u fd \<Longrightarrow> sender_at s u = Some sdr \<Longrightarrow>
    lock_step t s (Some (Opened u fd True)) (move t (FdLeave u) (put_sender u (setFd fd sdr) s))"
| fd_leave: "point_of s t = FdLeave u \<Longrightarrow> lock_step t s None (move t (SetClear u) (unlock_sender u s))"
| set_clear: "point_of s t = SetClear u \<Longrightarrow> sender_at s u = Some sdr \<Longrightarrow>
    lock_step t s (Some (Emptied u)) (move t SetLeave (put_sender u (sender_Clear sdr) s))"
| set_leave: "point_of s t = SetLeave \<Longrightarrow> lock_step t s None (move t Elsewhere (unlock_pool s))"
| get_call: "point_of s (Worker n) = Elsewhere \<Longrightarrow> u \<noteq> 0 \<Longrightarrow> lock_step (Worker n) s None (move (Worker n) (GetEnter u) s)"
| get_enter: "point_of s t = GetEnter u \<Longrightarrow> pool_mu s = None \<Longrightarrow>
    lock_step t s None (move t (GetFind u) (lock_pool t s))"
| get_find: "point_of s t = GetFind u \<Longrightarrow>
    lock_step t s (Some (Looked u (sender_at s u \<noteq> None))) (move t (GetLeave u (sender_at s u \<noteq> None)) s)"
| get_leave: "point_of s t = GetLeave u found \<Longrightarrow>
    lock_step t s None (move t (if found then HasPointer u else Elsewhere) (unlock_pool s))"
| pointer_unused: "point_of s t = HasPointer u \<Longrightarrow> lock_step t s None (move t Elsewhere s)"
| pointer_used: "point_of s t = HasPointer u \<Longrightarrow> sender_at s u = Some sdr \<Longrightarrow>
    lock_step t s (Some (Posted u p)) (move t Elsewhere (put_sender u (addSendTask p sdr) s))"
| run_pop: "point_of s (SenderThread u) = RunPop \<Longrightarrow> sender_at s u = Some sdr \<Longrightarrow> WaitAndPop (msg_queue sdr) = Some (p, q) \<Longrightarrow>
    lock_step (SenderThread u) s (Some (Took u p)) (move (SenderThread u) (RunEnter p) (put_sender u (sdr\<lparr>msg_queue := q\<rparr>) s))"
| run_enter: "point_of s (SenderThread u) = RunEnter p \<Longrightarrow> sender_mu s u = None \<Longrightarrow>
    lock_step (SenderThread u) s None (move (SenderThread u) (RunSend p) (lock_sender u (SenderThread u) s))"
| run_send: "point_of s (SenderThread u) = RunSend p \<Longrightarrow> sender_at s u = Some sdr \<Longrightarrow>
    lock_step (SenderThread u) s (Some (Sent u p (sender_fd sdr))) (move (SenderThread u) (RunReceive (sender_fd sdr)) s)"
| run_receive: "point_of s (SenderThread u) = RunReceive fd \<Longrightarrow> sender_at s u = Some sdr \<Longrightarrow>
    lock_step (SenderThread u) s (Some (Received u (sender_fd sdr))) (move (SenderThread u) (RunLeave fd) s)"
| run_leave: "point_of s (SenderThread u) = RunLeave fd \<Longrightarrow>
    lock_step (SenderThread u) s None (move (SenderThread u) RunPop (unlock_sender u s))"

text \<open>A run, as the threads and effects of its steps.\<close>

inductive lock_run :: "'a lock_state \<Rightarrow> (thread \<times> 'a pool_effect option) list \<Rightarrow> 'a lock_state \<Rightarrow> bool" where
  lock_start: "lock_run s [] s"
| lock_next: "lock_run s es s' \<Longrightarrow> lock_step t s' e s'' \<Longrightarrow> lock_run s (es @ [(t, e)]) s''"

text \<open>At the start nobody is inside; the threads of the senders wait for packets.\<close>

definition all_outside :: "'a Server \<Rightarrow> 'a lock_state" where
  "all_outside s = \<lparr>pool_mu = None, sender_mu = (\<lambda>_. None), pools = s,
     point_of = (\<lambda>t. case t of Worker n \<Rightarrow> Elsewhere | SenderThread u \<Rightarrow> RunPop)\<rparr>"

subsection \<open>The invariant\<close>

fun inside_pool :: "'a point \<Rightarrow> bool" where
  "inside_pool (SetFind u fd) = True"
| "inside_pool (FdEnter u fd) = True"
| "inside_pool (FdStore u fd) = True"
| "inside_pool (FdLeave u) = True"
| "inside_pool (SetClear u) = True"
| "inside_pool SetLeave = True"
| "inside_pool (GetFind u) = True"
| "inside_pool (GetLeave u found) = True"
| "inside_pool _ = False"

fun delivers :: "'a point \<Rightarrow> bool" where
  "delivers (RunSend p) = True"
| "delivers (RunReceive fd) = True"
| "delivers (RunLeave fd) = True"
| "delivers _ = False"

fun runs :: "'a point \<Rightarrow> bool" where
  "runs RunPop = True"
| "runs (RunEnter p) = True"
| "runs p = delivers p"

text \<open>The sender whose mutex a thread holds at a point.\<close>

fun inside_sender :: "thread \<Rightarrow> 'a point \<Rightarrow> int32 option" where
  "inside_sender t (FdStore u fd) = Some u"
| "inside_sender t (FdLeave u) = Some u"
| "inside_sender (SenderThread u) p = (if delivers p then Some u else None)"
| "inside_sender t p = None"

text \<open>The sender that a thread is about to use without looking whether it is there.\<close>

fun relies_on :: "'a point \<Rightarrow> int32 option" where
  "relies_on (FdEnter u fd) = Some u"
| "relies_on (FdStore u fd) = Some u"
| "relies_on (FdLeave u) = Some u"
| "relies_on (SetClear u) = Some u"
| "relies_on (GetLeave u found) = (if found then Some u else None)"
| "relies_on (HasPointer u) = Some u"
| "relies_on _ = None"

fun socket_used :: "'a point \<Rightarrow> int32 option" where
  "socket_used (RunReceive fd) = Some fd"
| "socket_used (RunLeave fd) = Some fd"
| "socket_used _ = None"

definition owners_ok :: "'a lock_state \<Rightarrow> bool" where
  "owners_ok s \<longleftrightarrow> (\<forall>t. inside_pool (point_of s t) \<longleftrightarrow> pool_mu s = Some t) \<and>
     (\<forall>t u. inside_sender t (point_of s t) = Some u \<longleftrightarrow> sender_mu s u = Some t)"

definition places_ok :: "'a lock_state \<Rightarrow> bool" where
  "places_ok s \<longleftrightarrow> (\<forall>n. \<not> runs (point_of s (Worker n))) \<and> (\<forall>u. runs (point_of s (SenderThread u)))"

definition senders_ok :: "'a lock_state \<Rightarrow> bool" where
  "senders_ok s \<longleftrightarrow> (\<forall>t u. relies_on (point_of s t) = Some u \<longrightarrow> sender_at s u \<noteq> None) \<and>
     (\<forall>u. point_of s (SenderThread u) \<noteq> RunPop \<longrightarrow> sender_at s u \<noteq> None)"

definition sockets_ok :: "'a lock_state \<Rightarrow> bool" where
  "sockets_ok s \<longleftrightarrow> (\<forall>u fd sdr. socket_used (point_of s (SenderThread u)) = Some fd \<longrightarrow>
     sender_at s u = Some sdr \<longrightarrow> sender_fd sdr = fd)"

definition locks_inv :: "'a lock_state \<Rightarrow> bool" where
  "locks_inv s \<longleftrightarrow> owners_ok s \<and> places_ok s \<and> senders_ok s \<and> sockets_ok s"

lemma locks_inv_start: "locks_inv (all_outside s)"
  by (auto simp: locks_inv_def owners_ok_def places_ok_def senders_ok_def sockets_ok_def all_outside_def split: thread.split)

text \<open>The mutexes: moving with the same ones, and taking or releasing one.\<close>

lemma owners_put [simp]: "owners_ok (put_sender u sdr s) = owners_ok s"
  by (simp add: owners_ok_def)

lemma owners_move:
  "owners_ok s \<Longrightarrow> inside_pool p = inside_pool (point_of s t) \<Longrightarrow> inside_sender t p = inside_sender t (point_of s t) \<Longrightarrow>
   owners_ok (move t p s)"
  by (simp add: owners_ok_def)

lemma owners_lock_pool:
  "owners_ok s \<Longrightarrow> pool_mu s = None \<Longrightarrow> inside_pool p \<Longrightarrow> inside_sender t p = inside_sender t (point_of s t) \<Longrightarrow>
   owners_ok (move t p (lock_pool t s))"
  by (auto simp: owners_ok_def)

lemma owners_unlock_pool:
  "owners_ok s \<Longrightarrow> inside_pool (point_of s t) \<Longrightarrow> \<not> inside_pool p \<Longrightarrow> inside_sender t p = inside_sender t (point_of s t) \<Longrightarrow>
   owners_ok (move t p (unlock_pool s))"
  by (auto simp: owners_ok_def)

lemma owners_lock_sender:
  "owners_ok s \<Longrightarrow> sender_mu s u = None \<Longrightarrow> inside_pool p = inside_pool (point_of s t) \<Longrightarrow>
   inside_sender t (point_of s t) = None \<Longrightarrow> inside_sender t p = Some u \<Longrightarrow> owners_ok (move t p (lock_sender u t s))"
  unfolding owners_ok_def by (auto, (metis option.distinct(1))+)

lemma owners_unlock_sender:
  "owners_ok s \<Longrightarrow> inside_pool p = inside_pool (point_of s t) \<Longrightarrow> inside_sender t (point_of s t) = Some u \<Longrightarrow>
   inside_sender t p = None \<Longrightarrow> owners_ok (move t p (unlock_sender u s))"
  unfolding owners_ok_def by (auto, (metis option.inject)+)

lemma delivers_owns:
  assumes "owners_ok s" and "delivers (point_of s (SenderThread u))"
  shows "sender_mu s u = Some (SenderThread u)"
proof -
  have "inside_sender (SenderThread u) (point_of s (SenderThread u)) = Some u"
    using assms(2) by (cases "point_of s (SenderThread u)") simp_all
  then show ?thesis using assms(1) by (simp add: owners_ok_def)
qed

lemma places_worker: "places_ok s \<Longrightarrow> \<not> runs (point_of s t) \<Longrightarrow> \<exists>n. t = Worker n"
  by (cases t) (auto simp: places_ok_def)

lemma inside_sender_Worker: "inside_sender (Worker n) p = (case p of FdStore u fd \<Rightarrow> Some u | FdLeave u \<Rightarrow> Some u | _ \<Rightarrow> None)"
  by (cases p) simp_all

lemma owners_ok_step:
  assumes step: "lock_step t s e s'" and own: "owners_ok s" and pl: "places_ok s"
  shows "owners_ok s'"
  using step
proof cases
  case (set_call n u fd) then show ?thesis using own by (auto intro: owners_move)
next
  case (set_enter u fd) then show ?thesis using own places_worker [OF pl, of t] by (auto intro!: owners_lock_pool)
next
  case (set_make u fd) then show ?thesis using own places_worker [OF pl, of t] by (auto intro!: owners_move)
next
  case (set_found u fd) then show ?thesis using own places_worker [OF pl, of t] by (auto intro!: owners_move)
next
  case (fd_enter u fd) then show ?thesis using own places_worker [OF pl, of t] by (auto intro!: owners_lock_sender)
next
  case (fd_store u fd sdr) then show ?thesis using own by (auto intro!: owners_move)
next
  case (fd_leave u) then show ?thesis using own places_worker [OF pl, of t] by (auto intro!: owners_unlock_sender)
next
  case (set_clear u sdr) then show ?thesis using own places_worker [OF pl, of t] by (auto intro!: owners_move)
next
  case set_leave then show ?thesis using own places_worker [OF pl, of t] by (auto intro!: owners_unlock_pool)
next
  case (get_call n u) then show ?thesis using own by (auto intro: owners_move)
next
  case (get_enter u) then show ?thesis using own places_worker [OF pl, of t] by (auto intro!: owners_lock_pool)
next
  case (get_find u) then show ?thesis using own places_worker [OF pl, of t] by (auto intro!: owners_move)
next
  case (get_leave u found)
  then show ?thesis using own places_worker [OF pl, of t] by (auto intro!: owners_unlock_pool)
next
  case (pointer_unused u) then show ?thesis using own places_worker [OF pl, of t] by (auto intro!: owners_move)
next
  case (pointer_used u sdr p) then show ?thesis using own places_worker [OF pl, of t] by (auto intro!: owners_move)
next
  case (run_pop u sdr p q) then show ?thesis using own by (auto intro!: owners_move)
next
  case (run_enter u p) then show ?thesis using own by (auto intro!: owners_lock_sender)
next
  case (run_send u p sdr) then show ?thesis using own by (auto intro!: owners_move)
next
  case (run_receive u fd sdr) then show ?thesis using own by (auto intro!: owners_move)
next
  case (run_leave u fd) then show ?thesis using own by (auto intro!: owners_unlock_sender)
qed

lemma step_moves:
  "lock_step t s e s' \<Longrightarrow> \<exists>p. point_of s' = (point_of s)(t := p) \<and> runs p = runs (point_of s t)"
  by (erule lock_step.cases) auto

lemma places_ok_step: "lock_step t s e s' \<Longrightarrow> places_ok s \<Longrightarrow> places_ok s'"
  using step_moves [of t s e s'] unfolding places_ok_def by (metis fun_upd_apply)

text \<open>A sender that is there stays; and a thread has looked before it relies on one.\<close>

lemma senders_stay: "lock_step t s e s' \<Longrightarrow> sender_at s u \<noteq> None \<Longrightarrow> sender_at s' u \<noteq> None"
  by (erule lock_step.cases) auto

lemma relies_step:
  "lock_step t s e s' \<Longrightarrow> relies_on (point_of s' t) = Some u \<Longrightarrow> relies_on (point_of s t) = Some u \<or> sender_at s' u \<noteq> None"
  by (erule lock_step.cases) (auto split: if_splits)

lemma sender_thread_step:
  "lock_step (SenderThread u) s e s' \<Longrightarrow> runs (point_of s (SenderThread u)) \<Longrightarrow> sender_at s u \<noteq> None \<or> point_of s (SenderThread u) \<noteq> RunPop"
  by (erule lock_step.cases) auto

lemma senders_ok_step:
  assumes step: "lock_step t s e s'" and inv: "senders_ok s" and pl: "places_ok s"
  shows "senders_ok s'"
  unfolding senders_ok_def
proof (intro conjI allI impI)
  obtain p where p: "point_of s' = (point_of s)(t := p)" using step_moves [OF step] by blast
  fix v u assume "relies_on (point_of s' v) = Some u"
  then have "relies_on (point_of s v) = Some u \<or> sender_at s' u \<noteq> None"
    using relies_step [OF step, of u] p by (cases "v = t") auto
  then show "sender_at s' u \<noteq> None" using inv senders_stay [OF step] by (auto simp: senders_ok_def)
next
  obtain p where p: "point_of s' = (point_of s)(t := p)" using step_moves [OF step] by blast
  fix u assume "point_of s' (SenderThread u) \<noteq> RunPop"
  then have "point_of s (SenderThread u) \<noteq> RunPop \<or> t = SenderThread u" using p by (cases "t = SenderThread u") auto
  then have "sender_at s u \<noteq> None"
    using inv step pl sender_thread_step [of u s e s'] by (auto simp: senders_ok_def places_ok_def)
  then show "sender_at s' u \<noteq> None" by (rule senders_stay [OF step])
qed

text \<open>\<open>setFd\<close> needs the mutex that the delivery holds.\<close>

lemma socket_step:
  assumes "lock_step t s e s'" and "sender_at s u = Some sdr" and "sender_at s' u = Some sdr'"
  shows "sender_fd sdr' = sender_fd sdr \<or> (\<exists>fd. point_of s t = FdStore u fd)"
  using assms by (cases rule: lock_step.cases) (auto simp: addSendTask_def sender_Clear_def split: if_splits)

lemma socket_used_step:
  assumes "lock_step (SenderThread u) s e s'" and "runs (point_of s (SenderThread u))"
    and "socket_used (point_of s' (SenderThread u)) = Some fd" and "sender_at s' u = Some sdr"
  shows "sender_fd sdr = fd \<or> (socket_used (point_of s (SenderThread u)) = Some fd \<and> sender_at s u = Some sdr)"
  using assms by (cases rule: lock_step.cases) (auto split: if_splits)

lemma sockets_ok_step:
  assumes step: "lock_step t s e s'" and inv: "locks_inv s"
  shows "sockets_ok s'"
  unfolding sockets_ok_def
proof (intro allI impI)
  fix u fd sdr'
  assume used: "socket_used (point_of s' (SenderThread u)) = Some fd" and sdr': "sender_at s' u = Some sdr'"
  have own: "owners_ok s" and pl: "places_ok s" and sd: "senders_ok s" and so: "sockets_ok s"
    using inv by (simp_all add: locks_inv_def)
  show "sender_fd sdr' = fd"
  proof (cases "t = SenderThread u")
    case True
    have "lock_step (SenderThread u) s e s'" "runs (point_of s (SenderThread u))"
      using step pl by (simp_all add: True places_ok_def)
    from socket_used_step [OF this used sdr'] show ?thesis using so by (auto simp: sockets_ok_def)
  next
    case False
    then have used0: "socket_used (point_of s (SenderThread u)) = Some fd" using step_moves [OF step] used by auto
    then have "delivers (point_of s (SenderThread u))" by (cases "point_of s (SenderThread u)") simp_all
    then have mu: "sender_mu s u = Some (SenderThread u)"
      by (rule delivers_owns [OF own])
    have "point_of s (SenderThread u) \<noteq> RunPop" using used0 by auto
    then obtain sdr where sdr: "sender_at s u = Some sdr" using sd by (auto simp: senders_ok_def)
    then have "sender_fd sdr = fd" using so used0 by (simp add: sockets_ok_def)
    moreover have "point_of s t \<noteq> FdStore u fd'" for fd'
    proof
      assume "point_of s t = FdStore u fd'"
      then have "inside_sender t (point_of s t) = Some u" by simp
      then have "sender_mu s u = Some t" using own by (simp add: owners_ok_def)
      then show False using mu False by simp
    qed
    ultimately show ?thesis using socket_step [OF step sdr sdr'] by auto
  qed
qed

lemma locks_inv_step: "lock_step t s e s' \<Longrightarrow> locks_inv s \<Longrightarrow> locks_inv s'"
  using owners_ok_step [of t s e s'] places_ok_step [of t s e s'] senders_ok_step [of t s e s'] sockets_ok_step [of t s e s']
  by (simp add: locks_inv_def)

lemma lock_run_inv: "lock_run s es s' \<Longrightarrow> locks_inv s \<Longrightarrow> locks_inv s'"
  by (induction rule: lock_run.induct) (auto intro: locks_inv_step)

subsection \<open>Atomic for everybody else\<close>

text \<open>
  One effect after the other on the pool: a sender is opened as in \<open>Request_Steps\<close>, emptied, looked up;
  a packet is posted, or taken from the front; and what a delivery sees is the socket of the sender.
\<close>

inductive atomic_effect :: "'a Server \<Rightarrow> 'a pool_effect \<Rightarrow> 'a Server \<Rightarrow> bool" where
  "open_sender u fd s = (found, s') \<Longrightarrow> atomic_effect s (Opened u fd found) s'"
| "keepalive_sender_mp s u = Some sdr \<Longrightarrow>
    atomic_effect s (Emptied u) (s\<lparr>keepalive_sender_mp := (keepalive_sender_mp s)(u \<mapsto> sender_Clear sdr)\<rparr>)"
| "u \<noteq> 0 \<Longrightarrow> atomic_effect s (Looked u (getSender s u \<noteq> None)) s"
| "keepalive_sender_mp s u = Some sdr \<Longrightarrow>
    atomic_effect s (Posted u p) (s\<lparr>keepalive_sender_mp := (keepalive_sender_mp s)(u \<mapsto> addSendTask p sdr)\<rparr>)"
| "keepalive_sender_mp s u = Some sdr \<Longrightarrow> WaitAndPop (msg_queue sdr) = Some (p, q) \<Longrightarrow>
    atomic_effect s (Took u p) (set_queue u q s)"
| "keepalive_sender_mp s u = Some sdr \<Longrightarrow> atomic_effect s (Sent u p (sender_fd sdr)) s"
| "keepalive_sender_mp s u = Some sdr \<Longrightarrow> atomic_effect s (Received u (sender_fd sdr)) s"

inductive atomic_effects :: "'a Server \<Rightarrow> 'a pool_effect list \<Rightarrow> 'a Server \<Rightarrow> bool" where
  no_effect: "atomic_effects s [] s"
| next_effect: "atomic_effects s es s' \<Longrightarrow> atomic_effect s' e s'' \<Longrightarrow> atomic_effects s (es @ [e]) s''"

definition effects :: "(thread \<times> 'a pool_effect option) list \<Rightarrow> 'a pool_effect list" where
  "effects xs = concat (map (\<lambda>(t, e). case e of None \<Rightarrow> [] | Some x \<Rightarrow> [x]) xs)"

lemma effects_snoc [simp]: "effects [] = []" "effects (xs @ [(t, None)]) = effects xs"
  "effects (xs @ [(t, Some e)]) = effects xs @ [e]"
  by (simp_all add: effects_def)

definition looks_ok :: "'a lock_state \<Rightarrow> bool" where
  "looks_ok s \<longleftrightarrow> (\<forall>t u. point_of s t = GetEnter u \<or> point_of s t = GetFind u \<longrightarrow> u \<noteq> 0)"

lemma looks_ok_step: "lock_step t s e s' \<Longrightarrow> looks_ok s \<Longrightarrow> looks_ok s'"
  by (erule lock_step.cases) (auto simp: looks_ok_def split: if_splits)

lemma silent_lock_step: "lock_step t s None s' \<Longrightarrow> pools s' = pools s"
  by (erule lock_step.cases) auto

lemma effect_lock_step:
  assumes "lock_step t s (Some e) s'" and "looks_ok s"
  shows "atomic_effect (pools s) e (pools s')"
  using assms(1)
proof cases
  case (set_make u fd)
  then have "open_sender u fd (pools s) = (False, pools s')" by (simp add: open_sender_def put_sender_def)
  then show ?thesis unfolding set_make by (rule atomic_effect.intros(1))
next
  case (fd_store u fd sdr)
  then have "open_sender u fd (pools s) = (True, pools s')" by (simp add: open_sender_def put_sender_def)
  then show ?thesis unfolding fd_store by (rule atomic_effect.intros(1))
next
  case (set_clear u sdr)
  then show ?thesis using atomic_effect.intros(2) [of "pools s" u sdr] by (simp add: put_sender_def)
next
  case (get_find u)
  then have "u \<noteq> 0" using assms(2) by (auto simp: looks_ok_def)
  then show ?thesis using atomic_effect.intros(3) [of u "pools s"] get_find by (simp add: getSender_def)
next
  case (pointer_used u sdr p)
  then show ?thesis using atomic_effect.intros(4) [of "pools s" u sdr p] by (simp add: put_sender_def)
next
  case (run_pop u sdr p q)
  then show ?thesis using atomic_effect.intros(5) [of "pools s" u sdr p q] by (simp add: put_sender_def set_queue_def)
next
  case (run_send u p sdr)
  then show ?thesis using atomic_effect.intros(6) [of "pools s" u sdr p] by simp
next
  case (run_receive u fd sdr)
  then show ?thesis using atomic_effect.intros(7) [of "pools s" u sdr] by simp
qed

lemma lock_run_atomic:
  "lock_run s xs s' \<Longrightarrow> looks_ok s \<Longrightarrow> looks_ok s' \<and> atomic_effects (pools s) (effects xs) (pools s')"
proof (induction rule: lock_run.induct)
  case (lock_start s)
  then show ?case by (simp add: no_effect)
next
  case (lock_next s xs s' t e s'')
  then have IH: "looks_ok s'" "atomic_effects (pools s) (effects xs) (pools s')" by simp_all
  show ?case
  proof (cases e)
    case None
    then show ?thesis using IH lock_next.hyps(2) looks_ok_step silent_lock_step by fastforce
  next
    case (Some x)
    then have step: "lock_step t s' (Some x) s''" using lock_next.hyps(2) by simp
    from next_effect [OF IH(2) effect_lock_step [OF step IH(1)]] looks_ok_step [OF step IH(1)] show ?thesis
      by (simp add: Some)
  qed
qed

subsection \<open>Somebody can go on\<close>

text \<open>A worker inside, or a thread with a packet, waits for nothing but a mutex.\<close>

lemma goes_on_or_waits:
  assumes inv: "locks_inv s" and "point_of s t \<noteq> Elsewhere" and "point_of s t \<noteq> RunPop"
  shows "(\<exists>e s'. lock_step t s e s') \<or>
    (pool_mu s \<noteq> None \<and> (\<exists>u. point_of s t = GetEnter u \<or> (\<exists>fd. point_of s t = SetEnter u fd))) \<or>
    (\<exists>u. sender_mu s u \<noteq> None \<and>
      ((\<exists>fd. point_of s t = FdEnter u fd) \<or> t = SenderThread u \<and> (\<exists>p. point_of s t = RunEnter p)))"
proof -
  have places: "places_ok s" and senders: "senders_ok s" using inv by (simp_all add: locks_inv_def)
  have there: "\<exists>sdr. sender_at s u = Some sdr" if "relies_on (point_of s t) = Some u" for u
    using senders that by (auto simp: senders_ok_def)
  have thread: "\<exists>u sdr. t = SenderThread u \<and> sender_at s u = Some sdr" if "runs (point_of s t)"
    using that assms(3) places senders by (cases t) (auto simp: places_ok_def senders_ok_def)
  show ?thesis
  proof (cases "point_of s t")
    case (SetEnter u fd) then show ?thesis using lock_step.set_enter [of s t u fd] by (cases "pool_mu s") auto
  next
    case (SetFind u fd) then show ?thesis
      using lock_step.set_make [of s t u fd] lock_step.set_found [of s t u fd] by (cases "sender_at s u") auto
  next
    case (FdEnter u fd) then show ?thesis using lock_step.fd_enter [of s t u fd] by (cases "sender_mu s u") auto
  next
    case (FdStore u fd) then show ?thesis using there [of u] lock_step.fd_store [of s t u fd] by auto
  next
    case (FdLeave u) then show ?thesis using lock_step.fd_leave [of s t u] by auto
  next
    case (SetClear u) then show ?thesis using there [of u] lock_step.set_clear [of s t u] by auto
  next
    case SetLeave then show ?thesis using lock_step.set_leave [of s t] by auto
  next
    case (GetEnter u) then show ?thesis using lock_step.get_enter [of s t u] by (cases "pool_mu s") auto
  next
    case (GetFind u) then show ?thesis using lock_step.get_find [of s t u] by auto
  next
    case (GetLeave u found) then show ?thesis using lock_step.get_leave [of s t u found] by auto
  next
    case (HasPointer u) then show ?thesis using lock_step.pointer_unused [of s t u] by auto
  next
    case (RunEnter p)
    then obtain u sdr where u: "t = SenderThread u" "sender_at s u = Some sdr" using thread by auto
    then show ?thesis using RunEnter lock_step.run_enter [of s u p] by (cases "sender_mu s u") auto
  next
    case (RunSend p)
    then obtain u sdr where u: "t = SenderThread u" "sender_at s u = Some sdr" using thread by auto
    then show ?thesis using RunSend lock_step.run_send [of s u p sdr] by auto
  next
    case (RunReceive fd)
    then obtain u sdr where u: "t = SenderThread u" "sender_at s u = Some sdr" using thread by auto
    then show ?thesis using RunReceive lock_step.run_receive [of s u fd sdr] by auto
  next
    case (RunLeave fd)
    then obtain u sdr where u: "t = SenderThread u" "sender_at s u = Some sdr" using thread by auto
    then show ?thesis using RunLeave lock_step.run_leave [of s u fd] by auto
  qed (use assms in simp_all)
qed

definition busy :: "'a lock_state \<Rightarrow> thread \<Rightarrow> bool" where
  "busy s t \<longleftrightarrow> point_of s t \<noteq> Elsewhere \<and> point_of s t \<noteq> RunPop"

lemma sender_owner_goes_on:
  assumes inv: "locks_inv s" and mu: "sender_mu s u = Some t"
  shows "busy s t \<and> (\<exists>e s'. lock_step t s e s')"
proof -
  have inside: "inside_sender t (point_of s t) = Some u" using inv mu by (simp add: locks_inv_def owners_ok_def)
  then have "busy s t" by (cases t) (auto simp: busy_def)
  moreover have "\<exists>e s'. lock_step t s e s'"
    using goes_on_or_waits [OF inv, of t] inside calculation by (cases t) (auto simp: busy_def)
  ultimately show ?thesis ..
qed

lemma pool_owner_goes_on:
  assumes inv: "locks_inv s" and mu: "pool_mu s = Some t"
  shows "\<exists>t'. busy s t' \<and> (\<exists>e s'. lock_step t' s e s')"
proof -
  have inside: "inside_pool (point_of s t)" using inv mu by (simp add: locks_inv_def owners_ok_def)
  then have b: "point_of s t \<noteq> Elsewhere" "point_of s t \<noteq> RunPop" by auto
  from goes_on_or_waits [OF inv this] inside have "(\<exists>e s'. lock_step t s e s') \<or> (\<exists>u t'. sender_mu s u = Some t')" by auto
  then show ?thesis using b sender_owner_goes_on [OF inv] unfolding busy_def by blast
qed

lemma somebody_goes_on:
  assumes inv: "locks_inv s" and t: "busy s t"
  shows "\<exists>t'. busy s t' \<and> (\<exists>e s'. lock_step t' s e s')"
proof -
  have "(\<exists>e s'. lock_step t s e s') \<or> (\<exists>h. pool_mu s = Some h) \<or> (\<exists>u h. sender_mu s u = Some h)"
    using goes_on_or_waits [OF inv, of t] t by (auto simp: busy_def)
  then show ?thesis using t pool_owner_goes_on [OF inv] sender_owner_goes_on [OF inv] by blast
qed

subsection \<open>Who waits for a delivery\<close>

text \<open>A worker that holds the mutex of the pool and waits for that of a sender, which delivers.\<close>

definition stalled :: "thread \<Rightarrow> int32 \<Rightarrow> int32 \<Rightarrow> 'a lock_state \<Rightarrow> bool" where
  "stalled t u fd s \<longleftrightarrow> locks_inv s \<and> point_of s t = FdEnter u fd \<and> delivers (point_of s (SenderThread u))"

lemma stalled_owners:
  assumes "stalled t u fd s"
  shows "pool_mu s = Some t" and "sender_mu s u = Some (SenderThread u)"
proof -
  have own: "owners_ok s" using assms by (simp add: stalled_def locks_inv_def)
  have "inside_pool (point_of s t)" using assms by (simp add: stalled_def)
  then show "pool_mu s = Some t" using own by (simp add: owners_ok_def)
  show "sender_mu s u = Some (SenderThread u)" using assms by (intro delivers_owns [OF own]) (simp add: stalled_def)
qed

text \<open>Only the queues and the sockets can be used then.\<close>

fun queue_effect :: "'a pool_effect \<Rightarrow> bool" where
  "queue_effect (Posted v p) = True"
| "queue_effect (Took v p) = True"
| "queue_effect (Sent v p fd) = True"
| "queue_effect (Received v fd) = True"
| "queue_effect _ = False"

lemma stalled_step:
  assumes st: "stalled t u fd s" and step: "lock_step t' s e s'" and other: "t' \<noteq> SenderThread u"
  shows "stalled t u fd s' \<and> (\<forall>x. e = Some x \<longrightarrow> queue_effect x) \<and>
    (\<forall>v g. (point_of s t' \<noteq> GetEnter v) \<and> point_of s t' \<noteq> SetEnter v g)"
proof -
  have mu: "pool_mu s = Some t" "sender_mu s u = Some (SenderThread u)" by (rule stalled_owners [OF st])+
  have inv: "locks_inv s" using st by (simp add: stalled_def)
  have t: "t' \<noteq> t" using step st mu by (auto simp: stalled_def elim: lock_step.cases)
  have out: "\<not> inside_pool (point_of s t')" using inv mu t by (simp add: locks_inv_def owners_ok_def)
  have "stalled t u fd s'"
    using step_moves [OF step] locks_inv_step [OF step inv] st t other by (auto simp: stalled_def)
  moreover have "\<forall>x. e = Some x \<longrightarrow> queue_effect x" using step out by (auto elim: lock_step.cases)
  moreover have "\<forall>v g. (point_of s t' \<noteq> GetEnter v) \<and> point_of s t' \<noteq> SetEnter v g"
    using step mu by (auto elim: lock_step.cases)
  ultimately show ?thesis by blast
qed

lemma stalled_run:
  assumes "lock_run s ys s'" and "stalled t u fd s" and "\<forall>(t', e) \<in> set ys. t' \<noteq> SenderThread u"
  shows "stalled t u fd s' \<and> (\<forall>x \<in> set (effects ys). queue_effect x) \<and>
    (\<forall>t' v g. point_of s t' = GetEnter v \<or> point_of s t' = SetEnter v g \<longrightarrow> point_of s' t' = point_of s t')"
  using assms
proof (induction rule: lock_run.induct)
  case (lock_start s)
  then show ?case by simp
next
  case (lock_next s ys s' t' e s'')
  then have IH: "stalled t u fd s'" "\<forall>x \<in> set (effects ys). queue_effect x"
    "\<forall>t' v g. point_of s t' = GetEnter v \<or> point_of s t' = SetEnter v g \<longrightarrow> point_of s' t' = point_of s t'"
    and other: "t' \<noteq> SenderThread u" by auto
  note new = stalled_step [OF IH(1) lock_next.hyps(2) other]
  have "\<forall>x \<in> set (effects (ys @ [(t', e)])). queue_effect x" using new IH(2) by (cases e) auto
  moreover obtain p where p: "point_of s'' = (point_of s')(t' := p)" using step_moves [OF lock_next.hyps(2)] by blast
  have "point_of s'' a = point_of s a" if "point_of s a = GetEnter v \<or> point_of s a = SetEnter v g" for a v g
  proof -
    have "point_of s' a = point_of s a" using IH(3) that by blast
    moreover from this have "a \<noteq> t'" using new that by metis
    ultimately show ?thesis using p by simp
  qed
  ultimately show ?case using new by blast
qed

subsection \<open>An example\<close>

text \<open>
  A packet for user 1 is delivered on socket 5 while a worker opens the channel of the user again, on
  socket 8, and another worker asks for the sender of user 2.
\<close>

definition one_sender :: "string Server" where
  "one_sender = post_to 1 default_Packet (setKpAliveSender 1 5 empty_Server)"

lemma one_sender_at: "\<exists>sdr. keepalive_sender_mp one_sender 1 = Some sdr \<and> items (msg_queue sdr) = [default_Packet]"
  by (simp add: one_sender_def post_to_def getSender_def setKpAliveSender_def empty_Server_def make_sender_def
      addSendTask_def Push_def empty_queue_def)

lemma stall_example:
  "\<exists>xs s. lock_run (all_outside one_sender) xs s \<and> point_of s (Worker 0) = FdEnter 1 8 \<and>
     delivers (point_of s (SenderThread 1)) \<and> point_of s (Worker 1) = GetEnter 2 \<and>
     point_of s (Worker 2) = Elsewhere \<and> effects xs = [Took 1 default_Packet]"
proof -
  let ?c = "SenderThread 1" and ?w = "Worker 0" and ?p = "default_Packet :: string Packet"
  obtain sdr where sdr: "keepalive_sender_mp one_sender 1 = Some sdr" "items (msg_queue sdr) = [?p]"
    using one_sender_at by blast
  let ?s0 = "all_outside one_sender"
  let ?s1 = "move ?c (RunEnter ?p) (put_sender 1 (sdr\<lparr>msg_queue := \<lparr>items = []\<rparr>\<rparr>) ?s0)"
  let ?s2 = "move ?c (RunSend ?p) (lock_sender 1 ?c ?s1)"
  let ?s3 = "move ?w (SetEnter 1 8) ?s2"
  let ?s4 = "move ?w (SetFind 1 8) (lock_pool ?w ?s3)"
  let ?s5 = "move ?w (FdEnter 1 8) ?s4"
  let ?s6 = "move (Worker 1) (GetEnter 2) ?s5"
  have start: "pool_mu ?s0 = None" "sender_mu ?s0 1 = None" "sender_at ?s0 1 = Some sdr" "point_of ?s0 ?c = RunPop"
    "point_of ?s0 (Worker n) = Elsewhere" for n using sdr by (simp_all add: all_outside_def)
  have pop: "WaitAndPop (msg_queue sdr) = Some (?p, \<lparr>items = []\<rparr>)" using sdr(2) by (simp add: WaitAndPop_Some_iff)
  have "lock_run ?s0 ([] @ [(?c, Some (Took 1 ?p))]) ?s1"
    by (rule lock_next [OF lock_start], rule lock_step.run_pop [OF _ _ pop]) (simp_all add: start)
  then have "lock_run ?s0 (([] @ [(?c, Some (Took 1 ?p))]) @ [(?c, None)]) ?s2"
    by (rule lock_next, intro lock_step.run_enter) (simp_all add: start)
  then have "lock_run ?s0 ((([] @ [(?c, Some (Took 1 ?p))]) @ [(?c, None)]) @ [(?w, None)]) ?s3"
    by (rule lock_next, intro lock_step.set_call) (simp_all add: start)
  then have "lock_run ?s0 (((([] @ [(?c, Some (Took 1 ?p))]) @ [(?c, None)]) @ [(?w, None)]) @ [(?w, None)]) ?s4"
    by (rule lock_next, intro lock_step.set_enter) (simp_all add: start)
  then have "lock_run ?s0 ((((([] @ [(?c, Some (Took 1 ?p))]) @ [(?c, None)]) @ [(?w, None)]) @ [(?w, None)]) @
      [(?w, None)]) ?s5"
    by (rule lock_next, intro lock_step.set_found) (simp_all add: start)
  then have run: "lock_run ?s0 (((((([] @ [(?c, Some (Took 1 ?p))]) @ [(?c, None)]) @ [(?w, None)]) @ [(?w, None)]) @
      [(?w, None)]) @ [(Worker 1, None)]) ?s6"
    by (rule lock_next, intro lock_step.get_call) (simp_all add: start)
  show ?thesis
    by (rule exI, rule exI, intro conjI, rule run) (simp_all add: start effects_def)
qed

subsection \<open>Properties\<close>

text \<open>
  C34: Whatever threads are inside \<open>setKpAliveSender\<close>, \<open>getSender\<close> and \<open>run\<close>, and in whatever order they get the
  mutexes: at most one holds each mutex; what they do to the pool is what the atomic steps of
  \<open>Request_Steps\<close> do, one after the other; the socket of a sender does not change during a delivery;
  and there is no deadlock: when a thread is inside, or has a packet, some such thread can go on.
\<close>

theorem channel_locks_correct:
  assumes run: "lock_run (all_outside s0) xs s"
  shows "(\<forall>t t'. inside_pool (point_of s t) \<longrightarrow> inside_pool (point_of s t') \<longrightarrow> t' = t) \<and>
    (\<forall>t t' u. inside_sender t (point_of s t) = Some u \<longrightarrow> inside_sender t' (point_of s t') = Some u \<longrightarrow> t' = t) \<and>
    atomic_effects s0 (effects xs) (pools s) \<and>
    (\<forall>u fd. socket_used (point_of s (SenderThread u)) = Some fd \<longrightarrow>
      (\<exists>sdr. sender_at s u = Some sdr \<and> sender_fd sdr = fd)) \<and>
    (\<forall>t. busy s t \<longrightarrow> (\<exists>t'. busy s t' \<and> (\<exists>e s'. lock_step t' s e s')))"
proof (intro conjI)
  have inv: "locks_inv s" by (rule lock_run_inv [OF run locks_inv_start])
  then have own: "owners_ok s" and sd: "senders_ok s" and so: "sockets_ok s" by (simp_all add: locks_inv_def)
  show "\<forall>t t'. inside_pool (point_of s t) \<longrightarrow> inside_pool (point_of s t') \<longrightarrow> t' = t"
    using own by (simp add: owners_ok_def)
  show "\<forall>t t' u. inside_sender t (point_of s t) = Some u \<longrightarrow> inside_sender t' (point_of s t') = Some u \<longrightarrow> t' = t"
    using own by (simp add: owners_ok_def)
  have "looks_ok (all_outside s0)" by (simp add: looks_ok_def all_outside_def split: thread.split)
  from lock_run_atomic [OF run this] show "atomic_effects s0 (effects xs) (pools s)" by (simp add: all_outside_def)
  show "\<forall>u fd. socket_used (point_of s (SenderThread u)) = Some fd \<longrightarrow>
      (\<exists>sdr. sender_at s u = Some sdr \<and> sender_fd sdr = fd)"
  proof (intro allI impI)
    fix u fd assume used: "socket_used (point_of s (SenderThread u)) = Some fd"
    then have "point_of s (SenderThread u) \<noteq> RunPop" by auto
    then obtain sdr where "sender_at s u = Some sdr" using sd by (auto simp: senders_ok_def)
    then show "\<exists>sdr. sender_at s u = Some sdr \<and> sender_fd sdr = fd" using so used by (simp add: sockets_ok_def)
  qed
  show "\<forall>t. busy s t \<longrightarrow> (\<exists>t'. busy s t' \<and> (\<exists>e s'. lock_step t' s e s'))" using somebody_goes_on [OF inv] by blast
qed

theorem channel_locks_correct_witness:
  "\<exists>xs s t. lock_run (all_outside one_sender) xs s \<and> busy s (Worker 1) \<and>
     atomic_effects one_sender [Took 1 default_Packet] (pools s) \<and> busy s t \<and> (\<exists>e s'. lock_step t s e s')"
proof -
  obtain xs s where run: "lock_run (all_outside one_sender) xs s" and p: "point_of s (Worker 1) = GetEnter 2"
    and e: "effects xs = [Took 1 default_Packet]" using stall_example by blast
  have "busy s (Worker 1)" using p by (simp add: busy_def)
  with channel_locks_correct [OF run] run show ?thesis unfolding e by blast
qed

text \<open>
  C35: While the packet of a user is delivered (which includes a pause of three seconds), a worker that opens
  the channel of this user again holds the mutex of the whole pool: whatever the other threads do, no
  worker looks up, opens or empties a sender, of any user, before the delivery ends.
\<close>

theorem delivery_stalls_pool:
  assumes run: "lock_run (all_outside s0) xs s" and deliver: "delivers (point_of s (SenderThread u))"
    and opens: "point_of s t = FdEnter u fd"
    and more_steps: "lock_run s ys s'" and undelivered: "\<forall>(t', e) \<in> set ys. t' \<noteq> SenderThread u"
  shows "point_of s' t = FdEnter u fd \<and> (\<forall>x \<in> set (effects ys). queue_effect x) \<and>
    (\<forall>t' v g. point_of s t' = GetEnter v \<or> point_of s t' = SetEnter v g \<longrightarrow> point_of s' t' = point_of s t')"
proof -
  have "locks_inv s" by (rule lock_run_inv [OF run locks_inv_start])
  then have "stalled t u fd s" using deliver opens by (simp add: stalled_def)
  from stalled_run [OF more_steps this undelivered] show ?thesis by (simp add: stalled_def)
qed

theorem delivery_stalls_pool_witness:
  "\<exists>xs s s'. lock_run (all_outside one_sender) xs s \<and> lock_step (Worker 2) s None s' \<and>
     point_of s' (Worker 0) = FdEnter 1 8 \<and> point_of s' (Worker 1) = GetEnter 2"
proof -
  obtain xs s where run: "lock_run (all_outside one_sender) xs s" and w: "point_of s (Worker 0) = FdEnter 1 8"
    and d: "delivers (point_of s (SenderThread 1))" and g: "point_of s (Worker 1) = GetEnter 2"
    and free: "point_of s (Worker 2) = Elsewhere" using stall_example by blast
  let ?s' = "move (Worker 2) (GetEnter 3) s"
  have step: "lock_step (Worker 2) s None ?s'" by (rule lock_step.get_call [OF free]) simp
  have "lock_run s ([] @ [(Worker 2, None)]) ?s'" by (rule lock_next [OF lock_start step])
  from delivery_stalls_pool [OF run d w this] g have "point_of ?s' (Worker 0) = FdEnter 1 8"
    "point_of ?s' (Worker 1) = GetEnter 2" by auto
  with run step show ?thesis by blast
qed

end
