(* ===== verification/Queue_Threads.thy ===== *)
theory Queue_Threads
  imports Threadsafe_Queue
begin

text \<open>
  \<open>include/threadsafe_queue.h\<close> once more, statement by statement: any number of threads inside \<open>Push\<close>,
  \<open>WaitAndPop\<close> and \<open>Clear\<close>, the mutex, and the condition variable with its spurious wake-ups. That
  each operation may be taken as one atomic step, as everywhere else, is proved here, and that no
  wake-up is lost.
\<close>

subsection \<open>Threads inside the operations\<close>

text \<open>
  Where a thread stands. The mutex is held from \<open>PushQueue\<close> to \<open>PushUnlock\<close>, from \<open>PopCheck\<close> to
  \<open>PopUnlock\<close> except in between while the thread sleeps in \<open>cond_.wait\<close>, and from \<open>ClearLoop\<close> to
  \<open>ClearUnlock\<close>.
\<close>

datatype 'a pc =
    Outside
  | PushLock 'a | PushQueue 'a | PushUnlock | PushNotify
  | PopLock | PopCheck | PopAsleep | PopWoken | PopFront | PopUnlock 'a
  | ClearLock | ClearLoop | ClearUnlock

record ('t, 'a) queue_threads =
  mu_owner :: "'t option"
  the_queue :: "'a ThreadsafeQueue"
  pc_of :: "'t \<Rightarrow> 'a pc"

definition goto :: "'t \<Rightarrow> 'a pc \<Rightarrow> ('t, 'a) queue_threads \<Rightarrow> ('t, 'a) queue_threads" where
  "goto t p s = s\<lparr>pc_of := (pc_of s)(t := p)\<rparr>"

definition lock :: "'t \<Rightarrow> ('t, 'a) queue_threads \<Rightarrow> ('t, 'a) queue_threads" where
  "lock t s = s\<lparr>mu_owner := Some t\<rparr>"

definition unlock :: "('t, 'a) queue_threads \<Rightarrow> ('t, 'a) queue_threads" where
  "unlock s = s\<lparr>mu_owner := None\<rparr>"

definition on_queue :: "('a list \<Rightarrow> 'a list) \<Rightarrow> ('t, 'a) queue_threads \<Rightarrow> ('t, 'a) queue_threads" where
  "on_queue f s = s\<lparr>the_queue := (the_queue s)\<lparr>items := f (items (the_queue s))\<rparr>\<rparr>"

definition notify_all :: "('t, 'a) queue_threads \<Rightarrow> ('t, 'a) queue_threads" where
  "notify_all s = s\<lparr>pc_of := (\<lambda>t. if pc_of s t = PopAsleep then PopWoken else pc_of s t)\<rparr>"

lemma effects_sel [simp]:
  "pc_of (goto t p s) = (pc_of s)(t := p)" "mu_owner (goto t p s) = mu_owner s" "the_queue (goto t p s) = the_queue s"
  "pc_of (lock t s) = pc_of s" "mu_owner (lock t s) = Some t" "the_queue (lock t s) = the_queue s"
  "pc_of (unlock s) = pc_of s" "mu_owner (unlock s) = None" "the_queue (unlock s) = the_queue s"
  "pc_of (on_queue f s) = pc_of s" "mu_owner (on_queue f s) = mu_owner s"
  "items (the_queue (on_queue f s)) = f (items (the_queue s))"
  "mu_owner (notify_all s) = mu_owner s" "the_queue (notify_all s) = the_queue s"
  "pc_of (notify_all s) t = (if pc_of s t = PopAsleep then PopWoken else pc_of s t)"
  by (simp_all add: goto_def lock_def unlock_def on_queue_def notify_all_def)

text \<open>
  A step of the thread \<open>t\<close>, with the operation and its result where it takes effect (\<open>None\<close> elsewhere).
  \<open>call\<close> begins an operation; \<open>spurious\<close> is the wake-up that the standard allows at any time.
\<close>

datatype 'a effect = Pushed 'a | Popped 'a | Cleared

inductive queue_step :: "'t \<Rightarrow> ('t, 'a) queue_threads \<Rightarrow> 'a effect option \<Rightarrow> ('t, 'a) queue_threads \<Rightarrow> bool" where
  push_call: "pc_of s t = Outside \<Longrightarrow> queue_step t s None (goto t (PushLock x) s)"
| push_lock: "pc_of s t = PushLock x \<Longrightarrow> mu_owner s = None \<Longrightarrow>
    queue_step t s None (goto t (PushQueue x) (lock t s))"
| push_queue: "pc_of s t = PushQueue x \<Longrightarrow>
    queue_step t s (Some (Pushed x)) (goto t PushUnlock (on_queue (\<lambda>xs. xs @ [x]) s))"
| push_unlock: "pc_of s t = PushUnlock \<Longrightarrow> queue_step t s None (goto t PushNotify (unlock s))"
| push_notify: "pc_of s t = PushNotify \<Longrightarrow> queue_step t s None (goto t Outside (notify_all s))"
| pop_call: "pc_of s t = Outside \<Longrightarrow> queue_step t s None (goto t PopLock s)"
| pop_lock: "pc_of s t = PopLock \<or> pc_of s t = PopWoken \<Longrightarrow> mu_owner s = None \<Longrightarrow>
    queue_step t s None (goto t PopCheck (lock t s))"
| pop_ready: "pc_of s t = PopCheck \<Longrightarrow> items (the_queue s) \<noteq> [] \<Longrightarrow> queue_step t s None (goto t PopFront s)"
| pop_sleep: "pc_of s t = PopCheck \<Longrightarrow> items (the_queue s) = [] \<Longrightarrow>
    queue_step t s None (goto t PopAsleep (unlock s))"
| spurious: "pc_of s t = PopAsleep \<Longrightarrow> queue_step t s None (goto t PopWoken s)"
| pop_front: "pc_of s t = PopFront \<Longrightarrow> items (the_queue s) = x # xs \<Longrightarrow>
    queue_step t s (Some (Popped x)) (goto t (PopUnlock x) (on_queue tl s))"
| pop_unlock: "pc_of s t = PopUnlock x \<Longrightarrow> queue_step t s None (goto t Outside (unlock s))"
| clear_call: "pc_of s t = Outside \<Longrightarrow> queue_step t s None (goto t ClearLock s)"
| clear_lock: "pc_of s t = ClearLock \<Longrightarrow> mu_owner s = None \<Longrightarrow>
    queue_step t s (Some Cleared) (goto t ClearLoop (lock t s))"
| clear_pop: "pc_of s t = ClearLoop \<Longrightarrow> items (the_queue s) \<noteq> [] \<Longrightarrow> queue_step t s None (on_queue tl s)"
| clear_end: "pc_of s t = ClearLoop \<Longrightarrow> items (the_queue s) = [] \<Longrightarrow> queue_step t s None (goto t ClearUnlock s)"
| clear_unlock: "pc_of s t = ClearUnlock \<Longrightarrow> queue_step t s None (goto t Outside (unlock s))"

inductive_cases queue_stepE: "queue_step t s l s'"

text \<open>A run, with its effects in order.\<close>

inductive queue_run :: "('t, 'a) queue_threads \<Rightarrow> 'a effect list \<Rightarrow> ('t, 'a) queue_threads \<Rightarrow> bool" where
  run_start: "queue_run s [] s"
| run_silent: "queue_run s es s' \<Longrightarrow> queue_step t s' None s'' \<Longrightarrow> queue_run s es s''"
| run_effect: "queue_run s es s' \<Longrightarrow> queue_step t s' (Some e) s'' \<Longrightarrow> queue_run s (es @ [e]) s''"

definition unused :: "'a ThreadsafeQueue \<Rightarrow> ('t, 'a) queue_threads" where
  "unused q = \<lparr>mu_owner = None, the_queue = q, pc_of = (\<lambda>_. Outside)\<rparr>"

subsection \<open>The invariant\<close>

fun holds_mutex :: "'a pc \<Rightarrow> bool" where
  "holds_mutex (PushQueue x) = True"
| "holds_mutex PushUnlock = True"
| "holds_mutex PopCheck = True"
| "holds_mutex PopFront = True"
| "holds_mutex (PopUnlock x) = True"
| "holds_mutex ClearLoop = True"
| "holds_mutex ClearUnlock = True"
| "holds_mutex _ = False"

text \<open>
  The mutex belongs to the thread between locking and unlocking; \<open>front\<close> is called on a queue that is
  not empty; and when a thread sleeps although the queue is not empty, some thread that has pushed
  is still to notify.
\<close>

definition mutex_inv :: "('t, 'a) queue_threads \<Rightarrow> bool" where
  "mutex_inv s \<longleftrightarrow> (\<forall>t. holds_mutex (pc_of s t) \<longleftrightarrow> mu_owner s = Some t)"

definition front_inv :: "('t, 'a) queue_threads \<Rightarrow> bool" where
  "front_inv s \<longleftrightarrow> (\<forall>t. pc_of s t = PopFront \<longrightarrow> items (the_queue s) \<noteq> [])"

definition wake_inv :: "('t, 'a) queue_threads \<Rightarrow> bool" where
  "wake_inv s \<longleftrightarrow> (\<forall>t. pc_of s t = PopAsleep \<longrightarrow> items (the_queue s) \<noteq> [] \<longrightarrow>
     (\<exists>t'. pc_of s t' = PushUnlock \<or> pc_of s t' = PushNotify))"

definition queue_inv :: "('t, 'a) queue_threads \<Rightarrow> bool" where
  "queue_inv s \<longleftrightarrow> mutex_inv s \<and> front_inv s \<and> wake_inv s"

lemma queue_inv_unused: "queue_inv (unused q)"
  by (simp add: queue_inv_def mutex_inv_def front_inv_def wake_inv_def unused_def)

lemma mutex_unique:
  "mutex_inv s \<Longrightarrow> holds_mutex (pc_of s t) \<Longrightarrow> holds_mutex (pc_of s t') \<Longrightarrow> t' = t"
  unfolding mutex_inv_def by (metis option.inject)

lemma mutex_goto: "mutex_inv s \<Longrightarrow> holds_mutex p = holds_mutex (pc_of s t) \<Longrightarrow> mutex_inv (goto t p s)"
  by (simp add: mutex_inv_def)

lemma mutex_lock: "mutex_inv s \<Longrightarrow> mu_owner s = None \<Longrightarrow> holds_mutex p \<Longrightarrow> mutex_inv (goto t p (lock t s))"
  by (auto simp: mutex_inv_def)

lemma mutex_unlock:
  "mutex_inv s \<Longrightarrow> holds_mutex (pc_of s t) \<Longrightarrow> \<not> holds_mutex p \<Longrightarrow> mutex_inv (goto t p (unlock s))"
  by (auto simp: mutex_inv_def)

lemma mutex_queue [simp]: "mutex_inv (on_queue f s) = mutex_inv s"
  by (simp add: mutex_inv_def)

lemma mutex_notify: "mutex_inv s \<Longrightarrow> mutex_inv (notify_all s)"
proof (unfold mutex_inv_def, intro allI)
  fix t assume "\<forall>t. holds_mutex (pc_of s t) \<longleftrightarrow> mu_owner s = Some t"
  then have "holds_mutex (pc_of s t) \<longleftrightarrow> mu_owner s = Some t" by blast
  then show "holds_mutex (pc_of (notify_all s) t) \<longleftrightarrow> mu_owner (notify_all s) = Some t" by auto
qed

lemma mutex_inv_step:
  assumes "queue_step t s l s'" and "mutex_inv s" shows "mutex_inv s'"
  using assms
  by (cases rule: queue_step.cases)
    (auto intro: mutex_lock mutex_unlock mutex_goto mutex_notify)

text \<open>Only the owner of the mutex takes elements out, so \<open>front\<close> finds one.\<close>

lemma front_alone:
  "mutex_inv s \<Longrightarrow> pc_of s t = PopFront \<Longrightarrow> pc_of s t' = PopFront \<Longrightarrow> t' = t"
  "mutex_inv s \<Longrightarrow> pc_of s t = ClearLoop \<Longrightarrow> pc_of s t' \<noteq> PopFront"
  using mutex_unique [of s t t'] by auto

lemma front_inv_step:
  assumes "queue_step t s l s'" and "mutex_inv s" and "front_inv s" shows "front_inv s'"
  using assms
  by (cases rule: queue_step.cases)
    (auto simp: front_inv_def dest: front_alone split: if_splits)

text \<open>
  A thread goes to sleep only when the queue is empty, and whoever makes it non-empty notifies.
\<close>

definition will_notify :: "'a pc \<Rightarrow> bool" where
  "will_notify p \<longleftrightarrow> p = PushUnlock \<or> p = PushNotify"

lemma wake_goto:
  assumes "wake_inv s" and "p = PopAsleep \<Longrightarrow> items (the_queue s) = []"
    and "will_notify (pc_of s t) \<Longrightarrow> will_notify p"
  shows "wake_inv (goto t p s)"
proof -
  have "\<exists>t'. will_notify (pc_of (goto t p s) t')"
    if a: "pc_of (goto t p s) u = PopAsleep" and q: "items (the_queue s) \<noteq> []" for u
  proof -
    have "pc_of s u = PopAsleep" using a q assms(2) by (auto split: if_splits)
    then obtain t' where "will_notify (pc_of s t')"
      using assms(1) q by (auto simp: wake_inv_def will_notify_def)
    then show ?thesis using assms(3) by (intro exI [of _ t']) auto
  qed
  then show ?thesis by (simp add: wake_inv_def will_notify_def)
qed

lemma wake_push: "wake_inv (goto t PushUnlock s)"
  unfolding wake_inv_def by auto

lemma wake_notify: "wake_inv (goto t Outside (notify_all s))"
  by (auto simp: wake_inv_def)

lemma wake_frame [simp]:
  "wake_inv (lock t s) = wake_inv s" "wake_inv (unlock s) = wake_inv s"
  "wake_inv s \<Longrightarrow> wake_inv (on_queue tl s)"
  by (auto simp: wake_inv_def)

lemma wake_inv_step:
  assumes "queue_step t s l s'" and "wake_inv s" shows "wake_inv s'"
  using assms
  by (cases rule: queue_step.cases)
    (auto intro!: wake_push wake_notify intro: wake_goto simp: will_notify_def)

lemma queue_inv_step: "queue_step t s l s' \<Longrightarrow> queue_inv s \<Longrightarrow> queue_inv s'"
  unfolding queue_inv_def by (blast intro: mutex_inv_step front_inv_step wake_inv_step)

lemma queue_run_inv: "queue_run s es s' \<Longrightarrow> queue_inv s \<Longrightarrow> queue_inv s'"
  by (induction rule: queue_run.induct) (auto intro: queue_inv_step)

subsection \<open>Each operation is one atomic step\<close>

text \<open>
  What the queue holds for everybody else: while a thread is in the loop of \<open>Clear\<close>, which nobody can
  observe half done, nothing.
\<close>

definition clearing :: "('t, 'a) queue_threads \<Rightarrow> bool" where
  "clearing s \<longleftrightarrow> (\<exists>t. pc_of s t = ClearLoop)"

definition contents_of :: "('t, 'a) queue_threads \<Rightarrow> 'a list" where
  "contents_of s = (if clearing s then [] else items (the_queue s))"

fun op_of :: "'a effect \<Rightarrow> 'a queue_op" where
  "op_of (Pushed x) = DoPush x"
| "op_of (Popped x) = DoPop"
| "op_of Cleared = DoClear"

fun popped :: "'a effect list \<Rightarrow> 'a list" where
  "popped [] = []"
| "popped (Popped x # es) = x # popped es"
| "popped (_ # es) = popped es"

lemma popped_append [simp]: "popped (es @ fs) = popped es @ popped fs"
  by (induction es rule: popped.induct) auto

lemma run_ops_append:
  "run_ops push pop clear (ops @ ops') q = (case run_ops push pop clear ops q of (out, q1) \<Rightarrow>
     (case run_ops push pop clear ops' q1 of (out', q2) \<Rightarrow> (out @ out', q2)))"
  by (induction push pop clear ops q rule: run_ops.induct) (auto split: option.splits prod.splits)

lemma clearing_goto:
  "p \<noteq> ClearLoop \<Longrightarrow> pc_of s t \<noteq> ClearLoop \<Longrightarrow> clearing (goto t p s) = clearing s"
  by (auto simp: clearing_def)

lemma clearing_frame [simp]:
  "clearing (lock t s) = clearing s" "clearing (unlock s) = clearing s" "clearing (on_queue f s) = clearing s"
  by (simp_all add: clearing_def)

lemma clearing_notify [simp]: "clearing (notify_all s) = clearing s"
proof -
  have "pc_of (notify_all s) t = ClearLoop \<longleftrightarrow> pc_of s t = ClearLoop" for t by auto
  then show ?thesis by (simp only: clearing_def)
qed

lemma holder_clears: "mutex_inv s \<Longrightarrow> holds_mutex (pc_of s t) \<Longrightarrow> clearing s \<longleftrightarrow> pc_of s t = ClearLoop"
  unfolding clearing_def by (metis holds_mutex.simps(6) mutex_unique)

lemma silent_step:
  assumes "queue_step t s None s'" and "mutex_inv s"
  shows "contents_of s' = contents_of s"
  using assms
proof cases
  case (clear_pop)
  then show ?thesis by (auto simp: contents_of_def clearing_def)
next
  case (clear_end)
  then show ?thesis by (auto simp: contents_of_def clearing_def)
qed (auto simp: contents_of_def clearing_goto)

lemma effect_step:
  assumes "queue_step t s (Some e) s'" and inv: "mutex_inv s"
  shows "case e of Pushed x \<Rightarrow> contents_of s' = contents_of s @ [x]
    | Popped x \<Rightarrow> contents_of s = x # contents_of s' | Cleared \<Rightarrow> contents_of s' = []"
  using assms(1)
proof cases
  case (push_queue x)
  then show ?thesis using holder_clears [OF inv, of t] by (auto simp: contents_of_def clearing_goto)
next
  case (pop_front x xs)
  then show ?thesis using holder_clears [OF inv, of t] by (auto simp: contents_of_def clearing_goto)
next
  case clear_lock
  then show ?thesis by (auto simp: contents_of_def clearing_def)
qed

lemma run_ops_effect:
  assumes "case e of Pushed x \<Rightarrow> items q' = items q @ [x]
    | Popped x \<Rightarrow> items q = x # items q' | Cleared \<Rightarrow> items q' = []"
  shows "run_ops Push WaitAndPop Clear [op_of e] q = (popped [e], q')"
  using assms by (cases e; cases q; cases q') (simp_all add: Push_def WaitAndPop_def)

lemma queue_run_ops:
  assumes "queue_run s0 es s" and "queue_inv s0" and "contents_of s0 = items q"
  shows "run_ops Push WaitAndPop Clear (map op_of es) q = (popped es, \<lparr>items = contents_of s\<rparr>)"
  using assms
proof (induction rule: queue_run.induct)
  case (run_start s)
  then show ?case by (cases q) simp
next
  case (run_silent s es s' t s'')
  then have "mutex_inv s'" using queue_run_inv by (auto simp: queue_inv_def)
  then show ?case using run_silent silent_step [of t s' s''] by simp
next
  case (run_effect s es s' t e s'')
  have "mutex_inv s'" using queue_run_inv run_effect by (auto simp: queue_inv_def)
  from effect_step [OF run_effect(2) this]
  have "run_ops Push WaitAndPop Clear [op_of e] \<lparr>items = contents_of s'\<rparr> = (popped [e], \<lparr>items = contents_of s''\<rparr>)"
    by (intro run_ops_effect) (auto split: effect.splits)
  then show ?case using run_effect by (simp add: run_ops_append del: Clear_eq)
qed

subsection \<open>Somebody can go on\<close>

lemma owner_goes_on:
  assumes "front_inv s" and "holds_mutex (pc_of s t)"
  shows "\<exists>l s'. queue_step t s l s'"
  using assms(2)
proof (cases "pc_of s t")
  case PopFront
  then obtain x xs where "items (the_queue s) = x # xs"
    using assms(1) by (auto simp: front_inv_def neq_Nil_conv)
  then show ?thesis using PopFront by (blast intro: queue_step.pop_front)
qed (simp_all, (blast intro: queue_step.intros)+)

lemma others_go_on:
  assumes "mu_owner s = None" and "\<not> holds_mutex (pc_of s t)" and "pc_of s t \<noteq> Outside" and "pc_of s t \<noteq> PopAsleep"
  shows "\<exists>l s'. queue_step t s l s'"
  using assms by (cases "pc_of s t") (simp_all, (blast intro: queue_step.intros)+)

text \<open>An example: a thread waits, another pushes, the first wakes up and takes the element.\<close>

lemma unused_sel [simp]:
  "mu_owner (unused q) = None" "the_queue (unused q) = q" "pc_of (unused q) t = Outside"
  by (simp_all add: unused_def)

lemma wait_then_push:
  "\<exists>s. queue_run (unused empty_queue :: (nat, nat) queue_threads) [Pushed 7, Popped 7] s \<and>
     pc_of s 0 = PopUnlock 7 \<and> contents_of s = []"
proof -
  let ?s0 = "unused empty_queue :: (nat, nat) queue_threads"
  let ?s1 = "goto 0 PopLock ?s0"
  let ?s2 = "goto 0 PopCheck (lock 0 ?s1)"
  let ?s3 = "goto 0 PopAsleep (unlock ?s2)"
  let ?s4 = "goto 1 (PushLock 7) ?s3"
  let ?s5 = "goto 1 (PushQueue 7) (lock 1 ?s4)"
  let ?s6 = "goto 1 PushUnlock (on_queue (\<lambda>xs. xs @ [7]) ?s5)"
  let ?s7 = "goto 1 PushNotify (unlock ?s6)"
  let ?s8 = "goto 1 Outside (notify_all ?s7)"
  let ?s9 = "goto 0 PopCheck (lock 0 ?s8)"
  let ?s10 = "goto 0 PopFront ?s9"
  let ?s11 = "goto 0 (PopUnlock 7) (on_queue tl ?s10)"
  note silent = queue_run.run_silent
  have e: "items empty_queue = []" by (simp add: empty_queue_def)
  have "queue_run ?s0 [] ?s1" by (rule silent [OF queue_run.run_start queue_step.pop_call]) simp
  then have "queue_run ?s0 [] ?s2" by (rule silent [OF _ queue_step.pop_lock]) simp_all
  then have "queue_run ?s0 [] ?s3" by (rule silent [OF _ queue_step.pop_sleep]) (simp_all add: e)
  then have "queue_run ?s0 [] ?s4" by (rule silent [OF _ queue_step.push_call]) simp
  then have "queue_run ?s0 [] ?s5" by (rule silent [OF _ queue_step.push_lock]) simp_all
  then have "queue_run ?s0 ([] @ [Pushed 7]) ?s6" by (rule queue_run.run_effect [OF _ queue_step.push_queue]) simp
  then have "queue_run ?s0 [Pushed 7] ?s7" unfolding append_Nil by (rule silent [OF _ queue_step.push_unlock]) simp
  then have "queue_run ?s0 [Pushed 7] ?s8" by (rule silent [OF _ queue_step.push_notify]) simp
  then have "queue_run ?s0 [Pushed 7] ?s9" by (rule silent [OF _ queue_step.pop_lock]) simp_all
  then have "queue_run ?s0 [Pushed 7] ?s10" by (rule silent [OF _ queue_step.pop_ready]) (simp_all add: e)
  then have "queue_run ?s0 ([Pushed 7] @ [Popped 7]) ?s11"
    by (rule queue_run.run_effect [OF _ queue_step.pop_front]) (simp_all add: e)
  moreover have "contents_of ?s11 = []" by (simp add: contents_of_def e)
  ultimately show ?thesis by (intro exI [of _ ?s11]) simp
qed

subsection \<open>Properties\<close>

text \<open>
  C32: Whatever threads are inside \<open>Push\<close>, \<open>WaitAndPop\<close> and \<open>Clear\<close> at once, and in whatever order they get
  the mutex, sleep and wake: what they have done to the queue and what the pops returned is what
  the three operations do one after the other, as atomic steps, in the order of their effects.
\<close>

theorem queue_operations_atomic:
  assumes "queue_run (unused q) es s"
  shows "run_ops Push WaitAndPop Clear (map op_of es) q = (popped es, \<lparr>items = contents_of s\<rparr>)"
  by (rule queue_run_ops [OF assms queue_inv_unused]) (simp add: contents_of_def clearing_def)

theorem queue_operations_atomic_witness:
  "\<exists>s. queue_run (unused empty_queue :: (nat, nat) queue_threads) [Pushed 7, Popped 7] s \<and>
     run_ops Push WaitAndPop Clear [DoPush 7, DoPop] empty_queue = ([7], \<lparr>items = contents_of s\<rparr>)"
  using wait_then_push queue_operations_atomic by fastforce

text \<open>
  C33: At most one thread is between locking and unlocking; \<open>front\<close> is never called on an empty queue; and
  no wake-up is lost: as long as a thread is inside an operation, some thread that is neither
  outside nor asleep can go on, unless every thread inside sleeps and the queue is empty.
\<close>

theorem queue_threads_progress:
  assumes "queue_run (unused q) es s"
  shows "(\<forall>t t'. holds_mutex (pc_of s t) \<longrightarrow> holds_mutex (pc_of s t') \<longrightarrow> t' = t) \<and>
    (\<forall>t. pc_of s t = PopFront \<longrightarrow> items (the_queue s) \<noteq> []) \<and>
    (\<forall>t. pc_of s t \<noteq> Outside \<longrightarrow>
       (\<exists>t'. pc_of s t' \<noteq> Outside \<and> pc_of s t' \<noteq> PopAsleep \<and> (\<exists>l s'. queue_step t' s l s')) \<or>
       items (the_queue s) = [] \<and> (\<forall>t'. pc_of s t' = Outside \<or> pc_of s t' = PopAsleep))"
proof -
  have inv: "mutex_inv s" "front_inv s" "wake_inv s"
    using queue_run_inv [OF assms queue_inv_unused] by (simp_all add: queue_inv_def)
  have "(\<exists>t'. pc_of s t' \<noteq> Outside \<and> pc_of s t' \<noteq> PopAsleep \<and> (\<exists>l s'. queue_step t' s l s')) \<or>
      items (the_queue s) = [] \<and> (\<forall>t'. pc_of s t' = Outside \<or> pc_of s t' = PopAsleep)"
    if t: "pc_of s t \<noteq> Outside" for t
  proof (cases "\<forall>t'. pc_of s t' = Outside \<or> pc_of s t' = PopAsleep")
    case True
    then have "pc_of s t = PopAsleep" using t by blast
    moreover have "\<nexists>t'. pc_of s t' = PushUnlock \<or> pc_of s t' = PushNotify" 
    proof
      assume "\<exists>t'. pc_of s t' = PushUnlock \<or> pc_of s t' = PushNotify"
      then obtain v where "pc_of s v = PushUnlock \<or> pc_of s v = PushNotify" by blast
      with True [rule_format, of v] show False by auto
    qed
    ultimately show ?thesis using True inv(3) unfolding wake_inv_def by blast
  next
    case False
    then obtain u where u: "pc_of s u \<noteq> Outside" "pc_of s u \<noteq> PopAsleep" by blast
    show ?thesis
    proof (cases "mu_owner s")
      case None
      then have "\<not> holds_mutex (pc_of s u)" using inv(1) by (simp add: mutex_inv_def)
      from others_go_on [OF None this u] show ?thesis using u by blast
    next
      case (Some v)
      then have v: "holds_mutex (pc_of s v)" using inv(1) by (simp add: mutex_inv_def)
      then have "pc_of s v \<noteq> Outside" "pc_of s v \<noteq> PopAsleep" by auto
      then show ?thesis using owner_goes_on [OF inv(2) v] by blast
    qed
  qed
  then show ?thesis using inv(2) mutex_unique [OF inv(1)] unfolding front_inv_def by blast
qed

theorem queue_threads_progress_witness:
  "\<exists>s. queue_run (unused empty_queue :: (nat, nat) queue_threads) [Pushed 7, Popped 7] s \<and>
     (\<exists>t l s'. queue_step t s l s')"
proof -
  obtain s where s: "queue_run (unused empty_queue :: (nat, nat) queue_threads) [Pushed 7, Popped 7] s"
    "pc_of s 0 = PopUnlock 7" using wait_then_push by blast
  have "\<not> (\<forall>t. pc_of s t = Outside \<or> pc_of s t = PopAsleep)" using s(2) by (auto intro!: exI [of _ 0])
  then show ?thesis using queue_threads_progress [OF s(1)] s by blast
qed

end
