(* ===== verification/Spec2Isabelle.thy ===== *)
theory Spec2Isabelle
  imports Accepting Keepalive Races Program Server_Totality Thread_Channels Channel_Locks Queue_Threads
begin

text \<open>
  NetChat: verification of a chat server.

  \<^bold>\<open>The program.\<close> \<open>src/src/main.cpp\<close> opens the database \<open>chat.db\<close> and constructs the server. A thread
  accepts connections and pushes every socket that becomes readable to a queue; ten workers take
  sockets from it, and each serves one request: it receives a packet, handles it by its type, sends
  the reply and runs a callback (\<open>Server::processRecvSocket\<close>). The state shared by all of them are the
  pools of \<open>Server\<close> behind the user manager \<open>UM\<close> (challenges, tokens, pending file messages, one
  keep-alive sender per user), the database and the directory \<open>files\<close>. Every sender has a queue and
  a thread of its own that delivers contact lists and new messages on the user's channel.

  \<^bold>\<open>Theories and code\<close> (paths under \<open>src/src\<close> and \<open>src/include\<close>).
  \<^item> \<open>Prelude\<close>: \<open>int\<close> as a 32-bit word, runs that can fail (\<open>fault + 'a\<close>), C strings.
  \<^item> \<open>Threadsafe_Queue\<close>: \<open>threadsafe_queue.h\<close>, its operations as atomic steps and the contract
    \<open>fifo_queue\<close>; \<open>Queue_Threads\<close>: the same file statement by statement, with its mutex and its
    condition variable.
  \<^item> \<open>Messages\<close>: \<open>message.h\<close>, the messages of \<open>proto/messages.proto\<close>, \<open>Server::packToPacket\<close>; the laws of
    protobuf's \<open>Any\<close> and of its wire format (\<open>any_codec_laws\<close>, \<open>wire_codec_laws\<close>).
  \<^item> \<open>Crypto_Utils\<close>: \<open>utils/crypto.h\<close> and \<open>utils/misc.h\<close>; the laws of libsodium (\<open>crypto_lib_laws\<close>).
  \<^item> \<open>File_Storage\<close>: \<open>file_storage.h\<close>, \<open>file/file_storage.cpp\<close>, over a disk that maps paths to nodes.
  \<^item> \<open>Sql_Engine\<close>, \<open>Sql_Reference\<close>: the interface of SQLite and its documented behaviour
    (\<open>sqlite_laws\<close>), and a small engine that has it.
  \<^item> \<open>Db_Access\<close>: \<open>db_access.h\<close> and \<open>db/db_access.cpp\<close>, one definition per method; \<open>Db_Correct\<close>,
    \<open>Db_Stores\<close>, \<open>Db_Properties\<close>: the invariant \<open>store_inv\<close> and the contracts \<open>account_store\<close>,
    \<open>conversation_store\<close> and \<open>file_store\<close> that the methods satisfy.
  \<^item> \<open>User_Manager\<close>: the pools of \<open>Server.h\<close> and the operations of \<open>user_manager.h\<close>; the contracts
    \<open>keyed_pool\<close>, \<open>erasable_pool\<close>, \<open>channel_pool\<close>.
  \<^item> \<open>Van\<close>: \<open>van.h\<close>, \<open>van.cpp\<close> and the sending, receiving and control parts of \<open>Server/server_van.h\<close>.
  \<^item> \<open>Server_Handlers\<close>: \<open>Server::processRecvSocket\<close> of \<open>Server/Server.cpp\<close>, one definition per case of
    its \<open>switch\<close> and per callback; the state is the record \<open>world\<close>, the libraries are \<open>env\<close>, and what
    one request gets from the kernel, the clock and the random generator is \<open>io\<close>.
  \<^item> \<open>Server_Linked\<close> (the locale of a server linked with libraries that keep their laws),
    \<open>Server_Accounts\<close>, \<open>Server_Messages\<close>, \<open>Server_Files\<close>, \<open>Server_Requests\<close>: what the requests do.
  \<^item> \<open>Accepting\<close>: construction, the accepting loop and the workers' loop of \<open>server_van.h\<close>,
    \<open>Server::Init\<close>; \<open>Keepalive\<close>: \<open>KeepAliveMsgSender::run\<close>; \<open>Program\<close>: \<open>main.cpp\<close>, started on a new
    database or on one that earlier runs have left.
  \<^item> \<open>Races\<close>: \<open>createMsgByRawMsg\<close> and the login in two phases each, run by two workers at once.
  \<^item> \<open>Server_System\<close>: the step relation \<open>server_step\<close> of the running server (a worker handles a request,
    a worker sends a reply and runs its callback, a channel thread delivers a packet, the accepting
    thread handles an event) and its invariant \<open>server_inv\<close>; \<open>Chat_Spec\<close>: the chat service as an
    abstract transition system \<open>chat_step\<close>, and the locale \<open>simulation\<close>; \<open>Chat_Refinement\<close>: the
    server simulates the service.
  \<^item> \<open>Server_Totality\<close>: with a database that never throws (\<open>calm_server\<close>), every handler and every
    callback returns.
  \<^item> \<open>Atomic_Steps\<close>: programs as trees of atomic steps, and the rules by which a thread keeps an
    invariant and relies on what the others keep (locale \<open>rely\<close>), or answers for all its changes
    (\<open>vouched\<close>); \<open>Request_Steps\<close>:
    \<open>processRecvSocket\<close> as such a program, one step per operation of \<open>UM\<close>, per statement of SQLite,
    per access to the disk and per call of the van; \<open>Thread_System\<close>: workers, channel threads and the
    accepting thread interleaved between any two of these steps (\<open>thread_step\<close>), which contains
    \<open>server_step\<close>; \<open>Thread_Rely\<close>, \<open>Thread_Requests\<close> (locale \<open>fault_bound\<close>), \<open>Thread_Invariant\<close>: what
    holds under every such interleaving; \<open>Thread_Races\<close>: interleavings that go wrong;
    \<open>Thread_History\<close>: runs as lists of states, and the requests in them that account for every account,
    token and message (locale \<open>step_rules\<close>); \<open>Thread_Privacy\<close>: who gets what
    on the channels and in the replies; \<open>Thread_Channels\<close>: the calls on the queue of a user in a log, and
    the log replayed on a first-in-first-out queue.
  \<^item> \<open>Channel_Locks\<close>: \<open>setKpAliveSender\<close>, \<open>getSender\<close> and \<open>run\<close> statement by statement, with the mutex of the
    pool and the mutexes of the senders.
  \<^item> This theory: the properties of the whole system.

  \<^bold>\<open>What is shown.\<close> Login: an account comes from a registration, a token from an answer that fits the
  stored hash and the challenge, and a message from the user its sender field names. Storage:
  conversations are numbered without gaps, nothing that was stored is lost, uploads can be
  downloaded. Transport: packets below one megabyte that have arrived completely before the socket
  would block are received unchanged (a part that has arrived is taken for a packet of its own);
  every request is answered by its own type of reply or ends in one of three other ways, which are
  listed with the calls on the socket. Handling a request can only fail where the database throws, a file cannot be stored or a
  conversation is full (\<open>every_request_answered\<close>). Channels: packets are delivered in
  order, and all of them when nothing fails. As long as requests do not interrupt each other, the whole
  server keeps the invariant and refines the chat service (\<open>server_invariant\<close>, \<open>server_refines_chat\<close>). With
  its threads interleaved between any two atomic steps, conversations can lose their numbering, but
  everything else of the invariant stays, accounts and messages stay as they are, and no thread runs
  into undefined behaviour that is not listed (\<open>threads_invariant\<close>, \<open>threads_history\<close>,
  \<open>threads_faults\<close>); every account, token and message comes from a request that was received
  (\<open>threads_authentic\<close>); what is pushed or replied goes to a descriptor on which the token of the
  receiver, or of the sender, was presented at some time (\<open>threads_private\<close>, \<open>threads_reply_private\<close>),
  but a descriptor can have been closed and given to another client since
  (\<open>reused_descriptor_receives\<close>); and the queue of a channel is first-in-first-out and loses packets
  only when the channel is opened again (\<open>threads_deliver_in_order\<close>). The program can be started again
  on what such a run has left (\<open>program_starts\<close>). The programs of atomic steps do, when they are not
  interrupted, what the handlers do (\<open>uninterrupted_request\<close>). The
  queue's operations are atomic for all threads, and no wake-up is lost
  (\<open>queue_operations_atomic\<close>, \<open>queue_threads_progress\<close>); the mutexes of the senders and of their pool
  cannot deadlock and make the steps on the pool atomic (\<open>channel_locks_correct\<close>).
  Where the code does not do what it means to, a theorem says what it does instead (for example
  \<open>challenge_one_shot\<close>, \<open>racing_sends\<close>, \<open>racing_uploads\<close>, \<open>upload_before_announcement\<close>,
  \<open>concurrent_logins_share_challenge\<close>, \<open>dead_channel_double_close\<close>, \<open>delivery_stalls_pool\<close>).

  \<^bold>\<open>Libraries.\<close> SQLite, protobuf, libsodium, \<open>rand\<close>, libuuid and the kernel are parameters. Their laws are
  the \<open>assumes\<close> of the locales named above; each locale is interpreted, the laws of the libraries
  on a reference implementation, the contracts of the program's components on the code's model.
  A law never says that a call succeeds: every query may throw and every call may fail. Only
  \<open>every_request_answered\<close>, \<open>request_reply_end_to_end\<close> and the second half of \<open>threads_faults\<close> assume,
  with \<open>calm_server\<close>, that the queries and the insertion of a message do not throw.

  \<^bold>\<open>Bounds.\<close> There is no fuel. A loop over calls to the kernel takes the list of the kernel's answers; it
  is \<open>StillWaiting\<close> when they are used up, and that enough answers end it is proved
  (\<open>SendMesg_correct\<close>, \<open>RecvMesg_total\<close>, \<open>channel_drains\<close>). \<open>int\<close> is a 32-bit word; the addition of one to
  the largest internal id is undefined behaviour at the largest \<open>int\<close>; the counters of bytes wrap
  around at 64 bits.

  \<^bold>\<open>Simplifications.\<close> In \<open>server_step\<close> the handling of a request, its reply with the callback, an iteration
  of a channel and an event are atomic each. In \<open>thread_step\<close> the steps are what the code locks: one
  access to a pool (two for \<open>setKpAliveSender\<close>, whose \<open>setFd\<close> and \<open>Clear\<close> other threads can come between), one statement of SQLite, one call of the van. There a call of the van, a file
  that is written or read, and the delivery of a packet on a channel are one step each; the accepting
  thread handles an event in one step. Two callbacks read variables of a block that was left: this is the
  fault \<open>dead local\<close>, unless the stack still holds them, which \<open>io_locals_kept\<close> of the request decides, and
  then the callback goes on with the values they last had. What other threads do to the state of
  \<open>rand\<close> is arbitrary in every request (\<open>io_rand\<close>); so is whether \<open>exists\<close>, \<open>create_directory\<close> or the
  start of a thread throws.

  \<^bold>\<open>Not modelled.\<close> Logging other than \<open>FATAL\<close> messages (\<open>utils/logging.h\<close>); socket options; the pauses of
  the channel threads; the destructors of the server, its van and its senders, which wait for threads
  that never end (so \<open>main\<close> does not return); messages of the protocol that the server neither reads nor writes.
\<close>

section \<open>The running server\<close>

lemma running_inv:
  assumes "linked_server env tbl sch" and "started env tbl sch w0" and "(server_step env)\<^sup>*\<^sup>* (idle w0) s"
  shows "system_inv env tbl sch s"
  using simulation.reach_inv [OF linked_server.running [OF assms(1)] assms(3)] started_inv [OF assms(2)]
  by simp

text \<open>An example: a client's socket waits, and the one step that is possible.\<close>

lemma started_waiting: "started ref_env ref_tbl ref_sch waiting_world"
  using store_inv_fresh_db
  by (simp add: started_def waiting_world_def accounts_ok_def accounts_of_def)

lemma waiting_step: "\<exists>s. server_step ref_env (idle waiting_world) s"
proof -
  obtain w' where r: "processRecvSocket ref_env status_io 5 start_world = Inr w'"
    using status_runs by blast
  then obtain answer w1 where 1: "receive_request ref_env status_io start_world = Inr (answer, w1)"
    by (auto simp: processRecvSocket_def)
  have "waiting_world\<lparr>w_van := (w_van waiting_world)\<lparr>RecvSocketQueue := empty_queue\<rparr>\<rparr> = start_world"
    by (simp add: waiting_world_def start_world_def)
  then have "receive_request ref_env status_io
      (waiting_world\<lparr>w_van := (w_van waiting_world)\<lparr>RecvSocketQueue := empty_queue\<rparr>\<rparr>) = Inr (answer, w1)"
    using 1 by simp
  from server_step.receive [OF _ waiting_pop this, of "[]"] show ?thesis
    by (auto simp: idle_def revc_socket_pool_thread_num_def)
qed

text \<open>
  C2: In every run in which nothing comes between the steps of one and the same piece of work (the
  handling of a request up to its reply, the reply with its callback, an iteration of a channel, an
  event of the accepting thread), while these pieces of work of all threads are done in any order: a
  token identifies nobody or a user with an account, only users with an account are online, every
  file message that waits is about a registered file, is addressed to a user and names the file, only
  contact lists and new messages wait in the channels, every conversation is numbered from 1 without
  gaps, and at most ten requests are between their change and their reply. (When two requests are
  interrupted by each other, all of this stays true but for the numbering: \<open>threads_invariant\<close>,
  \<open>racing_sends\<close>.)
\<close>

theorem server_invariant:
  assumes laws: "linked_server env tbl sch" and start: "started env tbl sch w0"
    and run: "(server_step env)\<^sup>*\<^sup>* (idle w0) s" and w: "w = sys_world s"
  shows "(\<forall>t. getUserIdByToken (w_server w) t = 0 \<or>
       known_user tbl (w_db w) (getUserIdByToken (w_server w) t)) \<and>
    (\<forall>u. isOnline (w_server w) u \<longrightarrow> known_user tbl (w_db w) u) \<and>
    (\<forall>i u m. file_msg_pool (w_server w) i = Some (u, m) \<longrightarrow>
       known_user tbl (w_db w) u \<and> files_of tbl (w_db w) i \<noteq> None \<and> raw_content (msg_message m) = i) \<and>
    (\<forall>u q p. pending_packets (w_server w) u = Some q \<longrightarrow> p \<in> set q \<longrightarrow>
       is_reply env ContactListRequest p \<or> is_reply env ContactMessageListRequest p) \<and>
    (\<forall>a b. numbered (conv_of tbl (w_db w) a b)) \<and> length (sys_busy s) \<le> revc_socket_pool_thread_num"
proof (intro conjI)
  note sys = running_inv [OF laws start run]
  then have inv: "server_inv env tbl sch w" by (simp add: system_inv_def w)
  show "\<forall>t. getUserIdByToken (w_server w) t = 0 \<or>
      known_user tbl (w_db w) (getUserIdByToken (w_server w) t)"
    using uid_known [OF inv] by blast
  show "\<forall>u. isOnline (w_server w) u \<longrightarrow> known_user tbl (w_db w) u"
    using inv by (auto simp: server_inv_def isOnline_def getSender_def)
  show "\<forall>i u m. file_msg_pool (w_server w) i = Some (u, m) \<longrightarrow>
      known_user tbl (w_db w) u \<and> files_of tbl (w_db w) i \<noteq> None \<and> raw_content (msg_message m) = i"
    using inv unfolding server_inv_def by blast
  show "\<forall>u q p. pending_packets (w_server w) u = Some q \<longrightarrow> p \<in> set q \<longrightarrow>
      is_reply env ContactListRequest p \<or> is_reply env ContactMessageListRequest p"
    using inv unfolding server_inv_def is_push_def by blast
  have st: "store_inv tbl sch (w_db w)" using inv by (simp add: server_inv_def)
  show "\<forall>a b. numbered (conv_of tbl (w_db w) a b)"
    using conversation_store.inv_numbered [OF linked_server.convs_contract [OF laws] st] by blast
  show "length (sys_busy s) \<le> revc_socket_pool_thread_num" using sys by (simp add: system_inv_def)
qed

theorem server_invariant_witness:
  "\<exists>s. server_step ref_env (idle waiting_world) s \<and>
     (\<forall>a b. numbered (conv_of ref_tbl (w_db (sys_world s)) a b))"
proof -
  obtain s where s: "server_step ref_env (idle waiting_world) s" using waiting_step by blast
  then have run: "(server_step ref_env)\<^sup>*\<^sup>* (idle waiting_world) s" by (rule r_into_rtranclp)
  show ?thesis
    using server_invariant [OF ref_server.linked_server_axioms started_waiting run refl] s by blast
qed

text \<open>
  C21: The server never stores a raw password: every account it ever creates has the SHA-256 of a
  password of 6 to 32 characters, and a name of at most 32 characters, under which it is found.
\<close>

theorem passwords_are_hashed:
  assumes laws: "linked_server env tbl sch" and start: "started env tbl sch w0"
    and run: "(server_step env)\<^sup>*\<^sup>* (idle w0) s" and a: "accounts_of tbl (w_db (sys_world s)) n = Some u"
  shows "usr_username u = n \<and> length n \<le> 32 \<and>
    (\<exists>p. 6 \<le> length p \<and> length p \<le> 32 \<and> SHA256 (env_crypto env) p = Inr (usr_password u))"
  using running_inv [OF laws start run] a by (auto simp: system_inv_def server_inv_def accounts_ok_def)

text \<open>An example: the same server with one registered account.\<close>

lemma secret_account:
  "\<exists>w h i. started ref_env ref_tbl ref_sch (w :: (string, refdb) world) \<and>
     SHA256 plain_crypto ''secret'' = Inr h \<and>
     accounts_of ref_tbl (w_db w) ''bob'' = Some \<lparr>usr_id = i, usr_username = ''bob'', usr_password = h\<rparr>"
proof -
  obtain h where h: "SHA256 plain_crypto ''secret'' = Inr h"
    using ref_server.SHA256_inv [of "''secret''"] by auto
  obtain db where c: "createUser ref_engine fresh_db (make_User 0 ''bob'' h) = (True, db)"
    by (simp add: createUser_def ref_eval)
  have ch: "c_str h = h" using ref_server.sha_c_str [of "''secret''" h] h by simp
  obtain i where a: "accounts_of ref_tbl db =
      (accounts_of ref_tbl fresh_db)(''bob'' \<mapsto> \<lparr>usr_id = i, usr_username = ''bob'', usr_password = h\<rparr>)"
    using account_store.create_accepted [OF ref_server.accounts_contract store_inv_fresh_db
        c [folded ref_env_sel(1)]] by (auto simp: make_User_def c_str_def [of "''bob''"] ch)
  have inv: "store_inv ref_tbl ref_sch db"
    by (rule account_store.create_inv [OF ref_server.accounts_contract store_inv_fresh_db
        c [folded ref_env_sel(1)]])
  have "\<exists>p. 6 \<le> length p \<and> length p \<le> 32 \<and> SHA256 plain_crypto p = Inr h"
    by (rule exI [of _ "''secret''"]) (simp add: h)
  then have "started ref_env ref_tbl ref_sch (start_world\<lparr>w_db := db\<rparr>)"
    using inv a by (auto simp: started_def accounts_ok_def accounts_of_def [of ref_tbl fresh_db])
  then show ?thesis using h a by fastforce
qed

theorem passwords_are_hashed_witness:
  "\<exists>w u. started ref_env ref_tbl ref_sch (w :: (string, refdb) world) \<and>
     accounts_of ref_tbl (w_db w) ''bob'' = Some u \<and>
     (\<exists>p. 6 \<le> length p \<and> SHA256 plain_crypto p = Inr (usr_password u))"
proof -
  obtain w :: "(string, refdb) world" and h i where w: "started ref_env ref_tbl ref_sch w"
    "accounts_of ref_tbl (w_db w) ''bob'' = Some \<lparr>usr_id = i, usr_username = ''bob'', usr_password = h\<rparr>"
    using secret_account by blast
  show ?thesis
    using passwords_are_hashed [OF ref_server.linked_server_axioms w(1) rtranclp.rtrancl_refl, of "''bob''"] w
    by (metis idle_sel(1) ref_env_sel(4))
qed

section \<open>The chat service\<close>

text \<open>
  C10: A request that is handled changes the accounts, the challenges, the sessions, the messages and
  the files in a way that \<open>chat_step\<close>, the specification of the chat service, allows for that very
  request.
\<close>

theorem request_refines_chat:
  assumes laws: "linked_server env tbl sch" and inv: "store_inv tbl sch (w_db w)"
    and h: "handle_packet env io pkt w = Inr (Some (reply, cb, w'))"
  shows "chat_step (SHA256 (env_crypto env)) (request_of env pkt) (chat_of tbl w) (chat_of tbl w')"
  by (rule linked_server.handle_packet_allowed [OF laws inv h])

lemma packet_type_of_id_id: "packet_type_of_id (packet_type_id t) = Some t"
  by (simp only: packet_type_of_id_iff)

lemma handle_packet_new:
  "handle_packet env io (new_packet env LoginPreRequest b) w =
     rbind (on_LoginPreRequest env io (new_packet env LoginPreRequest b) w) (\<lambda>r. Inr (Some r))"
  "handle_packet env io (new_packet env LoginRequest b) w =
     rbind (on_LoginRequest env io (new_packet env LoginRequest b) w) (\<lambda>r. Inr (Some r))"
  "handle_packet env io (new_packet env SendMessageRequest b) w =
     rbind (on_SendMessageRequest env io (new_packet env SendMessageRequest b) w) (\<lambda>r. Inr (Some r))"
  by (simp_all only: handle_packet_def new_packet_sel packet_type_of_id_id option.case PacketType.case Let_def)

lemma request_of_new:
  "request_of ref_env (new_packet ref_env LoginPreRequest (LoginPreRequest_body q)) = LoginPreRequest_body q"
  "request_of ref_env (new_packet ref_env LoginRequest (LoginRequest_body r)) = LoginRequest_body r"
  "request_of ref_env (new_packet ref_env SendMessageRequest (SendMessageRequest_body m)) = SendMessageRequest_body m"
  by (simp_all only: request_of_def new_packet_sel packet_type_of_id_id option.case PacketType.case
      unpacked_new ref_server.any.unpack_pack)

lemma login_pre_handled:
  "\<exists>reply cb w'. handle_packet ref_env example_io_now (new_packet ref_env LoginPreRequest
     (LoginPreRequest_body \<lparr>lpq_username = ''bob''\<rparr>)) bob_world = Inr (Some (reply, cb, w'))"
proof -
  obtain res where "getUser_name ref_engine bob_db ''bob'' = Inr res" using bob_found by blast
  then obtain reply cb w' where "on_LoginPreRequest ref_env example_io_now (new_packet ref_env LoginPreRequest
      (LoginPreRequest_body \<lparr>lpq_username = ''bob''\<rparr>)) bob_world = Inr (reply, cb, w')"
    using ref_server.login_pre_total [of bob_world "\<lparr>lpq_username = ''bob''\<rparr>" res] by fastforce
  then show ?thesis by (simp add: handle_packet_new)
qed

theorem request_refines_chat_witness:
  "\<exists>w' c. handle_packet ref_env example_io_now (new_packet ref_env LoginPreRequest
       (LoginPreRequest_body \<lparr>lpq_username = ''bob''\<rparr>)) bob_world = Inr (Some w') \<and>
     chat_step (SHA256 plain_crypto) (LoginPreRequest_body \<lparr>lpq_username = ''bob''\<rparr>)
       (chat_of ref_tbl bob_world) c"
proof -
  let ?pkt = "new_packet ref_env LoginPreRequest (LoginPreRequest_body \<lparr>lpq_username = ''bob''\<rparr>)"
  obtain reply cb w' where h: "handle_packet ref_env example_io_now ?pkt bob_world = Inr (Some (reply, cb, w'))"
    using login_pre_handled by blast
  show ?thesis
    using request_refines_chat [OF ref_server.linked_server_axioms _ h] store_inv_bob_db h
    by (auto simp: request_of_new)
qed

text \<open>
  C3: A run of the server in which the handling of each request, each reply with its callback, each
  iteration of a channel and each event is done without interruption, and these in any order, refines
  the chat service: the accounts, challenges, sessions, messages and files it leads to are those of a
  run of the service from the start. (A run in which two requests interrupt each other need not be a
  run of the service: \<open>racing_sends\<close>, \<open>concurrent_logins_share_challenge\<close>.)
\<close>

theorem server_refines_chat:
  assumes laws: "linked_server env tbl sch" and start: "started env tbl sch w0"
    and run: "(server_step env)\<^sup>*\<^sup>* (idle w0) s"
  shows "(chat_move (SHA256 (env_crypto env)))\<^sup>*\<^sup>* (chat_of tbl w0) (chat_of tbl (sys_world s))"
  using simulation.reach_sim [OF linked_server.running [OF laws] run started_inv [OF start]] by simp

theorem server_refines_chat_witness:
  "\<exists>s. server_step ref_env (idle waiting_world) s \<and>
     (chat_move (SHA256 plain_crypto))\<^sup>*\<^sup>* (chat_of ref_tbl waiting_world) (chat_of ref_tbl (sys_world s))"
proof -
  obtain s where s: "server_step ref_env (idle waiting_world) s" using waiting_step by blast
  show ?thesis
    using server_refines_chat [OF ref_server.linked_server_axioms started_waiting r_into_rtranclp, OF s] s
    by auto
qed

text \<open>
  Nothing is lost: an account stays as it was registered, a registered file stays registered, a
  token stays a token, and each conversation only grows at its end, its messages unchanged.
\<close>

theorem history_is_kept:
  assumes laws: "linked_server env tbl sch" and start: "started env tbl sch w0"
    and run: "(server_step env)\<^sup>*\<^sup>* (idle w0) s" and run': "(server_step env)\<^sup>*\<^sup>* s s'"
    and w: "w = sys_world s" "w' = sys_world s'"
  shows "accounts_of tbl (w_db w) \<subseteq>\<^sub>m accounts_of tbl (w_db w') \<and>
    dom (files_of tbl (w_db w)) \<subseteq> dom (files_of tbl (w_db w')) \<and>
    dom (token_pool (w_server w)) \<subseteq> dom (token_pool (w_server w')) \<and>
    (\<forall>a b. \<exists>ms. conv_of tbl (w_db w') a b = conv_of tbl (w_db w) a b @ ms)"
proof -
  have "(chat_move (SHA256 (env_crypto env)))\<^sup>*\<^sup>* (chat_of tbl w) (chat_of tbl w')"
    using simulation.reach_sim [OF linked_server.running [OF laws] run' running_inv [OF laws start run]]
    by (simp add: w)
  then have "keeps_history (chat_of tbl w) (chat_of tbl w')" by (rule chat_moves_history)
  then show ?thesis by (simp add: keeps_history_def prefix_def)
qed

theorem history_is_kept_witness:
  "\<exists>s. server_step ref_env (idle waiting_world) s \<and>
     (\<exists>ms. conv_of ref_tbl (w_db (sys_world s)) 1 1 = conv_of ref_tbl (w_db waiting_world) 1 1 @ ms)"
proof -
  obtain s where s: "server_step ref_env (idle waiting_world) s" using waiting_step by blast
  show ?thesis
    using history_is_kept [OF ref_server.linked_server_axioms started_waiting rtranclp.rtrancl_refl
        r_into_rtranclp [of "server_step ref_env", OF s] refl refl] s by auto
qed

text \<open>
  A token comes to identify a user only by a login request that presents the SHA-256 of that
  user's stored password followed by the challenge that is pending for them (the empty string
  when none is).
\<close>

theorem session_needs_login:
  assumes laws: "linked_server env tbl sch" and inv: "store_inv tbl sch (w_db w)"
    and h: "handle_packet env io pkt w = Inr (Some (reply, cb, w'))"
    and new: "token_pool (w_server w') t = Some i" "token_pool (w_server w) t \<noteq> Some i"
  shows "\<exists>r u. request_of env pkt = LoginRequest_body r \<and>
    accounts_of tbl (w_db w) (c_str (lq_username r)) = Some u \<and> usr_id u = i \<and>
    SHA256 (env_crypto env) (usr_password u @ getChallengeMp (w_server w) i) = Inr (lq_hashPassword r)"
  using chat_step_session [OF linked_server.handle_packet_allowed [OF laws inv h]] new by auto

theorem session_needs_login_witness:
  "\<exists>reply cb w' i. handle_packet ref_env example_io_now (new_packet ref_env LoginRequest
       (LoginRequest_body \<lparr>lq_username = ''bob'', lq_hashPassword = bob_answer\<rparr>)) bob_world =
       Inr (Some (reply, cb, w')) \<and> token_pool (w_server w') ''u1'' = Some i \<and>
     (\<exists>u. accounts_of ref_tbl bob_db ''bob'' = Some u \<and> usr_id u = i \<and>
        SHA256 plain_crypto (usr_password u) = Inr bob_answer)"
proof -
  let ?r = "\<lparr>lq_username = ''bob'', lq_hashPassword = bob_answer\<rparr>"
  let ?p = "new_packet ref_env LoginRequest (LoginRequest_body ?r)"
  obtain u where u: "accounts_of ref_tbl bob_db ''bob'' = Some u" "usr_password u = ''pw''"
    using bob_account by blast
  have inv: "store_inv ref_tbl ref_sch (w_db bob_world)" using store_inv_bob_db by simp
  obtain res where res: "getUser_name ref_engine bob_db ''bob'' = Inr res" using bob_found by blast
  then obtain reply cb w' where l: "on_LoginRequest ref_env example_io_now ?p bob_world = Inr (reply, cb, w')"
    using ref_server.login_total [of bob_world ?r res example_io_now LoginRequest] by auto
  have uuid: "getUUID (io_uuid example_io_now) = ''u1''"
    by (simp add: getUUID_def c_str_def example_io_now_def)
  have "getChallengeMp (w_server bob_world) (usr_id u) = []" by (simp add: getChallengeMp_def empty_Server_def)
  then have "w' = bob_world\<lparr>w_server := delChallengeMp (usr_id u)
      (setUserIdByToken ''u1'' (usr_id u) empty_Server)\<rparr>"
    using ref_server.on_LoginRequest_Inr [OF inv l] u bob_answer uuid
    by (auto simp: c_str_def split: if_splits)
  then have t: "token_pool (w_server w') ''u1'' = Some (usr_id u)"
    by (simp add: frame_simps setUserIdByToken_def)
  have h: "handle_packet ref_env example_io_now ?p bob_world = Inr (Some (reply, cb, w'))"
    using l by (simp add: handle_packet_new)
  have "token_pool (w_server bob_world) ''u1'' \<noteq> Some (usr_id u)" by (simp add: empty_Server_def)
  from session_needs_login [OF ref_server.linked_server_axioms inv h t this] h t u(1) show ?thesis
    by (auto simp: request_of_new c_str_def getChallengeMp_def empty_Server_def)
qed

text \<open>
  A message enters a conversation only by a send request with that very message, whose token
  identifies the user the message names as its sender (or, for the sender 0, identifies nobody).
\<close>

theorem message_needs_sender:
  assumes laws: "linked_server env tbl sch" and inv: "store_inv tbl sch (w_db w)"
    and h: "handle_packet env io pkt w = Inr (Some (reply, cb, w'))"
    and new: "m \<in> set (conv_of tbl (w_db w') a b)" "m \<notin> set (conv_of tbl (w_db w) a b)"
  shows "\<exists>r. request_of env pkt = SendMessageRequest_body r \<and> smq_message r = msg_message m \<and>
    getUserIdByToken (w_server w) (smq_token r) = raw_from (msg_message m)"
  using chat_step_message [OF linked_server.handle_packet_allowed [OF laws inv h]] new by auto

theorem message_needs_sender_witness:
  "\<exists>m reply cb w'. handle_packet ref_env example_io_now send_hello online_world =
       Inr (Some (reply, cb, w')) \<and> m \<in> set (conv_of ref_tbl (w_db w') 1 1) \<and> msg_message m = hello \<and>
     getUserIdByToken (w_server online_world) ''t'' = raw_from hello"
proof -
  obtain m db where l: "on_SendMessageRequest ref_env example_io_now send_hello online_world =
     Inr (new_packet ref_env SendMessageResponse (SendMessageResponse_body m), ForwardCallback 1 m,
          online_world\<lparr>w_db := db\<rparr>)" and c: "createMsgByRawMsg ref_engine bob_db hello 100 = Inr (Some m, db)"
    using send_hello_runs by blast
  have empty: "conv_of ref_tbl bob_db 1 1 = []"
    by (simp add: conv_of_def conv_rows_def bob_db_def createUser_def ref_eval)
  have inv: "store_inv ref_tbl ref_sch (w_db online_world)" using store_inv_bob_db by simp
  have a: "conv_of ref_tbl db 1 1 = [m]"
    using ref_server.send_append(3) [of bob_db hello 100 m db] store_inv_bob_db c empty by simp
  have h: "handle_packet ref_env example_io_now send_hello online_world =
      Inr (Some (new_packet ref_env SendMessageResponse (SendMessageResponse_body m), ForwardCallback 1 m,
        online_world\<lparr>w_db := db\<rparr>))" using l by (simp add: handle_packet_new)
  have m: "m \<in> set (conv_of ref_tbl (w_db (online_world\<lparr>w_db := db\<rparr>)) 1 1)"
    "m \<notin> set (conv_of ref_tbl (w_db online_world) 1 1)" using a empty by simp_all
  from message_needs_sender [OF ref_server.linked_server_axioms inv h m] h m(1) show ?thesis
    by (auto simp: request_of_new)
qed

text \<open>
  C14: In every reachable state, when the database throws nothing (beyond violated constraints), every
  conversation has room for another message, the directory of the files exists or can be made (and
  asking whether a path exists does not fail), and the socket can be taken out of the epoll set, every
  request of the protocol, handled without interruption, is answered by a packet of its own response
  type; and once it is sent, its callback runs to its end, provided that a thread can be started for a
  new sender and that the variables captured by reference still have their values.
\<close>

theorem every_request_answered:
  assumes calm: "calm_server env tbl sch" and start: "started env tbl sch w0"
    and run: "(server_step env)\<^sup>*\<^sup>* (idle w0) s" and w: "w = (sys_world s)\<lparr>w_van := v\<rparr>"
    and disk: "can_store_files io (w_disk w)" and del: "io_del_ok io"
    and room: "\<forall>a b. int (length (conv_of tbl (w_db w) a b)) < 2 ^ 31 - 1"
    and t: "packet_type_of_id (packetId pkt) = Some t" "response_type t = Some rt"
  shows "\<exists>b cb w1. handle_packet env io pkt w = Inr (Some (new_packet env rt b, cb, w1)) \<and>
    (io_thread_ok io \<and> io_locals_kept io \<longrightarrow>
      (\<forall>v. \<exists>w2. run_callback env io fd cb (w1\<lparr>w_van := v\<rparr>) = Inr w2))"
proof -
  have "linked_server env tbl sch" using calm by (simp add: calm_server_def)
  then have "server_inv env tbl sch w" using running_inv [OF _ start run] by (simp add: system_inv_def w)
  then show ?thesis by (rule calm_server.every_packet_answered [OF calm _ disk del room t])
qed

theorem every_request_answered_witness:
  "\<exists>b cb w1. handle_packet ref_env example_io_now (new_packet ref_env SetupChannelRequest
       (SetupChannelRequest_body \<lparr>scq_token = ''t''\<rparr>)) waiting_world =
     Inr (Some (new_packet ref_env ServerAckResponse b, cb, w1)) \<and>
     (\<exists>w2. run_callback ref_env example_io_now 5 cb w1 = Inr w2)"
proof -
  let ?p = "new_packet ref_env SetupChannelRequest (SetupChannelRequest_body \<lparr>scq_token = ''t''\<rparr>)"
  have w: "waiting_world = (sys_world (idle waiting_world))\<lparr>w_van := w_van waiting_world\<rparr>" by simp
  have disk: "can_store_files example_io_now (w_disk waiting_world)" "io_del_ok example_io_now"
    by (simp_all add: can_store_files_def example_io_now_def example_io_def)
  have io: "io_thread_ok example_io_now \<and> io_locals_kept example_io_now" by (simp add: example_io_now_def)
  have room: "\<forall>a b. int (length (conv_of ref_tbl (w_db waiting_world) a b)) < 2 ^ 31 - 1"
    by (simp add: waiting_world_def conv_of_def conv_rows_def)
  have t: "packet_type_of_id (packetId ?p) = Some SetupChannelRequest"
    "response_type SetupChannelRequest = Some ServerAckResponse"
    by (simp_all add: packet_type_of_id_iff)
  obtain b cb w1 where
    h: "handle_packet ref_env example_io_now ?p waiting_world = Inr (Some (new_packet ref_env ServerAckResponse b, cb, w1))"
    and c: "io_thread_ok example_io_now \<and> io_locals_kept example_io_now \<longrightarrow>
      (\<forall>v. \<exists>w2. run_callback ref_env example_io_now 5 cb (w1\<lparr>w_van := v\<rparr>) = Inr w2)"
    using every_request_answered [OF calm_ref.calm_server_axioms started_waiting rtranclp.rtrancl_refl
        w disk room t] by blast
  have "\<exists>w2. run_callback ref_env example_io_now 5 cb (w1\<lparr>w_van := w_van w1\<rparr>) = Inr w2"
    using c io by blast
  then show ?thesis using h by (intro exI [of _ b] exI [of _ cb] exI [of _ w1]) simp
qed

text \<open>
  C18: A request is answered, from the bytes that arrive to the bytes that are sent. In the conditions of
  the previous property, when all the bytes of a packet of less than one megabyte with the id of a
  request of the protocol arrive, in any non-empty chunks, before the socket would first block, then
  the handler produces a reply of the matching response type; and if that reply fits its buffer and
  the socket accepts at least a byte at each of enough calls of \<open>send\<close>, handling the request returns,
  and the first call on a socket is the sending of one serialisation on the client's socket, which the
  client parses to that very reply. (When only a part has arrived before the socket would block, the
  part is handled as a packet of its own: \<open>packet_crosses_the_wire\<close>.)
\<close>

theorem request_reply_end_to_end:
  assumes calm: "calm_server env tbl sch" and start: "started env tbl sch w0"
    and run: "(server_step env)\<^sup>*\<^sup>* (idle w0) s" and w: "w = (sys_world s)\<lparr>w_van := v\<rparr>"
    and wire: "wire_codec_laws (env_wire env)"
    and small: "length (SerializeToArray (env_wire env) pkt) < kMaxMessageSize"
    and nonempty: "SerializeToArray (env_wire env) pkt \<noteq> []"
    and chunks: "concat chunks = SerializeToArray (env_wire env) pkt" "[] \<notin> set chunks"
    and recv: "io_recv io = map RecvData chunks @ RecvWouldBlock # later"
    and send: "SendFails \<notin> set (io_send io)" "SendTakes 0 \<notin> set (io_send io)"
    and io: "can_store_files io (w_disk w)" "io_del_ok io" "io_thread_ok io" "io_locals_kept io"
    and room: "\<forall>a b. int (length (conv_of tbl (w_db w) a b)) < 2 ^ 31 - 1"
    and t: "packet_type_of_id (packetId pkt) = Some t" "response_type t = Some rt"
  shows "\<exists>v b cb w1. handle_packet env io pkt (w\<lparr>w_van := v\<rparr>) = Inr (Some (new_packet env rt b, cb, w1)) \<and>
    (let bytes = SerializeToArray (env_wire env) (new_packet env rt b) in
      ParseFromArray (env_wire env) bytes = Some (new_packet env rt b) \<and>
      (length bytes \<le> min kMaxMessageSize (length (io_send io)) \<longrightarrow>
        (\<exists>w' calls. processRecvSocket env io fd w = Inr w' \<and>
           van_calls (w_van w') = van_calls (w_van w) @ CallSend fd bytes # calls)))"
proof -
  have "linked_server env tbl sch" using calm by (simp add: calm_server_def)
  then have "server_inv env tbl sch w" using running_inv [OF _ start run] by (simp add: system_inv_def w)
  from calm_server.request_returns [OF calm this wire small nonempty chunks recv send io room t, of fd]
  show ?thesis by (simp add: Let_def wire_codec_laws.parse_serialize [OF wire])
qed

theorem request_reply_end_to_end_witness:
  "\<exists>w' bytes calls. processRecvSocket ref_env status_io 5 waiting_world = Inr w' \<and>
     van_calls (w_van w') = CallSend 5 bytes # calls \<and>
     ParseFromArray plain_wire bytes =
       Some (new_packet ref_env ServerStatusResponse (ServerStatusResponse_body True True))"
proof -
  let ?q = "new_packet ref_env ServerStatusRequest ClientAckResponse_body"
  have w: "waiting_world = (sys_world (idle waiting_world))\<lparr>w_van := w_van waiting_world\<rparr>" by simp
  have t: "packet_type_of_id (packetId ?q) = Some ServerStatusRequest"
    "response_type ServerStatusRequest = Some ServerStatusResponse"
    by (simp_all add: packet_type_of_id_iff)
  have wire: "wire_codec_laws (env_wire ref_env)" using plain_w.wire_codec_laws_axioms by simp
  have len: "length (SerializeToArray (env_wire ref_env) ?q) < kMaxMessageSize"
    using status_length(1) by (simp add: kMaxMessageSize_def)
  have ne: "SerializeToArray (env_wire ref_env) ?q \<noteq> []" using status_length(2) by simp
  have c: "concat [SerializeToArray plain_wire ?q] = SerializeToArray (env_wire ref_env) ?q"
    "[] \<notin> set [SerializeToArray plain_wire ?q]" using status_length(2) [symmetric] by simp_all
  have send: "SendFails \<notin> set (io_send status_io)" "SendTakes 0 \<notin> set (io_send status_io)"
    by (simp_all add: status_io_sel)
  have io: "can_store_files status_io (w_disk waiting_world)" "io_del_ok status_io" "io_thread_ok status_io"
    "io_locals_kept status_io"
    by (simp_all add: can_store_files_def status_io_def example_io_now_def example_io_def)
  have room: "\<forall>a b. int (length (conv_of ref_tbl (w_db waiting_world) a b)) < 2 ^ 31 - 1"
    by (simp add: waiting_world_def conv_of_def conv_rows_def)
  obtain v b cb w1 where h: "handle_packet ref_env status_io ?q (waiting_world\<lparr>w_van := v\<rparr>) =
      Inr (Some (new_packet ref_env ServerStatusResponse b, cb, w1))"
    and r: "let bytes = SerializeToArray (env_wire ref_env) (new_packet ref_env ServerStatusResponse b) in
      ParseFromArray (env_wire ref_env) bytes = Some (new_packet ref_env ServerStatusResponse b) \<and>
      (length bytes \<le> min kMaxMessageSize (length (io_send status_io)) \<longrightarrow>
        (\<exists>w' calls. processRecvSocket ref_env status_io 5 waiting_world = Inr w' \<and>
           van_calls (w_van w') = van_calls (w_van waiting_world) @ CallSend 5 bytes # calls))"
    using request_reply_end_to_end [OF calm_ref.calm_server_axioms started_waiting rtranclp.rtrancl_refl
        w wire len ne c status_io_sel(1) send io room t] by blast
  have "new_packet ref_env ServerStatusResponse b = new_packet ref_env ServerStatusResponse (ServerStatusResponse_body True True)"
    using h by (simp add: handle_packet_def t(1) [simplified] on_ServerStatusRequest_def Let_def)
  note r = r [unfolded this]
  have "length (SerializeToArray (env_wire ref_env) (new_packet ref_env ServerStatusResponse
      (ServerStatusResponse_body True True))) \<le> min kMaxMessageSize (length (io_send status_io))"
    using status_reply_length by (simp add: status_io_sel kMaxMessageSize_def)
  moreover have "van_calls (w_van waiting_world) = []" by (simp add: waiting_world_def start_world_def)
  ultimately show ?thesis using r by (auto simp: Let_def)
qed

end
